(* ===== verification/Prelude.thy ===== *)
theory Prelude
  imports Main "HOL-Library.Word" "HOL-Library.Monad_Syntax" "HOL-Library.Signed_Division"
begin

unbundle bit_operations_syntax

text \<open>
  Shared vocabulary of the development: the C integer types as words, reads and writes of C
  arrays that fail outside the array, and the generic facts about words, array accesses and
  option binds that the component theories use.

  Conventions used everywhere:
  \<^item> a C unsigned integer of width w is a \<open>w word\<close>; \<open>size_t\<close>, \<open>uintptr_t\<close> and pointers are
    \<open>64 word\<close> (the kernel is built with \<open>-m64\<close>);
  \<^item> a computation of type \<open>'a option\<close> is \<open>None\<close> where the C program has no defined result:
    an array access outside its object, or a loop that never ends;
  \<^item> error codes of the source are values of their own datatypes, never \<open>None\<close>.
\<close>

section \<open>Machine types\<close>

type_synonym u8 = "8 word"
type_synonym u16 = "16 word"
type_synonym u32 = "32 word"
type_synonym u64 = "64 word"

abbreviation (input) UINT8_MAX :: u8 where "UINT8_MAX \<equiv> 255"
abbreviation (input) UINT16_MAX :: u32 where "UINT16_MAX \<equiv> 65535"

named_theorems array_simps \<open>rewriting of checked array reads and writes\<close>
named_theorems unat_simps \<open>unsigned values of word operations that do not wrap\<close>

section \<open>Checked array accesses\<close>

text \<open>Reading and writing element \<open>i\<close> of a C array; \<open>None\<close> is an access outside the array.\<close>

definition arr_get :: "'a list \<Rightarrow> u64 \<Rightarrow> 'a option" where
  "arr_get xs i = (if unat i < length xs then Some (xs ! unat i) else None)"

definition arr_set :: "'a list \<Rightarrow> u64 \<Rightarrow> 'a \<Rightarrow> 'a list option" where
  "arr_set xs i v = (if unat i < length xs then Some (xs[unat i := v]) else None)"

lemma arr_get_Some [array_simps]:
  "arr_get xs i = Some v \<longleftrightarrow> unat i < length xs \<and> v = xs ! unat i"
  by (auto simp: arr_get_def)

lemma arr_get_in [array_simps]: "unat i < length xs \<Longrightarrow> arr_get xs i = Some (xs ! unat i)"
  by (simp add: arr_get_def)

lemma arr_get_None [array_simps]: "arr_get xs i = None \<longleftrightarrow> length xs \<le> unat i"
  by (auto simp: arr_get_def)

lemma arr_set_Some [array_simps]:
  "arr_set xs i v = Some ys \<longleftrightarrow> unat i < length xs \<and> ys = xs[unat i := v]"
  by (auto simp: arr_set_def)

lemma arr_set_in [array_simps]: "unat i < length xs \<Longrightarrow> arr_set xs i v = Some (xs[unat i := v])"
  by (simp add: arr_set_def)

lemma arr_set_None [array_simps]: "arr_set xs i v = None \<longleftrightarrow> length xs \<le> unat i"
  by (auto simp: arr_set_def)

lemma bind_Some_iff [array_simps]:
  "Option.bind m f = Some y \<longleftrightarrow> (\<exists>x. m = Some x \<and> f x = Some y)"
  by (cases m) auto

section \<open>Unsigned arithmetic without wrap-around\<close>

lemma unat_u64_lt [simp]: "unat (a :: u64) < 18446744073709551616"
  using unsigned_less [of a] by simp

lemma unat_add_u64 [unat_simps]:
  "unat (a :: u64) + unat b < 2 ^ 64 \<Longrightarrow> unat (a + b) = unat a + unat b"
  using unat_add_lem [of a b] by simp

lemma unat_mult_u64 [unat_simps]:
  "unat (a :: u64) * unat b < 2 ^ 64 \<Longrightarrow> unat (a * b) = unat a * unat b"
  using unat_mult_lem [of a b] by simp

lemma unat_diff_word [unat_simps]:
  "b \<le> a \<Longrightarrow> unat ((a :: 'a::len word) - b) = unat a - unat b"
  by (rule unat_sub)

lemma unat_of_nat_u64 [unat_simps]: "n < 2 ^ 64 \<Longrightarrow> unat (of_nat n :: u64) = n"
  by (simp add: unat_of_nat)

lemma unat_div_word [unat_simps]: "unat ((a :: 'a::len word) div b) = unat a div unat b"
  by (rule unat_div)

lemma unat_mod_word [unat_simps]: "unat ((a :: 'a::len word) mod b) = unat a mod unat b"
  by (rule unat_mod)

section \<open>Single bits\<close>

lemma and_push_bit_1_eq_0:
  "(w :: 'a::len word) AND push_bit k 1 = 0 \<longleftrightarrow> k < LENGTH('a) \<longrightarrow> \<not> bit w k"
proof -
  have "w AND push_bit k 1 = 0 \<longleftrightarrow> (\<forall>n. \<not> bit (w AND push_bit k 1) n)"
    by (metis bit_0_eq bit_eqI bot_apply bot_bool_def)
  also have "\<dots> \<longleftrightarrow> (k < LENGTH('a) \<longrightarrow> \<not> bit w k)"
    by (auto simp: bit_simps)
  finally show ?thesis .
qed

lemma bit_set_one: "bit ((w :: 'a::len word) OR push_bit k 1) n \<longleftrightarrow> bit w n \<or> (n = k \<and> k < LENGTH('a))"
  by (auto simp: bit_simps)

lemma bit_clear_one: "bit ((w :: 'a::len word) AND NOT (push_bit k 1)) n \<longleftrightarrow> bit w n \<and> n \<noteq> k"
  by (auto simp: bit_simps dest: bit_imp_le_length)

lemmas bit_one_simps = bit_set_one bit_clear_one
  bit_set_one [unfolded push_bit_of_1] bit_clear_one [unfolded push_bit_of_1]

lemma byte_all_ones_iff: "(w :: u8) = 255 \<longleftrightarrow> (\<forall>k<8. bit w k)"
proof
  assume "w = 255"
  moreover have "bit (255 :: u8) k" if "k < 8" for k
  proof -
    have m: "(255 :: u8) = mask 8" by (simp add: mask_eq_exp_minus_1)
    show ?thesis unfolding m using that by (simp only: bit_mask_iff) simp
  qed
  ultimately show "\<forall>k<8. bit w k" by blast
next
  assume a: "\<forall>k<8. bit w k"
  have m: "(255 :: u8) = mask 8" by (simp add: mask_eq_exp_minus_1)
  show "w = 255"
    unfolding m by (rule bit_word_eqI) (use a in \<open>simp add: bit_mask_iff\<close>)
qed

text \<open>The two bytes of a number below \<open>2^16\<close>, as the drivers compute them.\<close>

lemma low_byte: "(ucast ((w :: 'a::len word) AND 0xff) :: u8) = ucast w"
proof -
  have m: "(0xff :: 'a word) = mask 8" by (simp add: mask_eq_exp_minus_1)
  show ?thesis unfolding m by (rule bit_word_eqI) (auto simp: bit_simps dest: bit_imp_le_length)
qed

lemma high_byte: "(ucast (drop_bit 8 ((w :: 'a::len word) AND 0xff00)) :: u8) = ucast (drop_bit 8 w)"
proof -
  have m: "(0xff00 :: 'a word) = push_bit 8 (mask 8)" by (simp add: mask_eq_exp_minus_1 push_bit_eq_mult)
  show ?thesis unfolding m by (rule bit_word_eqI) (auto simp: bit_simps dest: bit_imp_le_length)
qed

lemma byte_split:
  fixes w :: "'a::len word"
  assumes "unat w < 2 ^ 16"
  shows "unat (ucast (w AND 0xff) :: u8) + 256 * unat (ucast (drop_bit 8 (w AND 0xff00)) :: u8) = unat w"
proof -
  have "unat (drop_bit 8 w) = drop_bit 8 (unat w)" by (simp add: unsigned_drop_bit_eq take_bit_nat_eq_self [OF unsigned_less])
  then have d: "unat (drop_bit 8 w) = unat w div 256" by (simp only: drop_bit_eq_div) simp
  have "unat (ucast w :: u8) = unat w mod 256" by (simp add: unsigned_ucast_eq take_bit_eq_mod)
  moreover have "unat (ucast (drop_bit 8 w) :: u8) = unat w div 256"
    using assms by (simp add: unsigned_ucast_eq d take_bit_eq_mod)
  ultimately show ?thesis unfolding low_byte high_byte by simp
qed

section \<open>Signed values\<close>

lemma sint_nonneg:
  fixes w :: "'a::len word"
  assumes "unat w < 2 ^ (LENGTH('a) - 1)"
  shows "sint w = int (unat w)"
proof -
  have "int (unat w) < int (2 ^ (LENGTH('a) - 1))" using assms by (simp only: of_nat_less_iff)
  then have u: "uint w < 2 ^ (LENGTH('a) - 1)" "0 \<le> uint w" by (simp_all only: uint_nat) simp_all
  have "sint w = signed_take_bit (LENGTH('a) - 1) (uint w)" by (simp add: sint_uint)
  also have "\<dots> = uint w"
    by (rule signed_take_bit_int_eq_self) (use u in \<open>simp_all add: order_trans [OF _ u(2)]\<close>)
  finally show ?thesis by (simp only: uint_nat)
qed

section \<open>Rounding\<close>

lemma div8_round_up: "8 dvd (n :: nat) \<Longrightarrow> (n + 7) div 8 = n div 8"
  by (elim dvdE) simp

lemma div8_round_up_mult: "8 dvd (n :: nat) \<Longrightarrow> 8 * ((n + 7) div 8) = n"
  by (elim dvdE) simp

lemma dvd_div_4096: "32768 dvd (n :: nat) \<Longrightarrow> 8 dvd n div 4096"
proof (elim dvdE)
  fix k assume "n = 32768 * k"
  then have "n div 4096 = 8 * k" by simp
  then show "8 dvd n div 4096" by simp
qed

section \<open>Lists\<close>

lemma find_Some_upt:
  "find P [0..<n] = Some k \<Longrightarrow> k < n \<and> P k \<and> (\<forall>j<k. \<not> P j)"
  by (auto simp: find_Some_iff)

lemma find_upt_exists: "k < n \<Longrightarrow> P k \<Longrightarrow> \<exists>j. find P [0..<n] = Some j"
  by (metis (no_types, lifting) atLeastLessThan_iff atLeast_upt find_None_iff lessThan_iff not_None_eq)

lemma mod_shift_onto:
  assumes "t < (n :: nat)"
  shows "\<exists>j<n. (j + c) mod n = t"
proof -
  have n: "0 < n" using assms by simp
  let ?j = "(t + (n - c mod n)) mod n"
  have "(?j + c) mod n = (t + (n - c mod n) + c mod n) mod n"
    by (metis mod_add_left_eq mod_add_right_eq)
  also have "\<dots> = t"
  proof -
    have "t + (n - c mod n) + c mod n = t + n"
      using mod_less_divisor [OF n, of c] by simp
    then show ?thesis using assms by simp
  qed
  finally show ?thesis using n by (meson mod_less_divisor)
qed

end
