(* ===== verification/PmmRegion.thy ===== *)
theory PmmRegion
  imports Prelude
begin

text \<open>
  Regions of the physical memory manager (kernel/src/memory/pmm_region.c and
  pmm_region.h): the region struct with its bitmap, \<open>pmm_region_init\<close>,
  \<open>pmm_region_mark_page_free\<close> and \<open>pmm_region_mark_page_used\<close>.

  The bitmap the struct points to is the list \<open>r_bitmap\<close> of its bytes; the pointer itself is
  kept in \<open>r_bitmap_ptr\<close>, since the layout of the bitmaps in memory is computed by
  \<open>pmm_init\<close>. An access outside the bitmap is \<open>None\<close>. The \<open>LOG_ERROR\<close> lines of this
  file only report the error code that is returned and are not modelled.
\<close>

section \<open>Data\<close>

abbreviation (input) PAGE_SIZE_BYTE :: u64 where "PAGE_SIZE_BYTE \<equiv> 4096"

text \<open>The enum of memory types; \<open>memmap\<close> entries carry it as an integer, which the code casts.\<close>

type_synonym pmm_memory_types_t = u32

abbreviation (input) MEMMAP_TYPE_USABLE :: pmm_memory_types_t where "MEMMAP_TYPE_USABLE \<equiv> 0"
abbreviation (input) MEMMAP_TYPE_RESERVED :: pmm_memory_types_t where "MEMMAP_TYPE_RESERVED \<equiv> 1"

datatype pmm_region_error_codes_t = PMM_REGION_OK | PMM_REGION_ERROR

abbreviation (input) PMM_REGION_BITMAP_FREE :: u8 where "PMM_REGION_BITMAP_FREE \<equiv> 0"

record pmm_region_t =
  r_bitmap_ptr :: u64
  r_bitmap :: "u8 list"
  r_bitmap_size :: u64
  r_base :: u64
  r_length :: u64
  r_free_pages :: u64
  r_type :: pmm_memory_types_t

section \<open>Operations\<close>

definition pmm_region_mark_page_free ::
    "pmm_region_t \<Rightarrow> u64 \<Rightarrow> (pmm_region_error_codes_t \<times> pmm_region_t) option" where
  "pmm_region_mark_page_free region phys_address =
     (if phys_address < r_base region \<or> phys_address > r_base region + r_length region
      then Some (PMM_REGION_ERROR, region)
      else
        let page = (phys_address - r_base region) div PAGE_SIZE_BYTE in
        do {
          byte \<leftarrow> arr_get (r_bitmap region) (page div 8);
          bm \<leftarrow> arr_set (r_bitmap region) (page div 8)
                  (byte AND NOT (push_bit (unat (page mod 8)) 1));
          Some (PMM_REGION_OK,
                region\<lparr>r_bitmap := bm, r_free_pages := r_free_pages region + 1\<rparr>)
        })"

definition pmm_region_mark_page_used ::
    "pmm_region_t \<Rightarrow> u64 \<Rightarrow> (pmm_region_error_codes_t \<times> pmm_region_t) option" where
  "pmm_region_mark_page_used region phys_address =
     (if phys_address < r_base region \<or> phys_address > r_base region + r_length region
      then Some (PMM_REGION_ERROR, region)
      else
        let page = (phys_address - r_base region) div PAGE_SIZE_BYTE in
        do {
          byte \<leftarrow> arr_get (r_bitmap region) (page div 8);
          bm \<leftarrow> arr_set (r_bitmap region) (page div 8)
                  (byte OR push_bit (unat (page mod 8)) 1);
          Some (PMM_REGION_OK,
                region\<lparr>r_bitmap := bm, r_free_pages := r_free_pages region - 1\<rparr>)
        })"

text \<open>
  \<open>region_length\<close> is a \<open>ptrdiff_t\<close>: the number of pages is a signed division. The two
  \<open>memset\<close> calls overwrite the whole bitmap of \<open>bitmap_size\<close> bytes.
\<close>

definition pmm_region_init ::
    "u64 \<Rightarrow> u64 \<Rightarrow> u64 \<Rightarrow> pmm_memory_types_t \<Rightarrow> pmm_region_t" where
  "pmm_region_init bitmap_base region_base region_length region_type =
     (let pages = word_of_int (sint region_length sdiv 4096) :: u64;
          size = (pages + 7) div 8;
          region = \<lparr>r_bitmap_ptr = bitmap_base, r_bitmap = [], r_bitmap_size = size,
                    r_base = region_base, r_length = region_length, r_free_pages = pages,
                    r_type = region_type\<rparr>
      in if region_type = MEMMAP_TYPE_USABLE
         then region\<lparr>r_bitmap := replicate (unat size) PMM_REGION_BITMAP_FREE\<rparr>
         else region\<lparr>r_bitmap := replicate (unat size) UINT8_MAX, r_free_pages := 0\<rparr>)"

section \<open>The pages a bitmap marks free\<close>

definition free_idx :: "u8 list \<Rightarrow> nat set" where
  "free_idx bm = {p. p < 8 * length bm \<and> \<not> bit (bm ! (p div 8)) (p mod 8)}"

lemma finite_free_idx [simp]: "finite (free_idx bm)"
  by (rule finite_subset [of _ "{..<8 * length bm}"]) (auto simp: free_idx_def)

lemma free_idx_byte_lt: "p \<in> free_idx bm \<Longrightarrow> p div 8 < length bm"
  by (auto simp: free_idx_def)

lemma div_mod_8_unique: "(p :: nat) div 8 = q div 8 \<Longrightarrow> p mod 8 = q mod 8 \<Longrightarrow> p = q"
  by (metis div_mult_mod_eq)

text \<open>Replacing one byte of a bitmap changes the free pages of that byte only.\<close>

lemma free_idx_update:
  assumes "j < length bm"
  shows "p \<in> free_idx (bm[j := w]) \<longleftrightarrow>
           p < 8 * length bm \<and> (if p div 8 = j then \<not> bit w (p mod 8) else p \<in> free_idx bm)"
  using assms by (simp add: free_idx_def nth_list_update)

lemma free_idx_set:
  assumes "q < 8 * length bm"
  shows "free_idx (bm[q div 8 := bm ! (q div 8) OR push_bit (q mod 8) 1]) = free_idx bm - {q}"
proof (rule set_eqI)
  fix p
  have j: "q div 8 < length bm" using assms by simp
  show "p \<in> free_idx (bm[q div 8 := bm ! (q div 8) OR push_bit (q mod 8) 1]) \<longleftrightarrow>
      p \<in> free_idx bm - {q}"
  proof (cases "p div 8 = q div 8")
    case True
    then have "p = q \<longleftrightarrow> p mod 8 = q mod 8" by (metis div_mod_8_unique)
    with True show ?thesis
      by (simp add: free_idx_update [OF j] bit_one_simps) (auto simp: free_idx_def)
  next
    case False
    then have "p \<noteq> q" by blast
    with False show ?thesis by (simp add: free_idx_update [OF j]) (auto simp: free_idx_def)
  qed
qed

lemma free_idx_clear:
  assumes "q < 8 * length bm"
  shows "free_idx (bm[q div 8 := bm ! (q div 8) AND NOT (push_bit (q mod 8) 1)])
           = insert q (free_idx bm)"
proof (rule set_eqI)
  fix p
  have j: "q div 8 < length bm" using assms by simp
  show "p \<in> free_idx (bm[q div 8 := bm ! (q div 8) AND NOT (push_bit (q mod 8) 1)]) \<longleftrightarrow>
      p \<in> insert q (free_idx bm)"
  proof (cases "p div 8 = q div 8")
    case True
    then have "p = q \<longleftrightarrow> p mod 8 = q mod 8" by (metis div_mod_8_unique)
    with True assms show ?thesis
      by (simp add: free_idx_update [OF j] bit_one_simps) (auto simp: free_idx_def)
  next
    case False
    then have "p \<noteq> q" by blast
    with False show ?thesis by (simp add: free_idx_update [OF j]) (auto simp: free_idx_def)
  qed
qed

lemma free_idx_replicate_free: "free_idx (replicate n 0) = {..<8 * n}"
  by (auto simp: free_idx_def)

lemma free_idx_replicate_used: "free_idx (replicate n 255) = {}"
proof -
  have "bit (255 :: u8) (p mod 8)" for p
    using byte_all_ones_iff [of "255"] by simp
  then show ?thesis by (auto simp: free_idx_def)
qed

lemma set_clear_id:
  assumes "\<not> bit (w :: u8) k"
  shows "(w OR push_bit k 1) AND NOT (push_bit k 1) = w"
  by (rule bit_word_eqI) (use assms in \<open>auto simp: bit_simps\<close>)

section \<open>Well-formed regions\<close>

definition region_pages :: "pmm_region_t \<Rightarrow> nat" where
  "region_pages r = unat (r_length r) div 4096"

definition page_addr :: "pmm_region_t \<Rightarrow> nat \<Rightarrow> u64" where
  "page_addr r p = r_base r + of_nat p * PAGE_SIZE_BYTE"

text \<open>
  The region's bitmap has its \<open>bitmap_size\<close> bytes, one bit per page and rounded up; the region
  does not wrap around the address space; every bit marked free stands for a page of the
  region; and \<open>free_pages\<close> counts the free bits.
\<close>

definition region_inv :: "pmm_region_t \<Rightarrow> bool" where
  "region_inv r \<longleftrightarrow>
     length (r_bitmap r) = unat (r_bitmap_size r) \<and>
     unat (r_bitmap_size r) = (region_pages r + 7) div 8 \<and>
     unat (r_base r) + unat (r_length r) < 2 ^ 64 \<and>
     free_idx (r_bitmap r) \<subseteq> {..<region_pages r} \<and>
     unat (r_free_pages r) = card (free_idx (r_bitmap r))"

lemma region_inv_bounds:
  assumes "region_inv r" "p < region_pages r"
  shows "p < 8 * length (r_bitmap r)" "p < 2 ^ 52"
    "unat (r_base r) + p * 4096 + 4096 \<le> unat (r_base r) + unat (r_length r)"
    "unat (page_addr r p) = unat (r_base r) + p * 4096"
proof -
  show "p < 8 * length (r_bitmap r)"
    using assms by (auto simp: region_inv_def)
  have len: "(p + 1) * 4096 \<le> unat (r_length r)"
  proof -
    have "(p + 1) * 4096 \<le> region_pages r * 4096"
      using assms(2) by simp
    also have "\<dots> \<le> unat (r_length r)"
      unfolding region_pages_def by (rule div_times_less_eq_dividend)
    finally show ?thesis .
  qed
  have "(p + 1) * 4096 < 18446744073709551616"
    using len unat_u64_lt by (rule le_less_trans)
  then show b: "p < 2 ^ 52" by simp
  show le: "unat (r_base r) + p * 4096 + 4096 \<le> unat (r_base r) + unat (r_length r)"
    using len by simp
  have "unat (of_nat p * PAGE_SIZE_BYTE) = p * 4096"
    using b by (simp add: unat_simps)
  then show "unat (page_addr r p) = unat (r_base r) + p * 4096"
    using le assms(1) unfolding page_addr_def region_inv_def by (subst unat_add_u64) auto
qed

lemma page_addr_index:
  assumes "region_inv r" "p < region_pages r"
  shows "(page_addr r p - r_base r) div PAGE_SIZE_BYTE = of_nat p"
    and "r_base r \<le> page_addr r p" and "page_addr r p \<le> r_base r + r_length r"
proof -
  note b = region_inv_bounds [OF assms]
  show le: "r_base r \<le> page_addr r p"
    using b by (simp add: word_le_nat_alt)
  have "unat (r_base r + r_length r) = unat (r_base r) + unat (r_length r)"
    using assms(1) by (simp add: region_inv_def unat_simps)
  then show "page_addr r p \<le> r_base r + r_length r"
    using b by (simp add: word_le_nat_alt)
  have d: "unat (page_addr r p - r_base r) = p * 4096"
    using b(4) by (simp only: unat_diff_word [OF le] diff_add_inverse)
  have "unat ((page_addr r p - r_base r) div PAGE_SIZE_BYTE) = p"
    unfolding unat_div_word d by simp
  moreover have "unat (of_nat p :: u64) = p"
    using b(2) by (simp add: unat_of_nat_u64)
  ultimately show "(page_addr r p - r_base r) div PAGE_SIZE_BYTE = of_nat p"
    by (simp only: word_unat_eq_iff)
qed

lemma page_div_mod_8:
  assumes "p < 2 ^ 52"
  shows "unat ((of_nat p :: u64) div 8) = p div 8" "unat ((of_nat p :: u64) mod 8) = p mod 8"
  using assms by (simp_all add: unat_simps)

section \<open>What the operations do to a well-formed region\<close>

lemma mark_used_page:
  assumes "region_inv r" "p < region_pages r"
  shows "pmm_region_mark_page_used r (page_addr r p) = Some (PMM_REGION_OK,
           r\<lparr>r_bitmap := (r_bitmap r)[p div 8 := r_bitmap r ! (p div 8) OR push_bit (p mod 8) 1],
             r_free_pages := r_free_pages r - 1\<rparr>)"
proof -
  note b = region_inv_bounds [OF assms] and i = page_addr_index [OF assms]
  have "p div 8 < length (r_bitmap r)" using b(1) by simp
  with i show ?thesis
    by (simp add: pmm_region_mark_page_used_def Let_def page_div_mod_8 [OF b(2)] array_simps
        del: push_bit_of_1) (simp add: not_less [symmetric])
qed

lemma mark_free_page:
  assumes "region_inv r" "p < region_pages r"
  shows "pmm_region_mark_page_free r (page_addr r p) = Some (PMM_REGION_OK,
           r\<lparr>r_bitmap := (r_bitmap r)[p div 8 :=
               r_bitmap r ! (p div 8) AND NOT (push_bit (p mod 8) 1)],
             r_free_pages := r_free_pages r + 1\<rparr>)"
proof -
  note b = region_inv_bounds [OF assms] and i = page_addr_index [OF assms]
  have "p div 8 < length (r_bitmap r)" using b(1) by simp
  with i show ?thesis
    by (simp add: pmm_region_mark_page_free_def Let_def page_div_mod_8 [OF b(2)] array_simps
        del: push_bit_of_1) (simp add: not_less [symmetric])
qed

text \<open>Decrementing and incrementing the counter follows the set of free pages.\<close>

lemma free_count_dec:
  assumes "unat (n :: u64) = card A" "finite A" "p \<in> A"
  shows "unat (n - 1) = card (A - {p})"
proof -
  have "0 < card A" using assms(2,3) by (auto simp: card_gt_0_iff)
  then have "n \<noteq> 0" using assms(1) by auto
  then have "unat (n - 1) = unat n - 1" by (rule unat_minus_one)
  with assms show ?thesis by simp
qed

lemma free_count_inc:
  assumes "unat (n :: u64) = card A" "finite A" "p \<notin> A" "card A < 2 ^ 63"
  shows "unat (n + 1) = card (insert p A)"
  using assms by (subst unat_add_u64) auto

lemma region_free_card_bound:
  assumes "region_inv r"
  shows "card (free_idx (r_bitmap r)) \<le> region_pages r" "region_pages r < 2 ^ 52 + 1"
proof -
  show "card (free_idx (r_bitmap r)) \<le> region_pages r"
    using assms card_mono [of "{..<region_pages r}" "free_idx (r_bitmap r)"]
    by (auto simp: region_inv_def)
  have "region_pages r \<le> unat (r_length r) div 4096" by (simp add: region_pages_def)
  also have "\<dots> \<le> 18446744073709551616 div 4096"
    by (rule div_le_mono) (simp add: less_imp_le)
  finally show "region_pages r < 2 ^ 52 + 1" by simp
qed

text \<open>
  The two marking operations of a page of the region, as the callers use them: what happens
  to the set of free pages, and that the region stays well-formed. \<open>same_region\<close> is the part
  of the struct no operation changes.
\<close>

definition same_region :: "pmm_region_t \<Rightarrow> pmm_region_t \<Rightarrow> bool" where
  "same_region r r' \<longleftrightarrow> r_base r' = r_base r \<and> r_length r' = r_length r \<and> r_type r' = r_type r \<and>
     r_bitmap_ptr r' = r_bitmap_ptr r \<and> r_bitmap_size r' = r_bitmap_size r"

lemma same_region_pages: "same_region r r' \<Longrightarrow> region_pages r' = region_pages r"
  by (simp add: same_region_def region_pages_def)

lemma same_region_addr: "same_region r r' \<Longrightarrow> page_addr r' p = page_addr r p"
  by (simp add: same_region_def page_addr_def)

lemma same_region_refl [simp, intro]: "same_region r r"
  by (simp add: same_region_def)

lemma region_inv_same:
  assumes "region_inv r" "same_region r r'" "length (r_bitmap r') = length (r_bitmap r)"
    "free_idx (r_bitmap r') \<subseteq> {..<region_pages r}"
    "unat (r_free_pages r') = card (free_idx (r_bitmap r'))"
  shows "region_inv r'"
  using assms(1-2) assms(3-5) unfolding region_inv_def same_region_pages [OF assms(2)] same_region_def
  by (elim conjE, intro conjI) (simp_all only:)

lemma mark_used_free_page:
  assumes inv: "region_inv r" and p: "p \<in> free_idx (r_bitmap r)"
  obtains r' where "pmm_region_mark_page_used r (page_addr r p) = Some (PMM_REGION_OK, r')"
    "region_inv r'" "same_region r r'" "free_idx (r_bitmap r') = free_idx (r_bitmap r) - {p}"
proof -
  have lt: "p < region_pages r" using inv p by (auto simp: region_inv_def)
  define r' where "r' = r\<lparr>r_bitmap := (r_bitmap r)[p div 8 :=
      r_bitmap r ! (p div 8) OR push_bit (p mod 8) 1], r_free_pages := r_free_pages r - 1\<rparr>"
  have free: "free_idx (r_bitmap r') = free_idx (r_bitmap r) - {p}"
    using free_idx_set [OF region_inv_bounds(1) [OF inv lt]] by (simp add: r'_def del: push_bit_of_1)
  have same: "same_region r r'" by (simp add: r'_def same_region_def)
  have count: "unat (r_free_pages r') = card (free_idx (r_bitmap r'))"
    unfolding free using inv p free_count_dec [of "r_free_pages r" "free_idx (r_bitmap r)" p]
    by (simp add: r'_def region_inv_def)
  have "region_inv r'"
  proof (rule region_inv_same [OF inv same])
    show "free_idx (r_bitmap r') \<subseteq> {..<region_pages r}"
      unfolding free using inv by (auto simp: region_inv_def)
  qed (use count in \<open>simp_all add: r'_def\<close>)
  with that mark_used_page [OF inv lt] free same show ?thesis by (simp add: r'_def)
qed

lemma mark_free_used_page:
  assumes inv: "region_inv r" and lt: "p < region_pages r" and p: "p \<notin> free_idx (r_bitmap r)"
  obtains r' where "pmm_region_mark_page_free r (page_addr r p) = Some (PMM_REGION_OK, r')"
    "region_inv r'" "same_region r r'" "free_idx (r_bitmap r') = insert p (free_idx (r_bitmap r))"
proof -
  define r' where "r' = r\<lparr>r_bitmap := (r_bitmap r)[p div 8 :=
      r_bitmap r ! (p div 8) AND NOT (push_bit (p mod 8) 1)], r_free_pages := r_free_pages r + 1\<rparr>"
  have free: "free_idx (r_bitmap r') = insert p (free_idx (r_bitmap r))"
    using free_idx_clear [OF region_inv_bounds(1) [OF inv lt]] by (simp add: r'_def del: push_bit_of_1)
  have same: "same_region r r'" by (simp add: r'_def same_region_def)
  have "card (free_idx (r_bitmap r)) < 2 ^ 63"
    using region_free_card_bound [OF inv] by simp
  then have count: "unat (r_free_pages r') = card (free_idx (r_bitmap r'))"
    unfolding free using inv p free_count_inc [of "r_free_pages r" "free_idx (r_bitmap r)" p]
    by (simp add: r'_def region_inv_def)
  have "region_inv r'"
  proof (rule region_inv_same [OF inv same])
    show "free_idx (r_bitmap r') \<subseteq> {..<region_pages r}"
      unfolding free using inv lt by (auto simp: region_inv_def)
  qed (use count in \<open>simp_all add: r'_def\<close>)
  with that mark_free_page [OF inv lt] free same show ?thesis by (simp add: r'_def)
qed

section \<open>Initialization\<close>

lemma pages_word:
  assumes "unat (l :: u64) < 2 ^ 63"
  shows "unat (word_of_int (sint l sdiv 4096) :: u64) = unat l div 4096"
proof -
  have aux: "signed_take_bit 63 (int n) = int n" if "n < 2 ^ 63" for n :: nat
    by (rule signed_take_bit_int_eq_self) (use that in simp_all)
  have l: "sint l = int (unat l)"
    using aux [OF assms] by (simp add: sint_uint)
  have q: "int n sdiv 4096 = int (n div 4096)" for n :: nat
    by (cases "n = 0") (simp_all add: signed_divide_int_def zdiv_int)
  have "unat l div 4096 < 2 ^ 64"
    using le_less_trans [OF div_le_dividend assms, of 4096] by simp
  then show ?thesis
    unfolding l q by (simp only: of_int_of_nat_eq) (rule unat_of_nat_u64)
qed

text \<open>
  An initialized usable region has every page free, one with another type has none. The
  bitmap has spare bits after the last page unless the number of pages is a multiple of 8, and
  \<open>pmm_region_init\<close> leaves them 0, which reads as free: only without spare bits is the region
  well-formed.
\<close>

definition init_region_ok :: "u64 \<Rightarrow> u64 \<Rightarrow> pmm_memory_types_t \<Rightarrow> bool" where
  "init_region_ok b l t \<longleftrightarrow> unat l < 2 ^ 63 \<and> unat b + unat l < 2 ^ 64 \<and>
     (t = MEMMAP_TYPE_USABLE \<longrightarrow> 8 dvd unat l div 4096)"

lemma region_init_fields:
  assumes "unat l < 2 ^ 63"
    and r_def: "r = pmm_region_init bm b l t"
  shows "r_base r = b" "r_length r = l" "r_type r = t" "r_bitmap_ptr r = bm"
    "unat (r_bitmap_size r) = (unat l div 4096 + 7) div 8"
    "length (r_bitmap r) = unat (r_bitmap_size r)"
    "region_pages r = unat l div 4096"
    "unat (r_free_pages r) = (if t = MEMMAP_TYPE_USABLE then unat l div 4096 else 0)"
    "free_idx (r_bitmap r) = (if t = MEMMAP_TYPE_USABLE then {..<8 * unat (r_bitmap_size r)} else {})"
proof -
  let ?p = "word_of_int (sint l sdiv 4096) :: u64"
  have p: "unat ?p = unat l div 4096" by (rule pages_word [OF assms(1)])
  have "unat l div 4096 + 7 < 2 ^ 64"
    using le_less_trans [OF div_le_dividend assms(1), of 4096] by simp
  then have "unat ((?p + 7) div 8) = (unat l div 4096 + 7) div 8"
    using p by (simp add: unat_simps)
  then show "unat (r_bitmap_size r) = (unat l div 4096 + 7) div 8"
    by (simp add: r_def pmm_region_init_def Let_def)
  show "unat (r_free_pages r) = (if t = MEMMAP_TYPE_USABLE then unat l div 4096 else 0)"
    by (simp add: r_def pmm_region_init_def Let_def p)
  show "free_idx (r_bitmap r) = (if t = MEMMAP_TYPE_USABLE then {..<8 * unat (r_bitmap_size r)} else {})"
    by (simp add: r_def pmm_region_init_def Let_def free_idx_replicate_free free_idx_replicate_used)
qed (simp_all add: r_def pmm_region_init_def Let_def region_pages_def)

lemma region_init_inv:
  assumes "init_region_ok b l t"
  shows "region_inv (pmm_region_init bm b l t)"
proof -
  have l: "unat l < 2 ^ 63" using assms by (simp add: init_region_ok_def)
  let ?n = "unat l div 4096"
  have s: "8 * ((?n + 7) div 8) = ?n" if "t = MEMMAP_TYPE_USABLE"
    using that assms div8_round_up_mult unfolding init_region_ok_def by blast
  show ?thesis
    unfolding region_inv_def region_init_fields [OF l refl]
  proof (intro conjI)
    show "unat b + unat l < 2 ^ 64" using assms by (simp only: init_region_ok_def)
    show "(if t = MEMMAP_TYPE_USABLE then {..<8 * ((?n + 7) div 8)} else {}) \<subseteq> {..<?n}"
      using s by (cases "t = MEMMAP_TYPE_USABLE") (simp_all only: if_True if_False simp_thms order.refl empty_subsetI)
    show "(if t = MEMMAP_TYPE_USABLE then ?n else 0) =
        card (if t = MEMMAP_TYPE_USABLE then {..<8 * ((?n + 7) div 8)} else {})"
      using s by (cases "t = MEMMAP_TYPE_USABLE") (simp_all only: if_True if_False simp_thms card_lessThan card.empty)
  qed (rule refl)+
qed

lemma region_init_free:
  assumes "init_region_ok b l t"
  shows "free_idx (r_bitmap (pmm_region_init bm b l t)) =
    (if t = MEMMAP_TYPE_USABLE then {..<unat l div 4096} else {})"
proof -
  have l: "unat l < 2 ^ 63" using assms by (simp add: init_region_ok_def)
  have s: "8 * ((unat l div 4096 + 7) div 8) = unat l div 4096" if "t = MEMMAP_TYPE_USABLE"
    using that assms div8_round_up_mult unfolding init_region_ok_def by blast
  show ?thesis
    unfolding region_init_fields [OF l refl]
    using s by (cases "t = MEMMAP_TYPE_USABLE") (simp_all only: if_True if_False simp_thms)
qed

section \<open>Properties\<close>



text \<open>
  Marking a free page used and then free again restores the region exactly: the same
  bitmap bytes and the same counter.
\<close>

theorem region_mark_used_free_roundtrip:
  assumes "region_inv r" and "p \<in> free_idx (r_bitmap r)"
  shows "do { (c, r1) \<leftarrow> pmm_region_mark_page_used r (page_addr r p);
              (c', r2) \<leftarrow> pmm_region_mark_page_free r1 (page_addr r p);
              Some (c, c', r2) } = Some (PMM_REGION_OK, PMM_REGION_OK, r)"
proof -
  have lt: "p < region_pages r" using assms by (auto simp: region_inv_def)
  from assms obtain r1 where used: "pmm_region_mark_page_used r (page_addr r p) = Some (PMM_REGION_OK, r1)"
    and r1: "region_inv r1" "same_region r r1"
    by (rule mark_used_free_page)
  have r1_eq: "r1 = r\<lparr>r_bitmap := (r_bitmap r)[p div 8 := r_bitmap r ! (p div 8) OR push_bit (p mod 8) 1],
      r_free_pages := r_free_pages r - 1\<rparr>"
    using used mark_used_page [OF assms(1) lt] by simp
  have bit: "\<not> bit (r_bitmap r ! (p div 8)) (p mod 8)" and len: "p div 8 < length (r_bitmap r)"
    using assms(2) by (auto simp: free_idx_def)
  have "pmm_region_mark_page_free r1 (page_addr r p) = Some (PMM_REGION_OK, r)"
    using mark_free_page [OF r1(1), of p] lt set_clear_id [OF bit] len
    unfolding same_region_pages [OF r1(2)] same_region_addr [OF r1(2)]
    by (simp add: r1_eq del: push_bit_of_1)
  with used show ?thesis by simp
qed

lemma region_mark_used_free_roundtrip_witness:
  "do { (c, r1) \<leftarrow> pmm_region_mark_page_used
            (pmm_region_init 0x9000 0x100000 0x8000 MEMMAP_TYPE_USABLE) 0x103000;
        (c', r2) \<leftarrow> pmm_region_mark_page_free r1 0x103000;
        Some (c, c', r2) } =
   Some (PMM_REGION_OK, PMM_REGION_OK, pmm_region_init 0x9000 0x100000 0x8000 MEMMAP_TYPE_USABLE)"
proof -
  let ?r = "pmm_region_init 0x9000 0x100000 0x8000 MEMMAP_TYPE_USABLE"
  have ok: "init_region_ok 0x100000 0x8000 MEMMAP_TYPE_USABLE"
    by (simp add: init_region_ok_def)
  have inv: "region_inv ?r" by (rule region_init_inv [OF ok])
  have "3 \<in> free_idx (r_bitmap ?r)"
    by (simp add: region_init_fields [OF _ refl])
  from region_mark_used_free_roundtrip [OF inv this] show ?thesis
    by (simp add: page_addr_def region_init_fields(1) [OF _ refl])
qed

text \<open>
  The bounds check of both marking operations accepts the address one past the end of the
  region (it tests \<open>>\<close> where the last address is \<open>base + length - 1\<close>). When the number of pages
  is a multiple of 8 that page has no bitmap byte: the operation accesses the bitmap outside
  its \<open>bitmap_size\<close> bytes.
\<close>

theorem region_mark_end_overruns:
  assumes "region_inv r" and "32768 dvd unat (r_length r)"
  shows "pmm_region_mark_page_used r (r_base r + r_length r) = None \<and>
         pmm_region_mark_page_free r (r_base r + r_length r) = None"
proof -
  have end_le: "r_base r \<le> r_base r + r_length r"
    using assms(1) by (simp add: region_inv_def word_le_nat_alt unat_simps)
  have "length (r_bitmap r) = unat (r_length r) div 4096 div 8"
    using assms(1) div8_round_up [OF dvd_div_4096 [OF assms(2)]]
    by (simp only: region_inv_def region_pages_def)
  then have "\<not> unat (r_length r div 4096 div 8) < length (r_bitmap r)"
    by (simp add: unat_simps)
  with end_le show ?thesis
    by (simp add: pmm_region_mark_page_used_def pmm_region_mark_page_free_def Let_def
        not_less [symmetric] arr_get_def)
qed

lemma region_mark_end_overruns_witness:
  "pmm_region_mark_page_used (pmm_region_init 0x9000 0x100000 0x8000 MEMMAP_TYPE_USABLE)
     0x108000 = None"
proof -
  have ok: "init_region_ok 0x100000 0x8000 MEMMAP_TYPE_USABLE"
    by (simp add: init_region_ok_def)
  have inv: "region_inv (pmm_region_init 0x9000 0x100000 0x8000 MEMMAP_TYPE_USABLE)"
    by (rule region_init_inv [OF ok])
  from region_mark_end_overruns [OF inv] show ?thesis
    by (simp add: region_init_fields(1,2) [OF _ refl])
qed

end
