(* ===== verification/PageAllocator.thy ===== *)
theory PageAllocator
  imports Prelude
begin

text \<open>
  The contract of a page allocator, as its clients (kernel/src/memory/paging.c) use
  \<open>pmm_alloc\<close> and \<open>pmm_free\<close>: a set of managed pages, the set of those that are free, an
  allocation that takes a free page or answers \<open>NULL\<close>, and a release of a page in use. What
  clients need is proved from the contract: pages in use are never handed out, and pages
  allocated one after the other are distinct.
\<close>

section \<open>A sequence of allocations\<close>

text \<open>\<open>n\<close> allocations in a row: the addresses returned and the final state.\<close>

fun alloc_times :: "('s \<Rightarrow> (u64 \<times> 's) option) \<Rightarrow> nat \<Rightarrow> 's \<Rightarrow> (u64 list \<times> 's) option" where
  "alloc_times alloc 0 s = Some ([], s)"
| "alloc_times alloc (Suc n) s =
     do {
       (a, s1) \<leftarrow> alloc s;
       (as, s2) \<leftarrow> alloc_times alloc n s1;
       Some (a # as, s2)
     }"

section \<open>The contract\<close>

locale page_allocator =
  fixes inv :: "'s \<Rightarrow> bool"
    and managed :: "'s \<Rightarrow> u64 set"
    and free :: "'s \<Rightarrow> u64 set"
    and alloc :: "'s \<Rightarrow> (u64 \<times> 's) option"
    and release :: "'s \<Rightarrow> u64 \<Rightarrow> ('e \<times> 's) option"
    and ok :: 'e
  assumes free_managed: "inv s \<Longrightarrow> free s \<subseteq> managed s"
    and finite_free: "inv s \<Longrightarrow> finite (free s)"
    and managed_page: "inv s \<Longrightarrow> a \<in> managed s \<Longrightarrow> a \<noteq> 0 \<and> 4096 dvd unat a \<and> unat a + 4096 \<le> 2 ^ 64"
    and alloc_some: "inv s \<Longrightarrow> free s \<noteq> {} \<Longrightarrow>
      \<exists>a s'. alloc s = Some (a, s') \<and> inv s' \<and> managed s' = managed s \<and> a \<in> free s \<and> free s' = free s - {a}"
    and alloc_none: "inv s \<Longrightarrow> free s = {} \<Longrightarrow> alloc s = Some (0, s)"
    and release_used: "inv s \<Longrightarrow> a \<in> managed s \<Longrightarrow> a \<notin> free s \<Longrightarrow>
      \<exists>s'. release s a = Some (ok, s') \<and> inv s' \<and> managed s' = managed s \<and> free s' = insert a (free s)"
begin

lemma alloc_total:
  assumes "inv s"
  obtains a s' where "alloc s = Some (a, s')" "inv s'" "managed s' = managed s" "free s' = free s - {a}"
    "a = 0 \<longleftrightarrow> free s = {}" "a \<noteq> 0 \<longrightarrow> a \<in> free s"
proof (cases "free s = {}")
  case True
  with that [of 0 s] alloc_none [OF assms] assms show ?thesis by simp
next
  case False
  then obtain a s' where "alloc s = Some (a, s')" "inv s'" "managed s' = managed s" "a \<in> free s"
    "free s' = free s - {a}"
    using alloc_some [OF assms] by blast
  moreover from this have "a \<noteq> 0" using free_managed [OF assms] managed_page [OF assms] by blast
  ultimately show ?thesis using that [of a s'] False by simp
qed

lemma alloc_fresh:
  assumes "inv s" "alloc s = Some (a, s')" "a \<noteq> 0"
  shows "a \<in> free s" "a \<in> managed s" "a \<notin> free s'" "inv s'" "managed s' = managed s"
    "free s' = free s - {a}" "4096 dvd unat a" "unat a + 4096 \<le> 2 ^ 64"
proof -
  from assms(1) obtain b t where *: "alloc s = Some (b, t)" "inv t" "managed t = managed s"
    "free t = free s - {b}" "b = 0 \<longleftrightarrow> free s = {}" "b \<noteq> 0 \<longrightarrow> b \<in> free s"
    by (rule alloc_total)
  then show "a \<in> free s" "a \<notin> free s'" "inv s'" "managed s' = managed s" "free s' = free s - {a}"
    using assms(2,3) by auto
  then show "a \<in> managed s" using free_managed [OF assms(1)] by blast
  then show "4096 dvd unat a" "unat a + 4096 \<le> 2 ^ 64" using managed_page [OF assms(1)] by blast+
qed

text \<open>As long as pages are free, successive allocations take distinct pages.\<close>

lemma alloc_times_distinct:
  assumes "inv s" and "n \<le> card (free s)"
  shows "\<exists>as s'. alloc_times alloc n s = Some (as, s') \<and> length as = n \<and> distinct as \<and>
    set as \<subseteq> free s \<and> inv s' \<and> managed s' = managed s \<and> free s' = free s - set as"
  using assms
proof (induction n arbitrary: s)
  case (Suc n)
  then have "free s \<noteq> {}" by auto
  then obtain a s1 where a: "alloc s = Some (a, s1)" "inv s1" "managed s1 = managed s" "a \<in> free s"
    "free s1 = free s - {a}"
    using alloc_some [OF Suc.prems(1)] by blast
  have "n \<le> card (free s1)" using a(4,5) finite_free [OF Suc.prems(1)] Suc.prems(2) by simp
  then obtain as s' where "alloc_times alloc n s1 = Some (as, s')" "length as = n" "distinct as"
    "set as \<subseteq> free s1" "inv s'" "managed s' = managed s1" "free s' = free s1 - set as"
    using Suc.IH [OF a(2)] by blast
  with a show ?case by auto
qed simp

lemma alloc_release:
  assumes "inv s" "free s \<noteq> {}"
  shows "\<exists>a s1 s2. alloc s = Some (a, s1) \<and> release s1 a = Some (ok, s2) \<and> inv s2 \<and>
    managed s2 = managed s \<and> free s2 = free s"
proof -
  obtain a s1 where a: "alloc s = Some (a, s1)" "inv s1" "managed s1 = managed s" "a \<in> free s"
    "free s1 = free s - {a}"
    using alloc_some [OF assms] by blast
  have "a \<in> managed s1" using a(3,4) free_managed [OF assms(1)] by blast
  moreover have "a \<notin> free s1" using a(5) by blast
  ultimately obtain s2 where "release s1 a = Some (ok, s2)" "inv s2" "managed s2 = managed s1"
    "free s2 = insert a (free s1)"
    using release_used [OF a(2)] by blast
  with a show ?thesis by (metis insert_Diff)
qed

end

end
