(* ===== verification/Pmm.thy ===== *)
theory Pmm
  imports PmmRegion PageAllocator
begin

text \<open>
  The physical memory manager (kernel/src/memory/pmm.c, pmm.h): detection of memory, layout
  and initialization of the region array, the binary search for the region of an address,
  \<open>pmm_check_page\<close>, \<open>pmm_alloc\<close> and \<open>pmm_free\<close>.

  The static variables of the file and the two static caches of \<open>pmm_alloc\<close> are the record
  \<open>pmm_state\<close>; the region array is a list of region structs and an access outside it is
  \<open>None\<close>. Limine's memory map is the list of its entries. The \<open>LOG_*\<close> lines
  are not modelled; \<open>pmm_print_memmap\<close> is in theory PmmPrint.
\<close>

section \<open>Data\<close>

text \<open>An entry of Limine's memory map (kernel/include/limine.h).\<close>

record limine_memmap_entry =
  me_base :: u64
  me_length :: u64
  me_type :: u64

type_synonym memmap = "limine_memmap_entry list"

datatype pmm_error_codes_t = PMM_OK | PMM_ERROR_INIT_FAILED | PMM_ERROR_ADDRESS_NOT_FOUND

text \<open>The enum of page states, as the integers it stands for.\<close>

type_synonym pmm_page_status_t = u32

abbreviation (input) PMM_PAGE_FREE :: pmm_page_status_t where "PMM_PAGE_FREE \<equiv> 0"
abbreviation (input) PMM_PAGE_USED :: pmm_page_status_t where "PMM_PAGE_USED \<equiv> 1"
abbreviation (input) PMM_PAGE_NOT_FOUND :: pmm_page_status_t where "PMM_PAGE_NOT_FOUND \<equiv> 2"

record pmm_state =
  pmm_memory_size_pages :: u64
  pmm_num_regions :: u64
  phys_to_virt_offset :: u64
  pmm_regions_ptr :: u64
  pmm_regions :: "pmm_region_t list"
  region_cache :: u64
  bitmap_cache :: u64

definition pmm_boot_state :: pmm_state where
  "pmm_boot_state = \<lparr>pmm_memory_size_pages = 0, pmm_num_regions = 0, phys_to_virt_offset = 0,
     pmm_regions_ptr = 0, pmm_regions = [], region_cache = 0, bitmap_cache = 0\<rparr>"

section \<open>Initialization\<close>

definition phys_to_virt :: "u64 \<Rightarrow> u64 \<Rightarrow> u64" where
  "phys_to_virt phys offset = phys + offset"

text \<open>The number of regions and of pages; the sum of lengths is a \<open>size_t\<close> and may wrap.\<close>

definition pmm_detect_memory :: "memmap \<Rightarrow> u64 \<times> u64" where
  "pmm_detect_memory memmap =
     (let memory_size_byte = fold (\<lambda>e n. n + me_length e) memmap 0
      in (of_nat (length memmap), memory_size_byte div PAGE_SIZE_BYTE))"

text \<open>\<open>sizeof(struct pmm_region_t)\<close>: five 8-byte fields, the 4-byte enum and its padding.\<close>

definition sizeof_pmm_region_t :: u64 where
  "sizeof_pmm_region_t = 48"

definition pmm_get_num_required_pages :: "u64 \<Rightarrow> u64 \<Rightarrow> u64" where
  "pmm_get_num_required_pages regions pages =
     (let required_bytes = regions * sizeof_pmm_region_t + (pages + 7) div 8
      in (required_bytes + PAGE_SIZE_BYTE - 1) div PAGE_SIZE_BYTE)"

text \<open>The first loop of \<open>pmm_init_region_structs\<close>: one struct per entry, bitmaps back to back.\<close>

fun init_region_array :: "memmap \<Rightarrow> u64 \<Rightarrow> u64 \<Rightarrow> pmm_region_t list" where
  "init_region_array [] bitmap_base offset = []"
| "init_region_array (e # es) bitmap_base offset =
     (let r = pmm_region_init (phys_to_virt bitmap_base offset) (me_base e) (me_length e)
                (ucast (me_type e))
      in r # init_region_array es (bitmap_base + r_bitmap_size r) offset)"

text \<open>The inner loop that marks the pages of the metadata, from the first page number on.\<close>

fun mark_metadata_pages ::
    "pmm_region_t \<Rightarrow> u64 \<Rightarrow> u64 \<Rightarrow> nat list \<Rightarrow> (pmm_error_codes_t \<times> pmm_region_t) option" where
  "mark_metadata_pages r array_ptr offset [] = Some (PMM_OK, r)"
| "mark_metadata_pages r array_ptr offset (page # pages) =
     do {
       (c, r') \<leftarrow> pmm_region_mark_page_used r
                   (array_ptr - offset + of_nat page * PAGE_SIZE_BYTE);
       if c \<noteq> PMM_REGION_OK then Some (PMM_ERROR_INIT_FAILED, r')
       else mark_metadata_pages r' array_ptr offset pages
     }"

text \<open>The second loop: the first region whose base is the metadata's base is marked.\<close>

fun mark_metadata ::
    "pmm_region_t list \<Rightarrow> u64 \<Rightarrow> u64 \<Rightarrow> u64 \<Rightarrow> u64
      \<Rightarrow> (pmm_error_codes_t \<times> pmm_region_t list) option" where
  "mark_metadata [] base array_ptr offset required_pages = Some (PMM_OK, [])"
| "mark_metadata (r # rs) base array_ptr offset required_pages =
     (if r_base r \<noteq> base then
        do {
          (c, rs') \<leftarrow> mark_metadata rs base array_ptr offset required_pages;
          Some (c, r # rs')
        }
      else
        do {
          (c, r') \<leftarrow> mark_metadata_pages r array_ptr offset [0..<unat required_pages];
          Some (c, r' # rs)
        })"

definition pmm_init_region_structs ::
    "pmm_state \<Rightarrow> memmap \<Rightarrow> u64 \<Rightarrow> u64 \<Rightarrow> u64 \<Rightarrow> (pmm_error_codes_t \<times> pmm_state) option" where
  "pmm_init_region_structs st memmap base offset required_pages =
     (let array_ptr = phys_to_virt base offset;
          bitmap_base = base + pmm_num_regions st * sizeof_pmm_region_t;
          rs = init_region_array memmap bitmap_base offset
      in do {
           (c, rs') \<leftarrow> mark_metadata rs base array_ptr offset required_pages;
           Some (c, st\<lparr>pmm_regions_ptr := array_ptr, pmm_regions := rs'\<rparr>)
         })"

text \<open>The base of the first usable entry that is large enough; \<open>NULL\<close> if there is none.\<close>

definition find_metadata_base :: "memmap \<Rightarrow> u64 \<Rightarrow> u64" where
  "find_metadata_base memmap required_pages =
     (case find (\<lambda>e. me_type e = ucast MEMMAP_TYPE_USABLE \<and>
                     me_length e \<ge> required_pages * PAGE_SIZE_BYTE) memmap
      of None \<Rightarrow> 0 | Some e \<Rightarrow> me_base e)"

definition pmm_init :: "pmm_state \<Rightarrow> memmap \<Rightarrow> u64 \<Rightarrow> (pmm_error_codes_t \<times> pmm_state) option" where
  "pmm_init st0 memmap hhdm_offset =
     (let (num_regions, num_pages) = pmm_detect_memory memmap;
          st = st0\<lparr>phys_to_virt_offset := hhdm_offset, pmm_num_regions := num_regions,
                   pmm_memory_size_pages := num_pages\<rparr>;
          required_pages = pmm_get_num_required_pages num_regions num_pages;
          pmm_base = find_metadata_base memmap required_pages
      in if pmm_base = 0 then Some (PMM_ERROR_INIT_FAILED, st)
         else pmm_init_region_structs st memmap pmm_base hhdm_offset required_pages)"

section \<open>The region of an address\<close>

text \<open>
  The binary search of \<open>get_region_containing_page\<close>: at most \<open>n\<close> rounds, on bounds of type
  \<open>size_t\<close> that wrap. The last component is \<open>*region_index\<close>.
\<close>

fun region_search ::
    "pmm_region_t list \<Rightarrow> u64 \<Rightarrow> nat \<Rightarrow> u64 \<Rightarrow> u64 \<Rightarrow> u64 \<Rightarrow> (pmm_error_codes_t \<times> u64) option" where
  "region_search rs ptr 0 lower_bound upper_bound idx = Some (PMM_ERROR_ADDRESS_NOT_FOUND, idx)"
| "region_search rs ptr (Suc n) lower_bound upper_bound idx =
     (let m = lower_bound + (upper_bound - lower_bound) div 2 in
      do {
        r \<leftarrow> arr_get rs m;
        if r_base r > ptr then region_search rs ptr n lower_bound (m - 1) m
        else if ptr > r_base r + r_length r - 1 then region_search rs ptr n (m + 1) upper_bound m
        else Some (PMM_OK, m)
      })"

definition get_region_containing_page ::
    "pmm_state \<Rightarrow> u64 \<Rightarrow> (pmm_error_codes_t \<times> u64) option" where
  "get_region_containing_page st ptr =
     region_search (pmm_regions st) ptr (unat (pmm_num_regions st)) 0 (pmm_num_regions st - 1) 0"

section \<open>Checking, allocating and freeing a page\<close>

definition pmm_check_page :: "pmm_state \<Rightarrow> u64 \<Rightarrow> pmm_page_status_t option" where
  "pmm_check_page st ptr =
     do {
       (c, region_index) \<leftarrow> get_region_containing_page st ptr;
       if c \<noteq> PMM_OK then Some PMM_PAGE_NOT_FOUND
       else do {
         r \<leftarrow> arr_get (pmm_regions st) region_index;
         let page_index = (ptr - r_base r) div PAGE_SIZE_BYTE;
         byte \<leftarrow> arr_get (r_bitmap r) (page_index div 8);
         Some (ucast byte AND push_bit (unat (page_index mod 8)) 1)
       }
     }"

text \<open>The innermost loop of \<open>pmm_alloc\<close>: the first bit of a byte that is clear.\<close>

definition find_free_bit :: "u8 \<Rightarrow> nat option" where
  "find_free_bit byte = find (\<lambda>k. byte AND push_bit k 1 = PMM_REGION_BITMAP_FREE) [0..<8]"

text \<open>The middle loop, over the bytes of the bitmap of region \<open>i\<close>, for the values of \<open>j\<close> left.\<close>

fun alloc_scan_bytes :: "pmm_state \<Rightarrow> u64 \<Rightarrow> nat list \<Rightarrow> (u64 option \<times> pmm_state) option" where
  "alloc_scan_bytes st i [] = Some (None, st)"
| "alloc_scan_bytes st i (j # js) =
     do {
       r \<leftarrow> arr_get (pmm_regions st) i;
       let bitmap_index = (of_nat j + bitmap_cache st) mod r_bitmap_size r;
       byte \<leftarrow> arr_get (r_bitmap r) bitmap_index;
       if byte = UINT8_MAX then alloc_scan_bytes st i js
       else
         let st1 = st\<lparr>bitmap_cache := bitmap_index\<rparr> in
         case find_free_bit byte of
           None \<Rightarrow> alloc_scan_bytes st1 i js
         | Some k \<Rightarrow>
             let page = bitmap_index * 8 + of_nat k;
                 ptr = r_base r + page * PAGE_SIZE_BYTE
             in do {
               (_, r') \<leftarrow> pmm_region_mark_page_used r ptr;
               rs' \<leftarrow> arr_set (pmm_regions st1) i r';
               Some (Some ptr, st1\<lparr>pmm_regions := rs'\<rparr>)
             }
     }"

text \<open>The outer loop, over the regions, for the values of \<open>i\<close> left.\<close>

fun alloc_scan_regions :: "pmm_state \<Rightarrow> nat list \<Rightarrow> (u64 \<times> pmm_state) option" where
  "alloc_scan_regions st [] = Some (0, st)"
| "alloc_scan_regions st (i # is) =
     (let region_index = (of_nat i + region_cache st) mod pmm_num_regions st in
      do {
        r \<leftarrow> arr_get (pmm_regions st) region_index;
        if r_free_pages r = 0 then alloc_scan_regions st is
        else do {
          (found, st') \<leftarrow> alloc_scan_bytes (st\<lparr>region_cache := region_index\<rparr>) region_index
                            [0..<unat (r_bitmap_size r)];
          case found of
            Some ptr \<Rightarrow> Some (ptr, st')
          | None \<Rightarrow> alloc_scan_regions st' is
        }
      })"

definition pmm_alloc :: "pmm_state \<Rightarrow> (u64 \<times> pmm_state) option" where
  "pmm_alloc st = alloc_scan_regions st [0..<unat (pmm_num_regions st)]"

definition pmm_free :: "pmm_state \<Rightarrow> u64 \<Rightarrow> (pmm_error_codes_t \<times> pmm_state) option" where
  "pmm_free st ptr =
     do {
       (c, region_index) \<leftarrow> get_region_containing_page st ptr;
       if c \<noteq> PMM_OK then Some (PMM_ERROR_ADDRESS_NOT_FOUND, st)
       else do {
         r \<leftarrow> arr_get (pmm_regions st) region_index;
         (_, r') \<leftarrow> pmm_region_mark_page_free r ptr;
         rs' \<leftarrow> arr_set (pmm_regions st) region_index r';
         Some (PMM_OK, st\<lparr>pmm_regions := rs'\<rparr>)
       }
     }"

section \<open>Well-formed states\<close>

text \<open>
  The pages the manager hands out are the pages of usable regions; \<open>free_pages\<close> is the set
  of addresses of those whose bit is clear.
\<close>

definition usable_pages :: "pmm_state \<Rightarrow> u64 set" where
  "usable_pages st = {page_addr r p | r p. r \<in> set (pmm_regions st) \<and>
     r_type r = MEMMAP_TYPE_USABLE \<and> p < region_pages r}"

definition free_pages :: "pmm_state \<Rightarrow> u64 set" where
  "free_pages st = {page_addr r p | r p. r \<in> set (pmm_regions st) \<and> p \<in> free_idx (r_bitmap r)}"

definition region_end :: "pmm_region_t \<Rightarrow> nat" where
  "region_end r = unat (r_base r) + unat (r_length r)"

text \<open>
  Well-formedness: every region is well-formed, not empty, and has free pages only if it is
  usable and page aligned; regions are in address order and disjoint; page 0 is not handed
  out (its address is the error value of \<open>pmm_alloc\<close>); the caches are small enough not to wrap.
\<close>

definition pmm_region_ok :: "pmm_region_t \<Rightarrow> bool" where
  "pmm_region_ok r \<longleftrightarrow> region_inv r \<and> 0 < unat (r_length r) \<and>
     (r_type r = MEMMAP_TYPE_USABLE \<longrightarrow> 4096 dvd unat (r_base r) \<and> r_base r \<noteq> 0) \<and>
     (r_type r \<noteq> MEMMAP_TYPE_USABLE \<longrightarrow> free_idx (r_bitmap r) = {})"

definition pmm_inv :: "pmm_state \<Rightarrow> bool" where
  "pmm_inv st \<longleftrightarrow>
     pmm_num_regions st = of_nat (length (pmm_regions st)) \<and>
     length (pmm_regions st) < 2 ^ 32 \<and>
     (\<forall>r \<in> set (pmm_regions st). pmm_region_ok r) \<and>
     sorted_wrt (\<lambda>a b. region_end a \<le> unat (r_base b)) (pmm_regions st) \<and>
     unat (bitmap_cache st) < 2 ^ 63 \<and> unat (region_cache st) < 2 ^ 63"

lemma pmm_inv_region:
  "pmm_inv st \<Longrightarrow> i < length (pmm_regions st) \<Longrightarrow> pmm_region_ok (pmm_regions st ! i)"
  by (simp add: pmm_inv_def)

lemma pmm_inv_num: "pmm_inv st \<Longrightarrow> unat (pmm_num_regions st) = length (pmm_regions st)"
  by (simp add: pmm_inv_def unat_of_nat_u64)

lemma pmm_inv_order:
  "pmm_inv st \<Longrightarrow> i < j \<Longrightarrow> j < length (pmm_regions st) \<Longrightarrow>
     region_end (pmm_regions st ! i) \<le> unat (r_base (pmm_regions st ! j))"
  by (simp add: pmm_inv_def sorted_wrt_iff_nth_less)

lemma page_addr_range:
  assumes "pmm_region_ok r" "p < region_pages r"
  shows "unat (r_base r) \<le> unat (page_addr r p)" "unat (page_addr r p) + 4096 \<le> region_end r"
  using region_inv_bounds [of r p] assms by (auto simp: pmm_region_ok_def region_end_def)

text \<open>A page address determines its region and its number in it.\<close>

lemma page_addr_inj:
  assumes inv: "pmm_inv st" and i: "i < length (pmm_regions st)" and j: "j < length (pmm_regions st)"
    and p: "p < region_pages (pmm_regions st ! i)" and q: "q < region_pages (pmm_regions st ! j)"
    and eq: "page_addr (pmm_regions st ! i) p = page_addr (pmm_regions st ! j) q"
  shows "i = j \<and> p = q"
proof -
  note ri = page_addr_range [OF pmm_inv_region [OF inv i] p]
  note rj = page_addr_range [OF pmm_inv_region [OF inv j] q]
  have "\<not> i < j" using pmm_inv_order [OF inv, of i j] ri rj eq j by auto
  moreover have "\<not> j < i" using pmm_inv_order [OF inv, of j i] ri rj eq i by auto
  ultimately have ij: "i = j" by simp
  have ok: "region_inv (pmm_regions st ! i)"
    using pmm_inv_region [OF inv i] by (simp only: pmm_region_ok_def)
  have "unat (page_addr (pmm_regions st ! i) p) = unat (page_addr (pmm_regions st ! i) q)"
    using eq ij by simp
  then have "p * 4096 = q * 4096"
    unfolding region_inv_bounds(4) [OF ok p] region_inv_bounds(4) [OF ok q [folded ij]] by linarith
  then show ?thesis using ij by simp
qed

lemma free_pages_nth:
  "free_pages st = {page_addr (pmm_regions st ! i) p | i p. i < length (pmm_regions st) \<and>
      p \<in> free_idx (r_bitmap (pmm_regions st ! i))}"
  by (auto simp: free_pages_def in_set_conv_nth)

lemma free_idx_pages: "pmm_region_ok r \<Longrightarrow> p \<in> free_idx (r_bitmap r) \<Longrightarrow> p < region_pages r"
  by (auto simp: pmm_region_ok_def region_inv_def)

lemma free_idx_usable: "pmm_region_ok r \<Longrightarrow> p \<in> free_idx (r_bitmap r) \<Longrightarrow> r_type r = MEMMAP_TYPE_USABLE"
  by (auto simp: pmm_region_ok_def)

lemma free_pages_usable: "pmm_inv st \<Longrightarrow> free_pages st \<subseteq> usable_pages st"
  by (auto simp: free_pages_def usable_pages_def pmm_inv_def dest: free_idx_pages free_idx_usable)

lemma usable_page_facts:
  assumes inv: "pmm_inv st" and a: "a \<in> usable_pages st"
  shows "a \<noteq> 0" "4096 dvd unat a" "unat a + 4096 < 2 ^ 64"
proof -
  from a obtain r p where r: "r \<in> set (pmm_regions st)" "r_type r = MEMMAP_TYPE_USABLE"
    and p: "p < region_pages r" and eq: "a = page_addr r p"
    by (auto simp: usable_pages_def)
  have ok: "pmm_region_ok r" using inv r(1) by (simp add: pmm_inv_def)
  then have b: "unat a = unat (r_base r) + p * 4096"
    using region_inv_bounds(4) p by (simp add: pmm_region_ok_def eq)
  with ok r(2) show "4096 dvd unat a" by (simp add: pmm_region_ok_def)
  from b ok r(2) show "a \<noteq> 0" by (auto simp: pmm_region_ok_def unat_eq_0)
  show "unat a + 4096 < 2 ^ 64"
    using page_addr_range(2) [OF ok p] ok
    by (simp add: eq pmm_region_ok_def region_inv_def region_end_def)
qed

section \<open>Replacing one region\<close>

lemma same_region_end: "same_region r r' \<Longrightarrow> region_end r' = region_end r"
  by (simp add: same_region_def region_end_def)

lemma pmm_region_ok_update:
  assumes "pmm_region_ok r" "region_inv r'" "same_region r r'"
    "r_type r \<noteq> MEMMAP_TYPE_USABLE \<Longrightarrow> free_idx (r_bitmap r') = {}"
  shows "pmm_region_ok r'"
  using assms by (simp add: pmm_region_ok_def same_region_def)

lemma pmm_inv_update:
  assumes inv: "pmm_inv st" and i: "i < length (pmm_regions st)"
    and ok: "pmm_region_ok r'" and same: "same_region (pmm_regions st ! i) r'"
    and c: "unat bc < 2 ^ 63" "unat rc < 2 ^ 63"
  shows "pmm_inv (st\<lparr>pmm_regions := (pmm_regions st)[i := r'], bitmap_cache := bc, region_cache := rc\<rparr>)"
proof -
  have "r_base r' = r_base (pmm_regions st ! i)" "region_end r' = region_end (pmm_regions st ! i)"
    using same same_region_end [OF same] by (simp_all add: same_region_def)
  then have "sorted_wrt (\<lambda>a b. region_end a \<le> unat (r_base b)) ((pmm_regions st)[i := r'])"
    using pmm_inv_order [OF inv] i unfolding sorted_wrt_iff_nth_less
    by (auto simp: nth_list_update split: if_splits)
  moreover have "\<forall>r \<in> set ((pmm_regions st)[i := r']). pmm_region_ok r"
    using inv ok by (auto simp: pmm_inv_def dest: set_update_subset_insert [THEN subsetD])
  ultimately show ?thesis using inv c by (simp add: pmm_inv_def)
qed

text \<open>A page address of region \<open>i\<close> is free exactly if region \<open>i\<close> marks that page free.\<close>

lemma free_pages_iff:
  assumes "pmm_inv st" "i < length (pmm_regions st)" "p < region_pages (pmm_regions st ! i)"
  shows "page_addr (pmm_regions st ! i) p \<in> free_pages st \<longleftrightarrow> p \<in> free_idx (r_bitmap (pmm_regions st ! i))"
proof
  assume "page_addr (pmm_regions st ! i) p \<in> free_pages st"
  then obtain j q where j: "j < length (pmm_regions st)"
    and q: "q \<in> free_idx (r_bitmap (pmm_regions st ! j))"
    and eq: "page_addr (pmm_regions st ! i) p = page_addr (pmm_regions st ! j) q"
    by (auto simp: free_pages_nth)
  have "q < region_pages (pmm_regions st ! j)"
    using free_idx_pages [OF pmm_inv_region [OF assms(1) j] q] .
  from page_addr_inj [OF assms(1,2) j assms(3) this eq] q
  show "p \<in> free_idx (r_bitmap (pmm_regions st ! i))" by simp
qed (use assms(2) in \<open>auto simp: free_pages_nth\<close>)

lemma free_pages_update:
  assumes inv: "pmm_inv st" and i: "i < length (pmm_regions st)"
    and same: "same_region (pmm_regions st ! i) r'"
    and st': "pmm_regions st' = (pmm_regions st)[i := r']"
  shows "free_pages st' =
    {a \<in> free_pages st. \<forall>p < region_pages (pmm_regions st ! i). a \<noteq> page_addr (pmm_regions st ! i) p}
    \<union> page_addr (pmm_regions st ! i) ` free_idx (r_bitmap r')" (is "_ = ?A \<union> ?B")
proof (rule set_eqI)
  fix a
  have "a \<in> free_pages st' \<longleftrightarrow>
      (\<exists>j p. j < length (pmm_regions st) \<and> j \<noteq> i \<and> p \<in> free_idx (r_bitmap (pmm_regions st ! j)) \<and>
             a = page_addr (pmm_regions st ! j) p) \<or> a \<in> ?B"
    using i by (auto simp: free_pages_nth st' nth_list_update same_region_addr [OF same] split: if_splits)
  also have "(\<exists>j p. j < length (pmm_regions st) \<and> j \<noteq> i \<and> p \<in> free_idx (r_bitmap (pmm_regions st ! j)) \<and>
             a = page_addr (pmm_regions st ! j) p) \<longleftrightarrow> a \<in> ?A"
  proof
    assume "\<exists>j p. j < length (pmm_regions st) \<and> j \<noteq> i \<and>
      p \<in> free_idx (r_bitmap (pmm_regions st ! j)) \<and> a = page_addr (pmm_regions st ! j) p"
    then obtain j p where j: "j < length (pmm_regions st)" "j \<noteq> i"
      and p: "p \<in> free_idx (r_bitmap (pmm_regions st ! j))" and a: "a = page_addr (pmm_regions st ! j) p"
      by blast
    have "p < region_pages (pmm_regions st ! j)"
      using free_idx_pages [OF pmm_inv_region [OF inv j(1)] p] .
    then have "a \<noteq> page_addr (pmm_regions st ! i) q" if "q < region_pages (pmm_regions st ! i)" for q
      using page_addr_inj [OF inv j(1) i _ that] j(2) unfolding a by blast
    moreover have "a \<in> free_pages st" using j(1) p by (auto simp: free_pages_nth a)
    ultimately show "a \<in> ?A" by blast
  next
    assume "a \<in> ?A"
    then show "\<exists>j p. j < length (pmm_regions st) \<and> j \<noteq> i \<and>
      p \<in> free_idx (r_bitmap (pmm_regions st ! j)) \<and> a = page_addr (pmm_regions st ! j) p"
      using free_idx_pages [OF pmm_inv_region [OF inv i]] by (auto simp: free_pages_nth)
  qed
  finally show "a \<in> free_pages st' \<longleftrightarrow> a \<in> ?A \<union> ?B" by blast
qed

lemma set_update_same_region:
  assumes i: "i < length rs" and same: "same_region (rs ! i) r'"
    and resp: "\<And>r r'. same_region r r' \<Longrightarrow> Q r' = Q r"
  shows "(\<Union>r \<in> set (rs[i := r']). Q r) = (\<Union>r \<in> set rs. Q r)"
proof -
  have "Q (rs[i := r'] ! j) = Q (rs ! j)" for j
    using resp [OF same] i by (cases "i = j") auto
  then show ?thesis by (auto simp: set_conv_nth)
qed

lemma usable_pages_update_same:
  assumes "i < length (pmm_regions st)" "same_region (pmm_regions st ! i) r'"
    "pmm_regions st' = (pmm_regions st)[i := r']"
  shows "usable_pages st' = usable_pages st"
proof -
  let ?Q = "\<lambda>r. {page_addr r p | p. r_type r = MEMMAP_TYPE_USABLE \<and> p < region_pages r}"
  have u: "usable_pages s = (\<Union>r \<in> set (pmm_regions s). ?Q r)" for s
    by (auto simp: usable_pages_def)
  have "?Q r' = ?Q r" if "same_region r r'" for r r'
    using that by (simp add: same_region_pages same_region_addr) (simp add: same_region_def)
  from set_update_same_region [OF assms(1,2), of ?Q, OF this] show ?thesis
    unfolding u assms(3) .
qed

lemma free_pages_remove:
  assumes inv: "pmm_inv st" and i: "i < length (pmm_regions st)"
    and same: "same_region (pmm_regions st ! i) r'" and st': "pmm_regions st' = (pmm_regions st)[i := r']"
    and p: "p < region_pages (pmm_regions st ! i)"
    and free: "free_idx (r_bitmap r') = free_idx (r_bitmap (pmm_regions st ! i)) - {p}"
  shows "free_pages st' = free_pages st - {page_addr (pmm_regions st ! i) p}"
  unfolding free_pages_update [OF inv i same st'] free
  using free_pages_iff [OF inv i] page_addr_inj [OF inv i i] p
    free_idx_pages [OF pmm_inv_region [OF inv i]] by blast

lemma free_pages_insert:
  assumes inv: "pmm_inv st" and i: "i < length (pmm_regions st)"
    and same: "same_region (pmm_regions st ! i) r'" and st': "pmm_regions st' = (pmm_regions st)[i := r']"
    and p: "p < region_pages (pmm_regions st ! i)"
    and free: "free_idx (r_bitmap r') = insert p (free_idx (r_bitmap (pmm_regions st ! i)))"
  shows "free_pages st' = insert (page_addr (pmm_regions st ! i) p) (free_pages st)"
  unfolding free_pages_update [OF inv i same st'] free
  using free_pages_iff [OF inv i] p free_idx_pages [OF pmm_inv_region [OF inv i]] by blast

section \<open>Allocation\<close>

lemma find_free_bit_Some:
  assumes "find_free_bit byte = Some k"
  shows "k < 8 \<and> \<not> bit byte k"
  using find_Some_upt [OF assms [unfolded find_free_bit_def]]
  by (simp add: and_push_bit_1_eq_0 del: push_bit_of_1)

lemma find_free_bit_exists:
  assumes "byte \<noteq> 255"
  obtains k where "find_free_bit byte = Some k"
proof -
  from assms obtain k where "k < 8" "\<not> bit byte k"
    unfolding byte_all_ones_iff by blast
  then have "byte AND push_bit k 1 = 0" by (simp add: and_push_bit_1_eq_0 del: push_bit_of_1)
  from find_upt_exists [OF \<open>k < 8\<close>, of "\<lambda>k. byte AND push_bit k 1 = 0", OF this] that
  show ?thesis by (auto simp: find_free_bit_def)
qed

text \<open>What a successful search of region \<open>i\<close> has done: it took one free page of the region.\<close>

definition took_page :: "pmm_state \<Rightarrow> nat \<Rightarrow> u64 \<Rightarrow> pmm_state \<Rightarrow> bool" where
  "took_page st i ptr st' \<longleftrightarrow>
     (\<exists>p r' bc. p \<in> free_idx (r_bitmap (pmm_regions st ! i)) \<and>
        ptr = page_addr (pmm_regions st ! i) p \<and>
        pmm_region_mark_page_used (pmm_regions st ! i) ptr = Some (PMM_REGION_OK, r') \<and>
        unat bc < 2 ^ 63 \<and>
        st' = st\<lparr>pmm_regions := (pmm_regions st)[i := r'], bitmap_cache := bc\<rparr>)"

lemma bit_page_number:
  assumes ok: "pmm_region_ok r" and idx: "unat idx < unat (r_bitmap_size r)"
    and k: "k < 8" "\<not> bit (r_bitmap r ! unat idx) k"
  shows "unat idx * 8 + k \<in> free_idx (r_bitmap r)"
    and "r_base r + (idx * 8 + of_nat k) * PAGE_SIZE_BYTE = page_addr r (unat idx * 8 + k)"
proof -
  have "length (r_bitmap r) = unat (r_bitmap_size r)"
    using ok by (simp only: pmm_region_ok_def region_inv_def)
  then show "unat idx * 8 + k \<in> free_idx (r_bitmap r)"
    using idx k by (simp add: free_idx_def)
  show "r_base r + (idx * 8 + of_nat k) * PAGE_SIZE_BYTE = page_addr r (unat idx * 8 + k)"
    by (simp add: page_addr_def)
qed

lemma bitmap_size_small:
  assumes "pmm_region_ok r"
  shows "unat (r_bitmap_size r) < 2 ^ 50"
proof -
  have "unat (r_bitmap_size r) = (region_pages r + 7) div 8" and "region_pages r \<le> 2 ^ 52"
    using assms region_free_card_bound(2) [of r] by (auto simp: pmm_region_ok_def region_inv_def)
  then show ?thesis by simp
qed

lemma alloc_scan_bytes_correct:
  assumes inv: "pmm_inv st" and i: "i < length (pmm_regions st)"
    and js: "\<forall>j \<in> set js. j < unat (r_bitmap_size (pmm_regions st ! i))"
  shows "(\<exists>ptr st'. alloc_scan_bytes st (of_nat i) js = Some (Some ptr, st') \<and> took_page st i ptr st') \<or>
         (alloc_scan_bytes st (of_nat i) js = Some (None, st) \<and>
          (\<forall>j \<in> set js. r_bitmap (pmm_regions st ! i) !
              ((j + unat (bitmap_cache st)) mod unat (r_bitmap_size (pmm_regions st ! i))) = 255))"
  using js
proof (induction js)
  case Nil
  then show ?case by simp
next
  case (Cons j js)
  let ?r = "pmm_regions st ! i"
  let ?idx = "(of_nat j + bitmap_cache st) mod r_bitmap_size ?r"
  have ok: "pmm_region_ok ?r" by (rule pmm_inv_region [OF inv i])
  have iw: "unat (of_nat i :: u64) = i"
    using i inv by (intro unat_of_nat_u64) (simp add: pmm_inv_def)
  have j: "j < unat (r_bitmap_size ?r)" using Cons.prems by simp
  have jw: "unat (of_nat j + bitmap_cache st) = j + unat (bitmap_cache st)"
    using j bitmap_size_small [OF ok] inv by (simp add: pmm_inv_def unat_simps)
  have idx: "unat ?idx = (j + unat (bitmap_cache st)) mod unat (r_bitmap_size ?r)"
    by (simp only: unat_mod_word jw)
  have idx_lt: "unat ?idx < unat (r_bitmap_size ?r)" unfolding idx using j by simp
  have len: "length (r_bitmap ?r) = unat (r_bitmap_size ?r)"
    using ok by (simp only: pmm_region_ok_def region_inv_def)
  have getr: "arr_get (pmm_regions st) (of_nat i) = Some ?r"
    using i by (simp add: arr_get_def iw)
  have getb: "arr_get (r_bitmap ?r) ?idx = Some (r_bitmap ?r ! unat ?idx)"
    using idx_lt len by (simp only: arr_get_def if_True)
  show ?case
  proof (cases "r_bitmap ?r ! unat ?idx = 255")
    case True
    then have "alloc_scan_bytes st (of_nat i) (j # js) = alloc_scan_bytes st (of_nat i) js"
      by (simp add: getr getb Let_def)
    with Cons True show ?thesis by (simp add: idx)
  next
    case False
    then obtain k where k: "find_free_bit (r_bitmap ?r ! unat ?idx) = Some k"
      by (rule find_free_bit_exists)
    note page = bit_page_number [OF ok idx_lt, of k] find_free_bit_Some [OF k]
    from ok have rinv: "region_inv ?r" by (simp only: pmm_region_ok_def)
    have "unat ?idx * 8 + k \<in> free_idx (r_bitmap ?r)" using page by blast
    then obtain r' where r': "pmm_region_mark_page_used ?r (page_addr ?r (unat ?idx * 8 + k)) =
        Some (PMM_REGION_OK, r')"
      by (rule mark_used_free_page [OF rinv])
    have setr: "arr_set (pmm_regions (st\<lparr>bitmap_cache := ?idx\<rparr>)) (of_nat i) r' =
        Some ((pmm_regions st)[i := r'])"
      using i by (simp add: arr_set_def iw)
    have "alloc_scan_bytes st (of_nat i) (j # js) =
        Some (Some (page_addr ?r (unat ?idx * 8 + k)),
              st\<lparr>pmm_regions := (pmm_regions st)[i := r'], bitmap_cache := ?idx\<rparr>)"
      using False page(2) r' setr by (simp add: getr getb k Let_def page(3))
    moreover have "unat ?idx < 2 ^ 63"
      by (rule less_trans [OF less_trans [OF idx_lt bitmap_size_small [OF ok]]]) simp
    ultimately show ?thesis
      using page(1,3) r' unfolding took_page_def by blast
  qed
qed

text \<open>A region whose counter is not 0 has a free page, so its search succeeds.\<close>

lemma alloc_scan_bytes_full:
  assumes inv: "pmm_inv st" and i: "i < length (pmm_regions st)"
    and free: "r_free_pages (pmm_regions st ! i) \<noteq> 0"
  shows "\<exists>ptr st'. alloc_scan_bytes st (of_nat i) [0..<unat (r_bitmap_size (pmm_regions st ! i))]
           = Some (Some ptr, st') \<and> took_page st i ptr st'"
proof -
  let ?r = "pmm_regions st ! i" and ?n = "unat (r_bitmap_size (pmm_regions st ! i))"
  have ok: "region_inv ?r" using pmm_inv_region [OF inv i] by (simp only: pmm_region_ok_def)
  have "card (free_idx (r_bitmap ?r)) \<noteq> 0"
    using ok free by (auto simp: region_inv_def unat_eq_0)
  then obtain p where p: "p \<in> free_idx (r_bitmap ?r)"
    by (metis card.empty equals0I)
  then have b: "p div 8 < ?n" and bit: "\<not> bit (r_bitmap ?r ! (p div 8)) (p mod 8)"
    using ok by (auto simp: region_inv_def free_idx_def)
  obtain j where j: "j < ?n" "(j + unat (bitmap_cache st)) mod ?n = p div 8"
    using mod_shift_onto [OF b, of "unat (bitmap_cache st)"] by blast
  have "r_bitmap ?r ! (p div 8) \<noteq> 255"
    using bit byte_all_ones_iff [of "r_bitmap ?r ! (p div 8)"] by auto
  then have "r_bitmap ?r ! ((j + unat (bitmap_cache st)) mod ?n) \<noteq> 255"
    unfolding j(2) .
  then have "\<not> (\<forall>j \<in> set [0..<?n]. r_bitmap ?r ! ((j + unat (bitmap_cache st)) mod ?n) = 255)"
    using j(1) by auto
  moreover have "\<forall>j \<in> set [0..<?n]. j < ?n" by simp
  ultimately show ?thesis
    using alloc_scan_bytes_correct [OF inv i] by blast
qed

lemma took_page_correct:
  assumes inv: "pmm_inv st" and i: "i < length (pmm_regions st)" and t: "took_page st i ptr st'"
  shows "pmm_inv st'" "ptr \<in> free_pages st" "free_pages st' = free_pages st - {ptr}"
    "usable_pages st' = usable_pages st"
proof -
  let ?r = "pmm_regions st ! i"
  have ok: "pmm_region_ok ?r" by (rule pmm_inv_region [OF inv i])
  then have rinv: "region_inv ?r" by (simp only: pmm_region_ok_def)
  from t obtain p r' bc where p: "p \<in> free_idx (r_bitmap ?r)" and ptr: "ptr = page_addr ?r p"
    and used: "pmm_region_mark_page_used ?r (page_addr ?r p) = Some (PMM_REGION_OK, r')"
    and bc: "unat bc < 2 ^ 63"
    and st': "st' = st\<lparr>pmm_regions := (pmm_regions st)[i := r'], bitmap_cache := bc\<rparr>"
    by (auto simp: took_page_def)
  from mark_used_free_page [OF rinv p] used
  have r': "region_inv r'" "same_region ?r r'" "free_idx (r_bitmap r') = free_idx (r_bitmap ?r) - {p}"
    by auto
  have lt: "p < region_pages ?r" by (rule free_idx_pages [OF ok p])
  have ok': "pmm_region_ok r'"
    using pmm_region_ok_update [OF ok r'(1,2)] free_idx_usable [OF ok p] by blast
  have rc: "unat (region_cache st) < 2 ^ 63" using inv by (simp add: pmm_inv_def)
  have "st' = st\<lparr>pmm_regions := (pmm_regions st)[i := r'], bitmap_cache := bc,
      region_cache := region_cache st\<rparr>"
    by (simp add: st')
  then show "pmm_inv st'" using pmm_inv_update [OF inv i ok' r'(2) bc rc] by (simp only:)
  show "ptr \<in> free_pages st" using i p by (auto simp: free_pages_nth ptr)
  show "free_pages st' = free_pages st - {ptr}"
    unfolding ptr by (rule free_pages_remove [OF inv i r'(2) _ lt r'(3)]) (simp add: st')
  show "usable_pages st' = usable_pages st"
    by (rule usable_pages_update_same [OF i r'(2)]) (simp add: st')
qed

lemma pmm_inv_region_cache:
  "pmm_inv st \<Longrightarrow> unat c < 2 ^ 63 \<Longrightarrow> pmm_inv (st\<lparr>region_cache := c\<rparr>)"
  by (simp add: pmm_inv_def)

lemma alloc_scan_regions_correct:
  assumes inv: "pmm_inv st" and is_lt: "\<forall>i \<in> set is. i < length (pmm_regions st)"
  shows "(\<exists>ptr st' c k. alloc_scan_regions st is = Some (ptr, st') \<and> unat c < 2 ^ 63 \<and>
            k < length (pmm_regions st) \<and> took_page (st\<lparr>region_cache := c\<rparr>) k ptr st') \<or>
         (alloc_scan_regions st is = Some (0, st) \<and>
          (\<forall>i \<in> set is. r_free_pages (pmm_regions st !
              ((i + unat (region_cache st)) mod length (pmm_regions st))) = 0))"
  using is_lt
proof (induction "is")
  case Nil
  then show ?case by simp
next
  case (Cons i "is")
  let ?n = "length (pmm_regions st)"
  let ?idx = "(of_nat i + region_cache st) mod pmm_num_regions st"
  let ?k = "(i + unat (region_cache st)) mod ?n"
  have i: "i < ?n" using Cons.prems by simp
  then have "unat (of_nat i + region_cache st) = i + unat (region_cache st)"
    using inv by (simp add: pmm_inv_def unat_simps)
  then have idx: "unat ?idx = ?k"
    by (simp only: unat_mod_word pmm_inv_num [OF inv])
  have k: "?k < ?n" by (rule mod_less_divisor) (use i in linarith)
  have idx_nat: "?idx = of_nat ?k" unfolding idx [symmetric] by simp
  have getr: "arr_get (pmm_regions st) ?idx = Some (pmm_regions st ! ?k)"
    using k by (simp only: arr_get_def idx if_True)
  show ?case
  proof (cases "r_free_pages (pmm_regions st ! ?k) = 0")
    case True
    then have "alloc_scan_regions st (i # is) = alloc_scan_regions st is"
      by (simp add: getr)
    with Cons True show ?thesis by simp
  next
    case False
    let ?st = "st\<lparr>region_cache := ?idx\<rparr>"
    have c: "unat ?idx < 2 ^ 63"
      unfolding idx using k inv by (simp add: pmm_inv_def)
    have inv': "pmm_inv ?st" by (rule pmm_inv_region_cache [OF inv c])
    from alloc_scan_bytes_full [OF inv', of ?k] k False
    obtain ptr st' where scan: "alloc_scan_bytes ?st (of_nat ?k)
        [0..<unat (r_bitmap_size (pmm_regions st ! ?k))] = Some (Some ptr, st')"
      and took: "took_page ?st ?k ptr st'"
      by auto
    have "alloc_scan_regions st (i # is) = Some (ptr, st')"
      using False scan by (simp add: getr flip: idx_nat)
    with took c k show ?thesis by blast
  qed
qed

lemma no_free_pages:
  assumes inv: "pmm_inv st" and "\<forall>k < length (pmm_regions st). r_free_pages (pmm_regions st ! k) = 0"
  shows "free_pages st = {}"
proof -
  have "free_idx (r_bitmap (pmm_regions st ! k)) = {}" if k: "k < length (pmm_regions st)" for k
  proof -
    have "region_inv (pmm_regions st ! k)"
      using pmm_inv_region [OF inv k] by (simp only: pmm_region_ok_def)
    with assms(2) k have "card (free_idx (r_bitmap (pmm_regions st ! k))) = 0"
      by (simp add: region_inv_def)
    then show ?thesis by simp
  qed
  then show ?thesis by (auto simp: free_pages_nth)
qed

lemma pmm_alloc_step:
  assumes "pmm_inv st"
  shows "\<exists>ptr st'. pmm_alloc st = Some (ptr, st') \<and> pmm_inv st' \<and>
    usable_pages st' = usable_pages st \<and>
    (if free_pages st = {} then ptr = 0 \<and> st' = st
     else ptr \<in> free_pages st \<and> free_pages st' = free_pages st - {ptr})"
proof -
  let ?n = "length (pmm_regions st)"
  have alloc: "pmm_alloc st = alloc_scan_regions st [0..<?n]"
    by (simp only: pmm_alloc_def pmm_inv_num [OF assms])
  from alloc_scan_regions_correct [OF assms, of "[0..<?n]"]
  consider (found) ptr st' c k where "pmm_alloc st = Some (ptr, st')" "unat c < 2 ^ 63"
      "k < ?n" "took_page (st\<lparr>region_cache := c\<rparr>) k ptr st'"
    | (none) "pmm_alloc st = Some (0, st)"
      "\<forall>i < ?n. r_free_pages (pmm_regions st ! ((i + unat (region_cache st)) mod ?n)) = 0"
    unfolding alloc by fastforce
  then show ?thesis
  proof cases
    case found
    have inv': "pmm_inv (st\<lparr>region_cache := c\<rparr>)"
      by (rule pmm_inv_region_cache [OF assms found(2)])
    have same: "free_pages (st\<lparr>region_cache := c\<rparr>) = free_pages st"
      "usable_pages (st\<lparr>region_cache := c\<rparr>) = usable_pages st"
      by (simp_all add: free_pages_def usable_pages_def)
    show ?thesis
      using took_page_correct [OF inv' _ found(4)] found(1,3) same by auto
  next
    case none
    have "r_free_pages (pmm_regions st ! k) = 0" if "k < ?n" for k
      using none(2) mod_shift_onto [OF that, of "unat (region_cache st)"] by auto
    then have "free_pages st = {}" by (intro no_free_pages [OF assms]) simp
    with none(1) assms show ?thesis by simp
  qed
qed

text \<open>
  C1: allocation. On a well-formed state \<open>pmm_alloc\<close> never accesses memory out of bounds and
  keeps the state well-formed. If a page is free, it returns the address of a free page and
  exactly that page stops being free; if none is, it returns \<open>NULL\<close> and changes nothing.
\<close>

theorem pmm_alloc_correct:
  assumes "pmm_inv st"
  shows "\<exists>ptr st'. pmm_alloc st = Some (ptr, st') \<and> pmm_inv st' \<and>
    usable_pages st' = usable_pages st \<and>
    (if free_pages st = {} then ptr = 0 \<and> st' = st
     else ptr \<in> free_pages st \<and> free_pages st' = free_pages st - {ptr})"
  by (rule pmm_alloc_step [OF assms])

section \<open>The binary search\<close>

definition region_contains :: "pmm_region_t \<Rightarrow> u64 \<Rightarrow> bool" where
  "region_contains r a \<longleftrightarrow> unat (r_base r) \<le> unat a \<and> unat a < region_end r"

lemma region_checks:
  assumes "pmm_region_ok r"
  shows "r_base r > a \<longleftrightarrow> unat a < unat (r_base r)"
    and "a > r_base r + r_length r - 1 \<longleftrightarrow> region_end r \<le> unat a"
proof -
  show "r_base r > a \<longleftrightarrow> unat a < unat (r_base r)" by (simp only: word_less_nat_alt)
  have e: "unat (r_base r + r_length r) = region_end r" and pos: "0 < region_end r"
    using assms by (simp_all add: pmm_region_ok_def region_inv_def region_end_def unat_simps)
  then have nz: "r_base r + r_length r \<noteq> 0" by (metis less_irrefl unat_0)
  have "unat (r_base r + r_length r - 1) = region_end r - 1"
    unfolding unat_minus_one [OF nz] e ..
  then show "a > r_base r + r_length r - 1 \<longleftrightarrow> region_end r \<le> unat a"
    using pos by (auto simp: word_less_nat_alt)
qed

lemma search_mid:
  assumes "unat l \<le> unat (u :: u64)"
  shows "unat (l + (u - l) div 2) = unat l + (unat u - unat l) div 2"
proof -
  have "unat ((u - l) div 2) = (unat u - unat l) div 2"
    using assms by (simp add: unat_div_word unat_diff_word word_le_nat_alt)
  moreover have "unat l + (unat u - unat l) div 2 < 2 ^ 64"
    by (rule le_less_trans [of _ "unat u"]) (use assms in auto)
  ultimately show ?thesis by (simp add: unat_add_u64)
qed

text \<open>
  The window of candidates: all regions below it end before the address, all above it start
  after it. A window is empty when its bounds have crossed, also by wrapping below 0.
\<close>

definition search_window :: "pmm_region_t list \<Rightarrow> u64 \<Rightarrow> u64 \<Rightarrow> nat \<Rightarrow> bool" where
  "search_window rs l u w \<longleftrightarrow> unat l + w \<le> length rs \<and> u = l + of_nat w - 1"

lemma search_window_bounds:
  assumes "search_window rs l u w" "0 < w" "length rs < 2 ^ 32"
  shows "unat u = unat l + w - 1" "unat l \<le> unat u" "unat u < length rs"
proof -
  have a: "unat (l + of_nat w) = unat l + w"
    using assms by (simp add: search_window_def unat_simps)
  then have nz: "l + of_nat w \<noteq> 0" using assms(2) by (metis add_is_0 less_irrefl unat_0)
  have "u = l + of_nat w - 1" using assms(1) by (simp only: search_window_def)
  then show u: "unat u = unat l + w - 1"
    by (simp only: unat_minus_one [OF nz] a)
  show "unat l \<le> unat u" "unat u < length rs"
    unfolding u using assms by (auto simp: search_window_def)
qed

text \<open>One round of the search on a nonempty window: found, or the window is halved.\<close>

lemma region_search_step:
  assumes ok: "\<forall>r \<in> set rs. pmm_region_ok r" and len: "length rs < 2 ^ 32"
    and win: "search_window rs l u w" and w: "0 < w"
  obtains (found) m where "m < length rs" "region_contains (rs ! m) a" "unat l \<le> m" "m < unat l + w"
      "region_search rs a (Suc n) l u i = Some (PMM_OK, of_nat m)"
    | (below) m where "unat l \<le> m" "m < unat l + w" "unat a < unat (r_base (rs ! m))"
      "search_window rs l (of_nat m - 1) (m - unat l)" "m - unat l \<le> w div 2"
      "region_search rs a (Suc n) l u i = region_search rs a n l (of_nat m - 1) (of_nat m)"
    | (above) m where "unat l \<le> m" "m < unat l + w" "region_end (rs ! m) \<le> unat a"
      "search_window rs (of_nat m + 1) u (unat l + w - Suc m)" "unat l + w - Suc m \<le> w div 2"
      "region_search rs a (Suc n) l u i = region_search rs a n (of_nat m + 1) u (of_nat m)"
proof -
  note b = search_window_bounds [OF win w len]
  define m where "m = unat (l + (u - l) div 2)"
  have mid: "m = unat l + (w - 1) div 2"
    unfolding m_def search_mid [OF b(2)] using w by (simp add: b(1))
  have mw: "l + (u - l) div 2 = of_nat m" by (simp add: m_def)
  have ml: "unat l \<le> m" and mu: "m < unat l + w" using mid w by auto
  have mlen: "m < length rs" using mu win by (simp add: search_window_def)
  then have mnat: "unat (of_nat m :: u64) = m" using len by (intro unat_of_nat_u64) simp
  have okm: "pmm_region_ok (rs ! m)" using ok mlen by simp
  have get: "arr_get rs (of_nat m) = Some (rs ! m)"
    using mlen by (simp only: arr_get_def mnat if_True)
  note step = region_search.simps(2) [of rs a n l u i, unfolded Let_def mw get Option.bind.bind_lunit
      region_checks [OF okm]]
  consider "unat a < unat (r_base (rs ! m))" | "region_end (rs ! m) \<le> unat a"
    | "region_contains (rs ! m) a"
    unfolding region_contains_def by linarith
  then show thesis
  proof cases
    case 1
    have "search_window rs l (of_nat m - 1) (m - unat l)"
      using mlen ml mu win by (simp add: search_window_def of_nat_diff)
    with 1 step ml mu mid show thesis by (intro below) auto
  next
    case 2
    then have "\<not> unat a < unat (r_base (rs ! m))" by (simp add: region_end_def)
    have "unat (of_nat m + 1 :: u64) = Suc m"
      using mlen len by (simp add: unat_add_u64 mnat)
    then have "search_window rs (of_nat m + 1) u (unat l + w - Suc m)"
      using mlen ml mu win by (simp add: search_window_def of_nat_diff)
    moreover have "unat l + w - Suc m \<le> w div 2"
      unfolding mid using w by arith
    ultimately show thesis using 2 \<open>\<not> _\<close> step ml mu by (intro above) auto
  next
    case 3
    with step ml mu mlen show thesis by (intro found) (auto simp: region_contains_def)
  qed
qed

lemma region_contains_unique:
  assumes inv: "pmm_inv st" and i: "i < length (pmm_regions st)" and j: "j < length (pmm_regions st)"
    and a: "region_contains (pmm_regions st ! i) a" "region_contains (pmm_regions st ! j) a"
  shows "i = j"
  using pmm_inv_order [OF inv, of i j] pmm_inv_order [OF inv, of j i] i j a
  unfolding region_contains_def by (meson leD le_less_trans linorder_neqE_nat order_trans)

lemma region_search_finds:
  assumes inv: "pmm_inv st" and k: "k < length (pmm_regions st)"
    and a: "region_contains (pmm_regions st ! k) a"
  shows "search_window (pmm_regions st) l u w \<Longrightarrow> unat l \<le> k \<Longrightarrow> k < unat l + w \<Longrightarrow> w \<le> n \<Longrightarrow>
    region_search (pmm_regions st) a n l u i = Some (PMM_OK, of_nat k)"
proof (induction n arbitrary: l u w i)
  case 0
  then show ?case by simp
next
  case (Suc n)
  have ok: "\<forall>r \<in> set (pmm_regions st). pmm_region_ok r" and len: "length (pmm_regions st) < 2 ^ 32"
    using inv by (auto simp: pmm_inv_def)
  have w: "0 < w" using Suc.prems by linarith
  from ok len Suc.prems(1) w show ?case
  proof (cases rule: region_search_step [where a = a and n = n and i = i])
    case (found m)
    then have "m = k" using region_contains_unique [OF inv _ k _ a] by blast
    with found show ?thesis by simp
  next
    case (below m)
    have "k < m"
    proof (rule ccontr)
      assume "\<not> k < m"
      then have "unat (r_base (pmm_regions st ! m)) \<le> unat (r_base (pmm_regions st ! k))"
        using pmm_inv_order [OF inv, of m k] k
        by (cases "m = k") (auto simp: region_end_def)
      with a below show False by (simp add: region_contains_def)
    qed
    with below Suc.prems Suc.IH [OF below(4)] show ?thesis by simp
  next
    case (above m)
    have "m < k"
    proof (rule ccontr)
      assume "\<not> m < k"
      then have "region_end (pmm_regions st ! k) \<le> region_end (pmm_regions st ! m)"
        using pmm_inv_order [OF inv, of k m] above(2) Suc.prems(1)
        by (cases "m = k") (auto simp: region_end_def search_window_def)
      with a above show False by (simp add: region_contains_def)
    qed
    moreover have "unat (of_nat m + 1 :: u64) = Suc m"
      using calculation k len by (simp add: unat_simps)
    ultimately show ?thesis
      using above Suc.prems Suc.IH [OF above(4)] by simp
  qed
qed

text \<open>Once the bounds have crossed, the next index is far outside the array.\<close>

lemma region_search_crossed:
  assumes len: "length rs < 2 ^ 32" and win: "search_window rs l u 0"
  shows "region_search rs a (Suc n) l u i = None"
proof -
  have u: "u - l = - 1" and l: "unat l \<le> length rs"
    using win by (simp_all add: search_window_def)
  have "unat (l + 9223372036854775807) = unat l + 9223372036854775807"
    using l len by (subst unat_add_u64) auto
  then have "arr_get rs (l + 9223372036854775807) = None"
    using len by (simp add: arr_get_def)
  then show ?thesis by (simp add: u)
qed

lemma region_search_escapes:
  assumes ok: "\<forall>r \<in> set rs. pmm_region_ok r" and len: "length rs < 2 ^ 32"
    and out: "\<forall>r \<in> set rs. \<not> region_contains r a"
  shows "search_window rs l u w \<Longrightarrow> w < 2 ^ n \<Longrightarrow> region_search rs a (Suc n) l u i = None"
proof (induction n arbitrary: l u w i)
  case 0
  then have "search_window rs l u 0" by simp
  then show ?case by (rule region_search_crossed [OF len])
next
  case (Suc n)
  show ?case
  proof (cases "w = 0")
    case True
    with Suc.prems(1) show ?thesis by (simp only: region_search_crossed [OF len])
  next
    case False
    then have w: "0 < w" by simp
    from ok len Suc.prems(1) w show ?thesis
    proof (cases rule: region_search_step [where a = a and n = "Suc n" and i = i])
      case (found m)
      with out show ?thesis by simp
    next
      case (below m)
      moreover have "m - unat l < 2 ^ n" using below(5) Suc.prems(2) by simp
      ultimately show ?thesis using Suc.IH by simp
    next
      case (above m)
      moreover have "unat l + w - Suc m < 2 ^ n" using above(5) Suc.prems(2) by simp
      ultimately show ?thesis using Suc.IH by simp
    qed
  qed
qed

lemma search_window_start:
  assumes "pmm_inv st"
  shows "search_window (pmm_regions st) 0 (pmm_num_regions st - 1) (length (pmm_regions st))"
  using assms by (simp add: search_window_def pmm_inv_def)

lemma region_search_lookup:
  assumes "pmm_inv st" and "k < length (pmm_regions st)"
    and "region_contains (pmm_regions st ! k) a"
  shows "get_region_containing_page st a = Some (PMM_OK, of_nat k)"
  unfolding get_region_containing_page_def pmm_inv_num [OF assms(1)]
  using region_search_finds [OF assms search_window_start [OF assms(1)]] assms(2) by simp

text \<open>
  C18: the binary search is correct on well-formed states: an address inside some region is
  found, in that region, within the \<open>pmm_num_regions\<close> rounds the loop allows.
\<close>

theorem region_lookup_correct:
  assumes "pmm_inv st" and "k < length (pmm_regions st)"
    and "region_contains (pmm_regions st ! k) a"
  shows "get_region_containing_page st a = Some (PMM_OK, of_nat k)"
  by (rule region_search_lookup [OF assms])

text \<open>
  An address in no region is not reported as missing when there are three regions or
  more: the bounds cross, wrap, and the search indexes the region array out of bounds
  instead of returning \<open>PMM_ERROR_ADDRESS_NOT_FOUND\<close>.
\<close>

theorem region_lookup_missing_escapes:
  assumes "pmm_inv st" and "3 \<le> length (pmm_regions st)"
    and "\<forall>r \<in> set (pmm_regions st). \<not> region_contains r a"
  shows "get_region_containing_page st a = None"
proof -
  obtain m where m: "length (pmm_regions st) = Suc m" "2 \<le> m"
    using assms(2) by (cases "length (pmm_regions st)") auto
  have "Suc m < 2 ^ m" if "2 \<le> m" for m :: nat
    using that by (induction m rule: dec_induct) auto
  then have "length (pmm_regions st) < 2 ^ m" using m by simp
  moreover have "\<forall>r \<in> set (pmm_regions st). pmm_region_ok r" "length (pmm_regions st) < 2 ^ 32"
    using assms(1) by (auto simp only: pmm_inv_def)
  ultimately have "region_search (pmm_regions st) a (Suc m) 0 (pmm_num_regions st - 1) 0 = None"
    using region_search_escapes [OF _ _ assms(3) search_window_start [OF assms(1)]] by blast
  then show ?thesis
    by (simp only: get_region_containing_page_def pmm_inv_num [OF assms(1)] m(1))
qed

section \<open>Freeing and checking\<close>

lemma page_addr_contains:
  assumes "pmm_region_ok r" "p < region_pages r"
  shows "region_contains r (page_addr r p)"
  using page_addr_range [OF assms] by (simp add: region_contains_def)

lemma lookup_page:
  assumes inv: "pmm_inv st" and i: "i < length (pmm_regions st)"
    and p: "p < region_pages (pmm_regions st ! i)"
  shows "get_region_containing_page st (page_addr (pmm_regions st ! i) p) = Some (PMM_OK, of_nat i)"
    "arr_get (pmm_regions st) (of_nat i) = Some (pmm_regions st ! i)"
    "unat (of_nat i :: u64) = i"
proof -
  show "get_region_containing_page st (page_addr (pmm_regions st ! i) p) = Some (PMM_OK, of_nat i)"
    by (rule region_search_lookup [OF inv i page_addr_contains [OF pmm_inv_region [OF inv i] p]])
  show iw: "unat (of_nat i :: u64) = i"
    using i inv by (intro unat_of_nat_u64) (simp add: pmm_inv_def)
  show "arr_get (pmm_regions st) (of_nat i) = Some (pmm_regions st ! i)"
    using i by (simp add: arr_get_def iw)
qed

lemma usable_page_nth:
  assumes "a \<in> usable_pages st"
  obtains i p where "i < length (pmm_regions st)" "r_type (pmm_regions st ! i) = MEMMAP_TYPE_USABLE"
    "p < region_pages (pmm_regions st ! i)" "a = page_addr (pmm_regions st ! i) p"
  using assms by (auto simp: usable_pages_def in_set_conv_nth)

lemma pmm_free_step:
  assumes inv: "pmm_inv st" and a: "a \<in> usable_pages st" and used: "a \<notin> free_pages st"
  shows "\<exists>st'. pmm_free st a = Some (PMM_OK, st') \<and> pmm_inv st' \<and>
    usable_pages st' = usable_pages st \<and> free_pages st' = insert a (free_pages st)"
proof -
  obtain i p where i: "i < length (pmm_regions st)"
    and t: "r_type (pmm_regions st ! i) = MEMMAP_TYPE_USABLE"
    and p: "p < region_pages (pmm_regions st ! i)" and eq: "a = page_addr (pmm_regions st ! i) p"
    using a by (rule usable_page_nth)
  let ?r = "pmm_regions st ! i"
  note look = lookup_page [OF inv i p]
  have ok: "pmm_region_ok ?r" by (rule pmm_inv_region [OF inv i])
  then have rinv: "region_inv ?r" by (simp only: pmm_region_ok_def)
  have "p \<notin> free_idx (r_bitmap ?r)" using used free_pages_iff [OF inv i p] eq by simp
  with rinv p obtain r' where free: "pmm_region_mark_page_free ?r (page_addr ?r p) = Some (PMM_REGION_OK, r')"
    and r': "region_inv r'" "same_region ?r r'" "free_idx (r_bitmap r') = insert p (free_idx (r_bitmap ?r))"
    by (rule mark_free_used_page)
  let ?st = "st\<lparr>pmm_regions := (pmm_regions st)[i := r']\<rparr>"
  have ok': "pmm_region_ok r'" using pmm_region_ok_update [OF ok r'(1,2)] t by blast
  have c: "unat (bitmap_cache st) < 2 ^ 63" "unat (region_cache st) < 2 ^ 63"
    using inv by (simp_all add: pmm_inv_def)
  have "?st = st\<lparr>pmm_regions := (pmm_regions st)[i := r'], bitmap_cache := bitmap_cache st,
      region_cache := region_cache st\<rparr>"
    by simp
  then have "pmm_inv ?st" using pmm_inv_update [OF inv i ok' r'(2) c] by (simp only:)
  moreover have "free_pages ?st = insert a (free_pages st)"
    unfolding eq by (rule free_pages_insert [OF inv i r'(2) _ p r'(3)]) simp
  moreover have "usable_pages ?st = usable_pages st"
    by (rule usable_pages_update_same [OF i r'(2)]) simp
  moreover have "pmm_free st a = Some (PMM_OK, ?st)"
    using i by (simp add: pmm_free_def eq look(1,2) free arr_set_def look(3))
  ultimately show ?thesis by blast
qed

text \<open>
  C15: freeing. On a well-formed state, freeing a page of a usable region that is in use
  succeeds, keeps the state well-formed, and makes exactly that page free.
\<close>

theorem pmm_free_correct:
  assumes inv: "pmm_inv st" and a: "a \<in> usable_pages st" and used: "a \<notin> free_pages st"
  shows "\<exists>st'. pmm_free st a = Some (PMM_OK, st') \<and> pmm_inv st' \<and>
    usable_pages st' = usable_pages st \<and> free_pages st' = insert a (free_pages st)"
  by (rule pmm_free_step [OF inv a used])

text \<open>The manager is a page allocator in the sense of the contract.\<close>

lemma finite_free_pages: "finite (free_pages st)"
proof -
  have "free_pages st = (\<Union>r \<in> set (pmm_regions st). page_addr r ` free_idx (r_bitmap r))"
    by (auto simp: free_pages_def)
  then show ?thesis by simp
qed

interpretation pmm_pages: page_allocator pmm_inv usable_pages free_pages pmm_alloc pmm_free PMM_OK
proof unfold_locales
  fix s a assume inv: "pmm_inv s" and a: "a \<in> usable_pages s"
  show "a \<noteq> 0 \<and> 4096 dvd unat a \<and> unat a + 4096 \<le> 2 ^ 64"
    using usable_page_facts [OF inv a] by simp
next
  fix s assume inv: "pmm_inv s" and "free_pages s \<noteq> {}"
  then show "\<exists>a s'. pmm_alloc s = Some (a, s') \<and> pmm_inv s' \<and> usable_pages s' = usable_pages s \<and>
      a \<in> free_pages s \<and> free_pages s' = free_pages s - {a}"
    using pmm_alloc_step [OF inv] by auto
next
  fix s assume inv: "pmm_inv s" and "free_pages s = {}"
  then show "pmm_alloc s = Some (0, s)"
    using pmm_alloc_step [OF inv] by auto
next
  fix s a assume inv: "pmm_inv s" and a: "a \<in> usable_pages s" "a \<notin> free_pages s"
  show "\<exists>s'. pmm_free s a = Some (PMM_OK, s') \<and> pmm_inv s' \<and> usable_pages s' = usable_pages s \<and>
      free_pages s' = insert a (free_pages s)"
    by (rule pmm_free_step [OF inv a])
qed (auto simp: finite_free_pages dest: free_pages_usable)

text \<open>
  C29: successive allocations. On a well-formed state with at least \<open>n\<close> free pages, \<open>n\<close> calls of
  \<open>pmm_alloc\<close> return \<open>n\<close> distinct addresses, all of them free before, and exactly those are
  in use afterwards.
\<close>

theorem pmm_alloc_times_distinct:
  assumes "pmm_inv st" and "n \<le> card (free_pages st)"
  shows "\<exists>as st'. alloc_times pmm_alloc n st = Some (as, st') \<and> length as = n \<and> distinct as \<and>
    set as \<subseteq> free_pages st \<and> pmm_inv st' \<and> usable_pages st' = usable_pages st \<and>
    free_pages st' = free_pages st - set as"
  by (rule pmm_pages.alloc_times_distinct [OF assms])

text \<open>
  \<open>pmm_check_page\<close> on a page of a usable region returns \<open>PMM_PAGE_FREE\<close> exactly if the page
  is free, and for a page in use it returns the page's bit in place, \<open>1 << (page % 8)\<close>, which
  is \<open>PMM_PAGE_USED\<close> for every eighth page only.
\<close>

theorem pmm_check_page_value:
  assumes inv: "pmm_inv st" and i: "i < length (pmm_regions st)"
    and p: "p < region_pages (pmm_regions st ! i)"
  shows "pmm_check_page st (page_addr (pmm_regions st ! i) p) =
    Some (if page_addr (pmm_regions st ! i) p \<in> free_pages st then PMM_PAGE_FREE
          else push_bit (p mod 8) 1)"
proof -
  let ?r = "pmm_regions st ! i"
  note look = lookup_page [OF inv i p]
  have rinv: "region_inv ?r" using pmm_inv_region [OF inv i] by (simp only: pmm_region_ok_def)
  note b = region_inv_bounds [OF rinv p]
  have idx: "(page_addr ?r p - r_base ?r) div PAGE_SIZE_BYTE = of_nat p"
    by (rule page_addr_index [OF rinv p])
  have get: "arr_get (r_bitmap ?r) (of_nat p div 8) = Some (r_bitmap ?r ! (p div 8))"
    using b(1) page_div_mod_8 [OF b(2)] by (simp add: arr_get_def)
  have bit: "page_addr ?r p \<in> free_pages st \<longleftrightarrow> \<not> bit (r_bitmap ?r ! (p div 8)) (p mod 8)"
    unfolding free_pages_iff [OF inv i p] using b(1) by (simp add: free_idx_def)
  have "(ucast w :: u32) AND push_bit k 1 = (if bit w k then push_bit k 1 else 0)" if "k < 8" for w :: u8 and k
    by (rule bit_word_eqI) (use that in \<open>auto simp: bit_simps\<close>)
  from this [of "p mod 8" "r_bitmap ?r ! (p div 8)"] show ?thesis
    by (simp add: pmm_check_page_def look(1,2) Let_def idx get page_div_mod_8 [OF b(2)] bit
        del: push_bit_of_1)
qed

end
