(* ===== verification/PageEntry.thy ===== *)
theory PageEntry
  imports Prelude
begin

text \<open>
  Page table entries (kernel/include/memory/paging.h and the entry helpers of
  kernel/src/memory/paging.c): the bit-field layouts of the entry unions, reading and writing
  a field, \<open>paging_create_entry\<close>, \<open>paging_get_flags_from_entry\<close>, the indices of a virtual
  address and \<open>paging_get_virt_address_from_indices\<close>.

  The union \<open>page_table_entry_t\<close> is its \<open>raw\<close> word; a layout is the list of the names and
  widths of a bit-field struct, from the lowest bit on, as the x86_64 ABI lays them out.
\<close>

section \<open>Enumerations\<close>

datatype paging_error_codes_t = PAGING_OK | PAGING_ERROR

datatype page_size_t = PAGE_SIZE_4KB | PAGE_SIZE_2MB | PAGE_SIZE_1GB

datatype page_table_level_t = PML4 | PDPR | PD | PT

datatype page_table_entry_type_t = PAGING_ENTRY_POINTER | PAGING_ENTRY_PAGE

abbreviation (input) PAGING_FLAG_PRESENT :: u64 where "PAGING_FLAG_PRESENT \<equiv> 1"
abbreviation (input) PAGING_FLAG_WRITABLE :: u64 where "PAGING_FLAG_WRITABLE \<equiv> 2"
abbreviation (input) PAGING_FLAG_PAGE_SIZE :: u64 where "PAGING_FLAG_PAGE_SIZE \<equiv> 128"

section \<open>Bit-field layouts\<close>

type_synonym layout = "(string \<times> nat) list"
type_synonym page_table_entry_t = u64

definition pml4_pointer_fields :: layout where
  "pml4_pointer_fields =
     [(''present'', 1), (''writable'', 1), (''user_level'', 1), (''page_write_through'', 1),
      (''page_cache_disable'', 1), (''accessed'', 1), (''available_1'', 1), (''reserved_1'', 1),
      (''available_2'', 4), (''base_address'', 28), (''reserved_2'', 12), (''available_3'', 11),
      (''disable_execution'', 1)]"

definition pdpr_pointer_fields :: layout where
  "pdpr_pointer_fields =
     [(''present'', 1), (''writable'', 1), (''user_level'', 1), (''page_write_through'', 1),
      (''page_cache_disable'', 1), (''accessed'', 1), (''dirty'', 1), (''page_size'', 1),
      (''available_1'', 4), (''base_address'', 28), (''reserved'', 12), (''available_2'', 11),
      (''disable_execution'', 1)]"

definition pdpr_page_fields :: layout where
  "pdpr_page_fields =
     [(''present'', 1), (''writable'', 1), (''user_level'', 1), (''page_write_through'', 1),
      (''page_cache_disable'', 1), (''accessed'', 1), (''dirty'', 1), (''page_size'', 1),
      (''global'', 1), (''available_1'', 3), (''page_attribute_table'', 1), (''reserved_1'', 17),
      (''base_address'', 10), (''reserved_2'', 12), (''available_2'', 7), (''protection_key'', 4),
      (''disable_execution'', 1)]"

definition pd_pointer_fields :: layout where
  "pd_pointer_fields =
     [(''present'', 1), (''writable'', 1), (''user_level'', 1), (''page_write_through'', 1),
      (''page_cache_disable'', 1), (''accessed'', 1), (''dirty'', 1), (''page_size'', 1),
      (''available_1'', 4), (''base_address'', 28), (''reserved'', 12), (''available_2'', 11),
      (''disable_execution'', 1)]"

definition pd_page_fields :: layout where
  "pd_page_fields =
     [(''present'', 1), (''writable'', 1), (''user_level'', 1), (''page_write_through'', 1),
      (''page_cache_disable'', 1), (''accessed'', 1), (''dirty'', 1), (''page_size'', 1),
      (''global'', 1), (''available_1'', 3), (''page_attribute_table'', 1), (''reserved_1'', 8),
      (''base_address'', 19), (''reserved_2'', 12), (''available_2'', 7), (''protection_key'', 4),
      (''disable_execution'', 1)]"

definition pt_page_fields :: layout where
  "pt_page_fields =
     [(''present'', 1), (''writable'', 1), (''user_level'', 1), (''page_write_through'', 1),
      (''page_cache_disable'', 1), (''accessed'', 1), (''dirty'', 1), (''page_attribute_table'', 1),
      (''global'', 1), (''available_1'', 3), (''base_address'', 28), (''reserved'', 12),
      (''available_2'', 7), (''protection_key'', 4), (''disable_execution'', 1)]"

text \<open>Offset and width of a field.\<close>

fun field_bits :: "layout \<Rightarrow> string \<Rightarrow> nat \<times> nat" where
  "field_bits [] name = (0, 0)"
| "field_bits ((m, w) # fs) name =
     (if m = name then (0, w) else let (off, w') = field_bits fs name in (off + w, w'))"

definition get_field :: "layout \<Rightarrow> string \<Rightarrow> u64 \<Rightarrow> u64" where
  "get_field fs name raw = (let (off, w) = field_bits fs name in drop_bit off raw AND mask w)"

definition set_field :: "layout \<Rightarrow> string \<Rightarrow> u64 \<Rightarrow> u64 \<Rightarrow> u64" where
  "set_field fs name v raw =
     (let (off, w) = field_bits fs name
      in raw AND NOT (push_bit off (mask w)) OR push_bit off (v AND mask w))"

lemmas layout_defs = pml4_pointer_fields_def pdpr_pointer_fields_def pdpr_page_fields_def
  pd_pointer_fields_def pd_page_fields_def pt_page_fields_def

text \<open>The fields the code uses, once and for all.\<close>

lemma field_positions:
  "field_bits pml4_pointer_fields ''present'' = (0, 1)"
  "field_bits pdpr_pointer_fields ''present'' = (0, 1)"
  "field_bits pdpr_page_fields ''present'' = (0, 1)"
  "field_bits pd_pointer_fields ''present'' = (0, 1)"
  "field_bits pd_page_fields ''present'' = (0, 1)"
  "field_bits pt_page_fields ''present'' = (0, 1)"
  "field_bits pdpr_pointer_fields ''page_size'' = (7, 1)"
  "field_bits pd_pointer_fields ''page_size'' = (7, 1)"
  "field_bits pml4_pointer_fields ''base_address'' = (12, 28)"
  "field_bits pdpr_pointer_fields ''base_address'' = (12, 28)"
  "field_bits pd_pointer_fields ''base_address'' = (12, 28)"
  "field_bits pt_page_fields ''base_address'' = (12, 28)"
  "field_bits pdpr_page_fields ''base_address'' = (30, 10)"
  "field_bits pd_page_fields ''base_address'' = (21, 19)"
  by (simp_all add: layout_defs)

lemma layouts_64_bits:
  "\<forall>l \<in> {pml4_pointer_fields, pdpr_pointer_fields, pdpr_page_fields, pd_pointer_fields,
      pd_page_fields, pt_page_fields}. sum_list (map snd l) = 64"
  by (simp add: layout_defs)

section \<open>Entries\<close>

definition paging_create_entry ::
    "u64 \<Rightarrow> u64 \<Rightarrow> page_table_level_t \<Rightarrow> page_table_entry_type_t \<Rightarrow> page_table_entry_t" where
  "paging_create_entry base_address flags level type =
     (case level of
        PML4 \<Rightarrow> set_field pml4_pointer_fields ''base_address'' (drop_bit 12 base_address) flags
      | PDPR \<Rightarrow>
          if type = PAGING_ENTRY_PAGE
          then set_field pdpr_page_fields ''base_address'' (drop_bit 30 base_address) flags
          else set_field pdpr_pointer_fields ''base_address'' (drop_bit 12 base_address) flags
      | PD \<Rightarrow>
          if type = PAGING_ENTRY_PAGE
          then set_field pd_page_fields ''base_address'' (drop_bit 21 base_address) flags
          else set_field pd_pointer_fields ''base_address'' (drop_bit 12 base_address) flags
      | PT \<Rightarrow> set_field pt_page_fields ''base_address'' (drop_bit 12 base_address) flags)"

text \<open>The mask is 0 for a combination without a meaning, which only logs an error.\<close>

definition paging_get_flags_from_entry ::
    "page_table_entry_t \<Rightarrow> page_table_level_t \<Rightarrow> page_table_entry_type_t \<Rightarrow> u64" where
  "paging_get_flags_from_entry entry level type =
     (let flags_mask =
        if type = PAGING_ENTRY_POINTER \<or> level = PT then NOT 0xfffffff000
        else if level = PDPR then NOT 0xffc0000000
        else if level = PD then NOT 0xffffe00000
        else 0
      in entry AND flags_mask)"

section \<open>Virtual addresses\<close>

definition pml4_index :: "u64 \<Rightarrow> u64" where "pml4_index virt = drop_bit 39 virt AND 0x1ff"
definition pdpr_index :: "u64 \<Rightarrow> u64" where "pdpr_index virt = drop_bit 30 virt AND 0x1ff"
definition pd_index :: "u64 \<Rightarrow> u64" where "pd_index virt = drop_bit 21 virt AND 0x1ff"
definition pt_index :: "u64 \<Rightarrow> u64" where "pt_index virt = drop_bit 12 virt AND 0x1ff"

definition paging_get_virt_address_from_indices :: "u64 \<Rightarrow> u64 \<Rightarrow> u64 \<Rightarrow> u64 \<Rightarrow> u64" where
  "paging_get_virt_address_from_indices pml4_idx pdpr_idx pd_idx pt_idx =
     (let sign_extension = if drop_bit 8 pml4_idx = 1 then 0xffff else 0
      in push_bit 48 sign_extension OR push_bit 39 pml4_idx OR push_bit 30 pdpr_idx OR
         push_bit 21 pd_idx OR push_bit 12 pt_idx)"

section \<open>Bit-level facts\<close>

text \<open>A created entry, for the base address fields at their offsets and widths.\<close>

definition entry_word :: "nat \<Rightarrow> nat \<Rightarrow> u64 \<Rightarrow> u64 \<Rightarrow> u64" where
  "entry_word off w base flags =
     flags AND NOT (push_bit off (mask w)) OR push_bit off (drop_bit off base AND mask w)"

lemma create_entry_word:
  "paging_create_entry base flags PML4 ty = entry_word 12 28 base flags"
  "paging_create_entry base flags PDPR PAGING_ENTRY_PAGE = entry_word 30 10 base flags"
  "paging_create_entry base flags PDPR PAGING_ENTRY_POINTER = entry_word 12 28 base flags"
  "paging_create_entry base flags PD PAGING_ENTRY_PAGE = entry_word 21 19 base flags"
  "paging_create_entry base flags PD PAGING_ENTRY_POINTER = entry_word 12 28 base flags"
  "paging_create_entry base flags PT ty = entry_word 12 28 base flags"
  by (simp_all add: paging_create_entry_def set_field_def field_positions entry_word_def)

lemma bit_entry_word:
  "bit (entry_word off w base flags) n \<longleftrightarrow>
     n < 64 \<and> (if off \<le> n \<and> n < off + w then bit base n else bit flags n)"
  by (auto simp: entry_word_def bit_simps dest: bit_imp_le_length)

lemma mask_512: "(0x1ff :: u64) = mask 9"
  by (simp add: mask_eq_exp_minus_1)

lemma index_bound:
  "unat (pml4_index v) < 512" "unat (pdpr_index v) < 512" "unat (pd_index v) < 512"
  "unat (pt_index v) < 512"
proof -
  have "unat (w AND mask 9 :: u64) < 512" for w
  proof -
    have "w AND mask 9 = take_bit 9 w" by (simp add: take_bit_eq_mask)
    then have "unat (w AND mask 9 :: u64) = take_bit 9 (unat w)" by (simp add: unsigned_take_bit_eq)
    also have "\<dots> < 2 ^ 9" by (rule take_bit_nat_less_exp)
    finally show ?thesis by simp
  qed
  then show "unat (pml4_index v) < 512" "unat (pdpr_index v) < 512" "unat (pd_index v) < 512"
    "unat (pt_index v) < 512"
    by (simp_all add: pml4_index_def pdpr_index_def pd_index_def pt_index_def mask_512)
qed

lemma get_field_flag:
  assumes "field_bits fs name = (k, 1)"
  shows "get_field fs name e = 0 \<longleftrightarrow> \<not> bit e k"
proof -
  have "get_field fs name e = of_bool (bit e k)"
    unfolding get_field_def assms prod.case Let_def
    by (rule bit_word_eqI) (auto simp: bit_simps)
  then show ?thesis by simp
qed

lemma present_iff:
  "get_field pml4_pointer_fields ''present'' e = 0 \<longleftrightarrow> \<not> bit e 0"
  "get_field pdpr_pointer_fields ''present'' e = 0 \<longleftrightarrow> \<not> bit e 0"
  "get_field pdpr_page_fields ''present'' e = 0 \<longleftrightarrow> \<not> bit e 0"
  "get_field pd_pointer_fields ''present'' e = 0 \<longleftrightarrow> \<not> bit e 0"
  "get_field pd_page_fields ''present'' e = 0 \<longleftrightarrow> \<not> bit e 0"
  "get_field pt_page_fields ''present'' e = 0 \<longleftrightarrow> \<not> bit e 0"
  "get_field pdpr_pointer_fields ''page_size'' e = 0 \<longleftrightarrow> \<not> bit e 7"
  "get_field pd_pointer_fields ''page_size'' e = 0 \<longleftrightarrow> \<not> bit e 7"
  by (rule get_field_flag, simp add: field_positions)+

text \<open>The address an entry holds in its base address field.\<close>

definition entry_base :: "nat \<Rightarrow> nat \<Rightarrow> u64 \<Rightarrow> u64" where
  "entry_base off w e = push_bit off (drop_bit off e AND mask w)"

lemma bit_entry_base: "bit (entry_base off w e) n \<longleftrightarrow> off \<le> n \<and> n < off + w \<and> bit e n"
  by (auto simp: entry_base_def bit_simps dest: bit_imp_le_length)

lemma base_field:
  "push_bit 12 (get_field pml4_pointer_fields ''base_address'' e) = entry_base 12 28 e"
  "push_bit 12 (get_field pdpr_pointer_fields ''base_address'' e) = entry_base 12 28 e"
  "push_bit 12 (get_field pd_pointer_fields ''base_address'' e) = entry_base 12 28 e"
  "push_bit 12 (get_field pt_page_fields ''base_address'' e) = entry_base 12 28 e"
  "push_bit 30 (get_field pdpr_page_fields ''base_address'' e) = entry_base 30 10 e"
  "push_bit 21 (get_field pd_page_fields ''base_address'' e) = entry_base 21 19 e"
  by (simp_all add: get_field_def entry_base_def field_positions)

definition field_fits :: "nat \<Rightarrow> nat \<Rightarrow> u64 \<Rightarrow> bool" where
  "field_fits off w base \<longleftrightarrow> 2 ^ off dvd unat base \<and> unat base < 2 ^ (off + w)"

lemma field_fits_bit:
  assumes "field_fits off w base" "bit base n"
  shows "off \<le> n" "n < off + w"
proof -
  have n: "bit (unat base) n" using assms(2) by (simp add: bit_unsigned_iff)
  show "off \<le> n"
  proof (rule ccontr)
    assume "\<not> off \<le> n"
    moreover have "take_bit off (unat base) = 0"
      using assms(1) by (simp add: field_fits_def take_bit_eq_mod)
    ultimately show False using n by (metis bit_take_bit_iff bit_0_eq bot_apply bot_bool_def not_le)
  qed
  show "n < off + w"
  proof (rule ccontr)
    assume "\<not> n < off + w"
    moreover have "take_bit (off + w) (unat base) = unat base"
      using assms(1) by (simp add: field_fits_def take_bit_nat_eq_self)
    ultimately show False using n by (metis bit_take_bit_iff)
  qed
qed

lemma entry_base_word:
  assumes "field_fits off w base" "off + w \<le> 64"
  shows "entry_base off w (entry_word off w base flags) = base"
proof (rule bit_word_eqI)
  fix n assume "n < LENGTH(64)"
  then show "bit (entry_base off w (entry_word off w base flags)) n = bit base n"
    using field_fits_bit [OF assms(1), of n] by (auto simp: bit_entry_base bit_entry_word)
qed

lemma flags_masks:
  "(0xfffffff000 :: u64) = push_bit 12 (mask 28)" "(0xffc0000000 :: u64) = push_bit 30 (mask 10)"
  "(0xffffe00000 :: u64) = push_bit 21 (mask 19)"
  by (simp_all add: mask_eq_exp_minus_1 push_bit_eq_mult)

lemma flags_entry_word:
  "entry_word off w base flags AND NOT (push_bit off (mask w)) = flags AND NOT (push_bit off (mask w))"
  by (rule bit_word_eqI) (auto simp: entry_word_def bit_simps)

section \<open>Properties\<close>

text \<open>The base address of an entry, as the code reads it at each level.\<close>

definition entry_base_address :: "page_table_entry_t \<Rightarrow> page_table_level_t \<Rightarrow> page_table_entry_type_t \<Rightarrow> u64" where
  "entry_base_address e level type =
     (case level of
        PML4 \<Rightarrow> push_bit 12 (get_field pml4_pointer_fields ''base_address'' e)
      | PDPR \<Rightarrow>
          if type = PAGING_ENTRY_PAGE then push_bit 30 (get_field pdpr_page_fields ''base_address'' e)
          else push_bit 12 (get_field pdpr_pointer_fields ''base_address'' e)
      | PD \<Rightarrow>
          if type = PAGING_ENTRY_PAGE then push_bit 21 (get_field pd_page_fields ''base_address'' e)
          else push_bit 12 (get_field pd_pointer_fields ''base_address'' e)
      | PT \<Rightarrow> push_bit 12 (get_field pt_page_fields ''base_address'' e))"

text \<open>Alignment in bits of what an entry points to.\<close>

fun entry_alignment :: "page_table_level_t \<Rightarrow> page_table_entry_type_t \<Rightarrow> nat" where
  "entry_alignment PDPR PAGING_ENTRY_PAGE = 30"
| "entry_alignment PD PAGING_ENTRY_PAGE = 21"
| "entry_alignment _ _ = 12"

text \<open>
  C32: an entry keeps what it is created from. For an address below 2^40 that is aligned for its
  level and type, the base address read back is the address, and the flags read back are the
  flags given, without the bits of the address field.
\<close>

theorem create_entry_roundtrip:
  assumes "2 ^ entry_alignment level type dvd unat base" and "unat base < 2 ^ 40"
    and "level = PML4 \<longrightarrow> type = PAGING_ENTRY_POINTER"
  shows "entry_base_address (paging_create_entry base flags level type) level type = base \<and>
    paging_get_flags_from_entry (paging_create_entry base flags level type) level type =
      paging_get_flags_from_entry flags level type"
proof -
  have fits: "field_fits (entry_alignment level type) (40 - entry_alignment level type) base"
    using assms(1,2) by (cases "(level, type)" rule: entry_alignment.cases) (simp_all add: field_fits_def)
  show ?thesis
    by (cases level; cases type)
      (use fits assms(3) in \<open>simp_all add: entry_base_address_def base_field create_entry_word entry_base_word
        paging_get_flags_from_entry_def flags_masks flags_entry_word\<close>)
qed

lemma create_entry_roundtrip_witness:
  "entry_base_address (paging_create_entry 0x40000000 0x83 PDPR PAGING_ENTRY_PAGE) PDPR PAGING_ENTRY_PAGE
     = 0x40000000 \<and>
   paging_get_flags_from_entry (paging_create_entry 0x40000000 0x83 PDPR PAGING_ENTRY_PAGE) PDPR
     PAGING_ENTRY_PAGE = 0x83"
  using create_entry_roundtrip [of PDPR PAGING_ENTRY_PAGE "0x40000000" "0x83"]
  by (simp add: paging_get_flags_from_entry_def)

lemma index_word_eq:
  assumes "unat (a :: u64) < 512"
  shows "bit a n \<Longrightarrow> n < 9" "drop_bit 8 a = 1 \<longleftrightarrow> bit a 8"
proof -
  have fits: "field_fits 0 9 a" using assms by (simp add: field_fits_def)
  show b: "n < 9" if "bit a n" for n using field_fits_bit(2) [OF fits that] by simp
  have "drop_bit 8 a = of_bool (bit a 8)"
  proof (rule bit_word_eqI)
    fix n
    show "bit (drop_bit 8 a) n = bit (of_bool (bit a 8) :: u64) n"
      using b [of "8 + n"] by (cases n) (auto simp: bit_simps)
  qed
  then show "drop_bit 8 a = 1 \<longleftrightarrow> bit a 8" by simp
qed

lemma virt_indices:
  assumes "unat a < 512" "unat b < 512" "unat c < 512" "unat d < 512"
  shows "pml4_index (paging_get_virt_address_from_indices a b c d) = a \<and>
    pdpr_index (paging_get_virt_address_from_indices a b c d) = b \<and>
    pd_index (paging_get_virt_address_from_indices a b c d) = c \<and>
    pt_index (paging_get_virt_address_from_indices a b c d) = d"
proof -
  note A = index_word_eq [OF assms(1)] and B = index_word_eq(1) [OF assms(2)]
    and C = index_word_eq(1) [OF assms(3)] and D = index_word_eq(1) [OF assms(4)]
  have s: "bit (if drop_bit 8 a = 1 then 0xffff else 0 :: u64) n \<longleftrightarrow> bit a 8 \<and> n < 16" for n
  proof -
    have "(0xffff :: u64) = mask 16" by (simp add: mask_eq_exp_minus_1)
    then have "bit (0xffff :: u64) n \<longleftrightarrow> n < 16" by (simp only: bit_mask_iff) auto
    then show ?thesis by (simp add: A(2))
  qed
  have v: "bit (paging_get_virt_address_from_indices a b c d) n \<longleftrightarrow> n < 64 \<and>
      (48 \<le> n \<and> bit a 8 \<or> 39 \<le> n \<and> bit a (n - 39) \<or> 30 \<le> n \<and> bit b (n - 30) \<or>
       21 \<le> n \<and> bit c (n - 21) \<or> 12 \<le> n \<and> bit d (n - 12))" for n
    unfolding paging_get_virt_address_from_indices_def Let_def by (auto simp: bit_simps s)
  have "pml4_index (paging_get_virt_address_from_indices a b c d) = a"
    by (rule bit_word_eqI) (auto simp: pml4_index_def mask_512 bit_simps v dest: A(1) B C D)
  moreover have "pdpr_index (paging_get_virt_address_from_indices a b c d) = b"
    by (rule bit_word_eqI) (auto simp: pdpr_index_def mask_512 bit_simps v dest: A(1) B C D)
  moreover have "pd_index (paging_get_virt_address_from_indices a b c d) = c"
    by (rule bit_word_eqI) (auto simp: pd_index_def mask_512 bit_simps v dest: A(1) B C D)
  moreover have "pt_index (paging_get_virt_address_from_indices a b c d) = d"
    by (rule bit_word_eqI) (auto simp: pt_index_def mask_512 bit_simps v dest: A(1) B C D)
  ultimately show ?thesis by blast
qed

text \<open>
  The address that the clone computes from four indices below 512 has exactly these indices,
  also when its sign extension is set.
\<close>

theorem virt_indices_roundtrip:
  assumes "unat a < 512" "unat b < 512" "unat c < 512" "unat d < 512"
  shows "pml4_index (paging_get_virt_address_from_indices a b c d) = a \<and>
    pdpr_index (paging_get_virt_address_from_indices a b c d) = b \<and>
    pd_index (paging_get_virt_address_from_indices a b c d) = c \<and>
    pt_index (paging_get_virt_address_from_indices a b c d) = d"
  by (rule virt_indices [OF assms])

lemma virt_indices_roundtrip_witness:
  "pml4_index (paging_get_virt_address_from_indices 0x1ff 1 2 3) = 0x1ff"
  using virt_indices_roundtrip [of "0x1ff" 1 2 3] by simp

end
