(* ===== verification/Paging.thy ===== *)
theory Paging
  imports Pmm PageEntry
begin

text \<open>
  The paging module (kernel/src/memory/paging.c): mapping, unmapping and resolving pages of 4 kB,
  2 MB and 1 GB, removal of empty tables, the recursive clone and the recursive dump.

  Page tables live in physical memory, which the kernel reads through the higher half direct
  map: \<open>pg_mem\<close> gives the 64-bit cell at each virtual address, and \<open>table[idx]\<close> is the cell at
  \<open>table + 8 * idx\<close>. The allocator is the physical memory manager of Pmm; its own data is kept in
  \<open>pg_pmm\<close> and not in \<open>pg_mem\<close>. \<open>pg_tlb\<close> records the addresses given to \<open>invlpg\<close>, latest first.
  The static index variables of the clone are \<open>pg_clone\<close>. Of the \<open>LOG_*\<close> lines only those of the
  dump, whose purpose is to print, are modelled, as values that PagingDump turns into log messages.
\<close>

section \<open>State\<close>

abbreviation (input) PAGE_TABLE_NUM_ENTRIES :: nat where "PAGE_TABLE_NUM_ENTRIES \<equiv> 512"

record paging_state =
  pg_pmm :: pmm_state
  pg_mem :: "u64 \<Rightarrow> page_table_entry_t"
  g_hhdm_offset :: u64
  pg_tlb :: "u64 list"
  pg_clone :: "u64 \<times> u64 \<times> u64 \<times> u64"

definition cell :: "u64 \<Rightarrow> u64 \<Rightarrow> u64" where
  "cell table idx = table + 8 * idx"

definition read_entry :: "paging_state \<Rightarrow> u64 \<Rightarrow> u64 \<Rightarrow> page_table_entry_t" where
  "read_entry st table idx = pg_mem st (cell table idx)"

definition write_entry :: "u64 \<Rightarrow> u64 \<Rightarrow> page_table_entry_t \<Rightarrow> paging_state \<Rightarrow> paging_state" where
  "write_entry table idx e st = st\<lparr>pg_mem := (pg_mem st)(cell table idx := e)\<rparr>"

text \<open>\<open>memset(table, 0, 0x1000)\<close>\<close>

definition zero_table :: "u64 \<Rightarrow> paging_state \<Rightarrow> paging_state" where
  "zero_table table st =
     st\<lparr>pg_mem := (\<lambda>a. if a \<in> set (map (\<lambda>i. cell table (of_nat i)) [0..<512]) then 0 else pg_mem st a)\<rparr>"

definition invalidate_tlb :: "u64 \<Rightarrow> paging_state \<Rightarrow> paging_state" where
  "invalidate_tlb virt st = st\<lparr>pg_tlb := virt # pg_tlb st\<rparr>"

definition paging_init :: "u64 \<Rightarrow> paging_state \<Rightarrow> paging_state" where
  "paging_init hhdm_offset st = st\<lparr>g_hhdm_offset := hhdm_offset\<rparr>"

section \<open>Mapping\<close>

text \<open>
  The step that \<open>paging_map_page_without_tlb_invalidation\<close> takes at the PML4, the PDPR and the PD:
  follow the entry, or allocate and enter a new table. \<open>fs\<close> is the layout and \<open>level\<close> the level of
  the entry. The first component is \<open>None\<close> where the code reports that allocation failed.
\<close>

definition next_table ::
    "layout \<Rightarrow> page_table_level_t \<Rightarrow> u64 \<Rightarrow> u64 \<Rightarrow> paging_state \<Rightarrow> (u64 option \<times> paging_state) option" where
  "next_table fs level table idx st =
     (if get_field fs ''present'' (read_entry st table idx) = 0 then
        do {
          (page, pm) \<leftarrow> pmm_alloc (pg_pmm st);
          let st1 = st\<lparr>pg_pmm := pm\<rparr>;
          let new = page + g_hhdm_offset st1;
          if new = 0 then Some (None, st1)
          else
            let entry = paging_create_entry (new - g_hhdm_offset st1)
                  (PAGING_FLAG_PRESENT OR PAGING_FLAG_WRITABLE) level PAGING_ENTRY_POINTER
            in Some (Some new, write_entry table idx entry (zero_table new st1))
        }
      else
        Some (Some (push_bit 12 (get_field fs ''base_address'' (read_entry st table idx))
                + g_hhdm_offset st), st))"

text \<open>The last step: enter a page at its leaf, unless the leaf is in use.\<close>

definition enter_page ::
    "layout \<Rightarrow> page_table_level_t \<Rightarrow> u64 \<Rightarrow> u64 \<Rightarrow> u64 \<Rightarrow> u64 \<Rightarrow> paging_state
      \<Rightarrow> (paging_error_codes_t \<times> paging_state) option" where
  "enter_page fs level table idx phys flags st =
     (if get_field fs ''present'' (read_entry st table idx) \<noteq> 0 then Some (PAGING_ERROR, st)
      else Some (PAGING_OK,
             write_entry table idx (paging_create_entry phys flags level PAGING_ENTRY_PAGE) st))"

definition paging_map_page_without_tlb_invalidation ::
    "u64 \<Rightarrow> u64 \<Rightarrow> u64 \<Rightarrow> page_size_t \<Rightarrow> u64 \<Rightarrow> paging_state
      \<Rightarrow> (paging_error_codes_t \<times> paging_state) option" where
  "paging_map_page_without_tlb_invalidation pml4 phys virt page_size flags st =
     do {
       (pdpr, st) \<leftarrow> next_table pml4_pointer_fields PML4 pml4 (pml4_index virt) st;
       case pdpr of None \<Rightarrow> Some (PAGING_ERROR, st) | Some pdpr \<Rightarrow>
       if page_size = PAGE_SIZE_1GB
       then enter_page pdpr_page_fields PDPR pdpr (pdpr_index virt) phys flags st
       else do {
         (pd, st) \<leftarrow> next_table pdpr_pointer_fields PDPR pdpr (pdpr_index virt) st;
         case pd of None \<Rightarrow> Some (PAGING_ERROR, st) | Some pd \<Rightarrow>
         if page_size = PAGE_SIZE_2MB
         then enter_page pd_page_fields PD pd (pd_index virt) phys flags st
         else do {
           (pt, st) \<leftarrow> next_table pd_pointer_fields PD pd (pd_index virt) st;
           case pt of None \<Rightarrow> Some (PAGING_ERROR, st) | Some pt \<Rightarrow>
           enter_page pt_page_fields PT pt (pt_index virt) phys flags st
         }
       }
     }"

definition paging_map_page ::
    "u64 \<Rightarrow> u64 \<Rightarrow> u64 \<Rightarrow> page_size_t \<Rightarrow> u64 \<Rightarrow> paging_state
      \<Rightarrow> (paging_error_codes_t \<times> paging_state) option" where
  "paging_map_page pml4 phys virt page_size flags st =
     do {
       (success, st) \<leftarrow> paging_map_page_without_tlb_invalidation pml4 phys virt page_size flags st;
       if success \<noteq> PAGING_OK then Some (success, st)
       else Some (PAGING_OK, invalidate_tlb virt st)
     }"

section \<open>Resolving\<close>

definition paging_resolve_virtual_address :: "u64 \<Rightarrow> u64 \<Rightarrow> paging_state \<Rightarrow> u64" where
  "paging_resolve_virtual_address pml4 virt st =
     (let e4 = read_entry st pml4 (pml4_index virt) in
      if get_field pml4_pointer_fields ''present'' e4 = 0 then 0
      else
        let pdpr = push_bit 12 (get_field pml4_pointer_fields ''base_address'' e4) + g_hhdm_offset st;
            e3 = read_entry st pdpr (pdpr_index virt) in
        if get_field pdpr_pointer_fields ''present'' e3 = 0 then 0
        else if get_field pdpr_pointer_fields ''page_size'' e3 \<noteq> 0
        then push_bit 30 (get_field pdpr_page_fields ''base_address'' e3)
        else
          let pd = push_bit 12 (get_field pdpr_pointer_fields ''base_address'' e3) + g_hhdm_offset st;
              e2 = read_entry st pd (pd_index virt) in
          if get_field pd_pointer_fields ''present'' e2 = 0 then 0
          else if get_field pd_pointer_fields ''page_size'' e2 \<noteq> 0
          then push_bit 21 (get_field pd_page_fields ''base_address'' e2)
          else
            let pt = push_bit 12 (get_field pd_pointer_fields ''base_address'' e2) + g_hhdm_offset st;
                e1 = read_entry st pt (pt_index virt) in
            if get_field pt_page_fields ''present'' e1 = 0 then 0
            else push_bit 12 (get_field pt_page_fields ''base_address'' e1))"

section \<open>Unmapping\<close>

text \<open>The code reads and clears the present bit through the PML4 layout, whatever the level.\<close>

definition clear_present :: "layout \<Rightarrow> u64 \<Rightarrow> u64 \<Rightarrow> paging_state \<Rightarrow> paging_state" where
  "clear_present fs table idx st =
     write_entry table idx (set_field fs ''present'' 0 (read_entry st table idx)) st"

definition paging_check_for_empty_table ::
    "u64 \<Rightarrow> u64 \<Rightarrow> u64 \<Rightarrow> paging_state \<Rightarrow> paging_state option" where
  "paging_check_for_empty_table table parent_table idx_in_parent_table st =
     (let table_empty = list_all (\<lambda>idx. get_field pml4_pointer_fields ''present''
            (read_entry st table (of_nat idx)) = 0) [0..<PAGE_TABLE_NUM_ENTRIES]
      in if table_empty then
           let st1 = clear_present pml4_pointer_fields parent_table idx_in_parent_table st
           in do {
             (_, pm) \<leftarrow> pmm_free (pg_pmm st1) (table - g_hhdm_offset st1);
             Some (st1\<lparr>pg_pmm := pm\<rparr>)
           }
         else Some st)"

definition paging_unmap_page ::
    "u64 \<Rightarrow> u64 \<Rightarrow> page_size_t \<Rightarrow> paging_state \<Rightarrow> (paging_error_codes_t \<times> paging_state) option" where
  "paging_unmap_page pml4 virt page_size st =
     (let pml4_idx = pml4_index virt; pdpr_idx = pdpr_index virt;
          pd_idx = pd_index virt; pt_idx = pt_index virt;
          e4 = read_entry st pml4 pml4_idx in
      if get_field pml4_pointer_fields ''present'' e4 = 0 then Some (PAGING_ERROR, st)
      else
        let pdpr = push_bit 12 (get_field pml4_pointer_fields ''base_address'' e4) + g_hhdm_offset st;
            e3 = read_entry st pdpr pdpr_idx in
        if get_field pdpr_pointer_fields ''present'' e3 = 0 then Some (PAGING_ERROR, st)
        else if page_size = PAGE_SIZE_1GB then
          do {
            st \<leftarrow> paging_check_for_empty_table pdpr pml4 pml4_idx (clear_present pdpr_page_fields pdpr pdpr_idx st);
            Some (PAGING_OK, invalidate_tlb virt st)
          }
        else
          let pd = push_bit 12 (get_field pdpr_pointer_fields ''base_address'' e3) + g_hhdm_offset st;
              e2 = read_entry st pd pd_idx in
          if get_field pd_pointer_fields ''present'' e2 = 0 then Some (PAGING_ERROR, st)
          else if page_size = PAGE_SIZE_2MB then
            do {
              st \<leftarrow> paging_check_for_empty_table pd pdpr pdpr_idx (clear_present pd_page_fields pd pd_idx st);
              st \<leftarrow> paging_check_for_empty_table pdpr pml4 pml4_idx st;
              Some (PAGING_OK, invalidate_tlb virt st)
            }
          else
            let pt = push_bit 12 (get_field pd_pointer_fields ''base_address'' e2) + g_hhdm_offset st in
            do {
              st \<leftarrow> paging_check_for_empty_table pt pd pd_idx (clear_present pt_page_fields pt pt_idx st);
              st \<leftarrow> paging_check_for_empty_table pd pdpr pdpr_idx st;
              st \<leftarrow> paging_check_for_empty_table pdpr pml4 pml4_idx st;
              Some (PAGING_OK, invalidate_tlb virt st)
            })"

section \<open>Cloning\<close>

text \<open>How many levels of tables an entry of a level can have below it.\<close>

fun level_depth :: "page_table_level_t \<Rightarrow> nat" where
  "level_depth PML4 = 3"
| "level_depth PDPR = 2"
| "level_depth PD = 1"
| "level_depth PT = 0"

text \<open>
  The loop of \<open>paging_clone_page_table\<close> over the indices left, with the recursive calls inlined as
  calls for all 512 indices of the table below. The result of a call and of each mapping is
  ignored, as in the code.
\<close>

function clone_entries ::
    "u64 \<Rightarrow> u64 \<Rightarrow> page_table_level_t \<Rightarrow> nat list \<Rightarrow> paging_state \<Rightarrow> paging_state option" where
  "clone_entries old new_pml4 level [] st = Some st"
| "clone_entries old new_pml4 level (i # is) st =
     (let idx = of_nat i; e = read_entry st old idx; (i4, i3, i2, i1) = pg_clone st in
      if get_field pml4_pointer_fields ''present'' e = 0 then clone_entries old new_pml4 level is st
      else do {
        st' \<leftarrow> (case level of
          PML4 \<Rightarrow>
            let pdpr = push_bit 12 (get_field pml4_pointer_fields ''base_address'' e) + g_hhdm_offset st
            in clone_entries pdpr new_pml4 PDPR [0..<PAGE_TABLE_NUM_ENTRIES] (st\<lparr>pg_clone := (idx, i3, i2, i1)\<rparr>)
        | PDPR \<Rightarrow>
            let st1 = st\<lparr>pg_clone := (i4, idx, i2, i1)\<rparr> in
            if get_field pdpr_pointer_fields ''page_size'' e \<noteq> 0 then
              do {
                (_, st2) \<leftarrow> paging_map_page_without_tlb_invalidation new_pml4
                  (push_bit 30 (get_field pdpr_page_fields ''base_address'' e))
                  (paging_get_virt_address_from_indices i4 idx 0 0) PAGE_SIZE_1GB
                  (paging_get_flags_from_entry e PDPR PAGING_ENTRY_PAGE) st1;
                Some st2
              }
            else
              let pd = push_bit 12 (get_field pdpr_pointer_fields ''base_address'' e) + g_hhdm_offset st
              in clone_entries pd new_pml4 PD [0..<PAGE_TABLE_NUM_ENTRIES] st1
        | PD \<Rightarrow>
            let st1 = st\<lparr>pg_clone := (i4, i3, idx, i1)\<rparr> in
            if get_field pd_pointer_fields ''page_size'' e \<noteq> 0 then
              do {
                (_, st2) \<leftarrow> paging_map_page_without_tlb_invalidation new_pml4
                  (push_bit 21 (get_field pd_page_fields ''base_address'' e))
                  (paging_get_virt_address_from_indices i4 i3 idx 0) PAGE_SIZE_2MB
                  (paging_get_flags_from_entry e PD PAGING_ENTRY_PAGE) st1;
                Some st2
              }
            else
              let pt = push_bit 12 (get_field pd_pointer_fields ''base_address'' e) + g_hhdm_offset st
              in clone_entries pt new_pml4 PT [0..<PAGE_TABLE_NUM_ENTRIES] st1
        | PT \<Rightarrow>
            do {
              (_, st2) \<leftarrow> paging_map_page_without_tlb_invalidation new_pml4
                (push_bit 12 (get_field pt_page_fields ''base_address'' e))
                (paging_get_virt_address_from_indices i4 i3 i2 idx) PAGE_SIZE_4KB
                (paging_get_flags_from_entry e PT PAGING_ENTRY_PAGE) (st\<lparr>pg_clone := (i4, i3, i2, idx)\<rparr>);
              Some st2
            });
        clone_entries old new_pml4 level is st'
      })"
  by pat_completeness auto
termination
  by (relation "measures [\<lambda>(old, new, level, is, st). level_depth level, \<lambda>(old, new, level, is, st). length is]")
    auto

definition paging_clone_page_table ::
    "u64 \<Rightarrow> u64 \<Rightarrow> page_table_level_t \<Rightarrow> paging_state
      \<Rightarrow> (paging_error_codes_t \<times> u64 \<times> paging_state) option" where
  "paging_clone_page_table old new_pml4 level st =
     do {
       (c, new, st1) \<leftarrow>
         (if level = PML4 \<and> new_pml4 = 0 then
            do {
              (page, pm) \<leftarrow> pmm_alloc (pg_pmm st);
              let new = page + g_hhdm_offset st;
              Some (if new = 0 then PAGING_ERROR else PAGING_OK, new, st\<lparr>pg_pmm := pm\<rparr>)
            }
          else Some (PAGING_OK, new_pml4, st));
       if c \<noteq> PAGING_OK then Some (c, new, st1)
       else do {
         st2 \<leftarrow> clone_entries old new level [0..<PAGE_TABLE_NUM_ENTRIES] st1;
         Some (PAGING_OK, new, st2)
       }
     }"

section \<open>Dumping\<close>

text \<open>
  A printed line: the level, the indices it shows, the entry's raw value, and whether it is marked as
  a large page. The static \<open>int16_t\<close> index variables, -1 at boot, are passed along.
\<close>

datatype dump_line = Dump_line page_table_level_t "int list" u64 bool

type_synonym dump_statics = "int \<times> int \<times> int \<times> int"

definition dump_boot_statics :: dump_statics where
  "dump_boot_statics = (- 1, - 1, - 1, - 1)"

text \<open>
  The address of the next table as the dump computes it. Without the cast of the other functions the
  28-bit field promotes to \<open>int\<close>: the shift happens in 32 bits and the result is sign extended.
\<close>

definition dump_child :: "layout \<Rightarrow> page_table_entry_t \<Rightarrow> u64 \<Rightarrow> u64" where
  "dump_child fs e hhdm =
     scast (push_bit 12 (ucast (get_field fs ''base_address'' e) :: 32 word)) + hhdm"

function dump_entries ::
    "paging_state \<Rightarrow> u64 \<Rightarrow> page_table_level_t \<Rightarrow> nat list \<Rightarrow> dump_statics \<Rightarrow> dump_line list \<times> dump_statics" where
  "dump_entries st table level [] s = ([], s)"
| "dump_entries st table level (i # is) s =
     (let e = read_entry st table (of_nat i); (i4, i3, i2, i1) = s in
      if get_field pml4_pointer_fields ''present'' e = 0 then dump_entries st table level is s
      else
        let (ls, s) =
          (case level of
             PML4 \<Rightarrow>
               let (ls, s) = dump_entries st (dump_child pml4_pointer_fields e (g_hhdm_offset st)) PDPR
                     [0..<PAGE_TABLE_NUM_ENTRIES] (int i, i3, i2, i1)
               in (Dump_line PML4 [int i] e False # ls, s)
           | PDPR \<Rightarrow>
               if get_field pdpr_pointer_fields ''page_size'' e \<noteq> 0
               then ([Dump_line PDPR [i4, int i] e True], (i4, int i, i2, i1))
               else
                 let (ls, s) = dump_entries st (dump_child pdpr_pointer_fields e (g_hhdm_offset st)) PD
                       [0..<PAGE_TABLE_NUM_ENTRIES] (i4, int i, i2, i1)
                 in (Dump_line PDPR [i4, int i] e False # ls, s)
           | PD \<Rightarrow>
               if get_field pd_pointer_fields ''page_size'' e \<noteq> 0
               then ([Dump_line PD [i4, i3, int i] e True], (i4, i3, int i, i1))
               else
                 let (ls, s) = dump_entries st (dump_child pd_pointer_fields e (g_hhdm_offset st)) PT
                       [0..<PAGE_TABLE_NUM_ENTRIES] (i4, i3, int i, i1)
                 in (Dump_line PD [i4, i3, int i] e False # ls, s)
           | PT \<Rightarrow> ([Dump_line PT [i4, i3, i2, int i] e False], (i4, i3, i2, int i)));
            (ls', s) = dump_entries st table level is s
        in (ls @ ls', s))"
  by pat_completeness auto
termination
  by (relation "measures [\<lambda>(st, table, level, is, s). level_depth level, \<lambda>(st, table, level, is, s). length is]")
    auto

definition paging_dump_page_table ::
    "paging_state \<Rightarrow> u64 \<Rightarrow> page_table_level_t \<Rightarrow> dump_statics \<Rightarrow> dump_line list \<times> dump_statics" where
  "paging_dump_page_table st table level s = dump_entries st table level [0..<PAGE_TABLE_NUM_ENTRIES] s"

end
