(* ===== verification/PortIO.thy ===== *)
theory PortIO
  imports Prelude
begin

text \<open>
  Port input and output (kernel/include/cpu/port_io.h) and what the drivers build from it: polling a
  status register, without and with a limit.

  The devices are not part of the program. A device is a function that gives the byte it answers to
  a read of a port, from the port and everything read and written before, latest first; so any
  deterministic device is an instance. Drivers are functions on this history. They return \<open>None\<close>
  where the code waits forever. The \<open>LOG_*\<close> lines of the drivers are not modelled.
\<close>

section \<open>Devices and their history\<close>

datatype io_event = In u16 u8 | Out u16 u8

type_synonym io_trace = "io_event list"
type_synonym device = "io_trace \<Rightarrow> u16 \<Rightarrow> u8"

definition port_read_byte :: "device \<Rightarrow> u16 \<Rightarrow> io_trace \<Rightarrow> (u8 \<times> io_trace) option" where
  "port_read_byte dev port tr = Some (dev tr port, In port (dev tr port) # tr)"

definition port_write_byte :: "u16 \<Rightarrow> u8 \<Rightarrow> io_trace \<Rightarrow> io_trace" where
  "port_write_byte port data tr = Out port data # tr"

section \<open>Waiting\<close>

text \<open>\<open>while (!ready(port_read_byte(port)));\<close>: \<open>None\<close> if the device never gets ready.\<close>

partial_function (option) poll_until :: "device \<Rightarrow> u16 \<Rightarrow> (u8 \<Rightarrow> bool) \<Rightarrow> io_trace \<Rightarrow> io_trace option" where
  [code]: "poll_until dev port ready tr =
     do {
       (b, tr') \<leftarrow> port_read_byte dev port tr;
       if ready b then Some tr' else poll_until dev port ready tr'
     }"

text \<open>
  The same with a counter that starts at \<open>n\<close> and gives up when it reaches 0; the counter is
  decremented after a failed poll, so there are at most \<open>n\<close> polls. The result tells whether the
  device got ready.
\<close>

fun poll_limited :: "device \<Rightarrow> u16 \<Rightarrow> (u8 \<Rightarrow> bool) \<Rightarrow> nat \<Rightarrow> io_trace \<Rightarrow> (bool \<times> io_trace) option" where
  "poll_limited dev port ready 0 tr = Some (False, tr)"
| "poll_limited dev port ready (Suc n) tr =
     do {
       (b, tr') \<leftarrow> port_read_byte dev port tr;
       if ready b then Some (True, tr') else poll_limited dev port ready n tr'
     }"

section \<open>What a driver does to the history\<close>

text \<open>A driver only adds to the history, and only events with a property \<open>P\<close>.\<close>

definition adds :: "(io_event \<Rightarrow> bool) \<Rightarrow> io_trace \<Rightarrow> io_trace \<Rightarrow> bool" where
  "adds P tr tr' \<longleftrightarrow> (\<exists>evs. tr' = evs @ tr \<and> list_all P evs)"

definition emits :: "(io_event \<Rightarrow> bool) \<Rightarrow> io_trace \<Rightarrow> ('a \<times> io_trace) option \<Rightarrow> bool" where
  "emits P tr r \<longleftrightarrow> (\<forall>a tr'. r = Some (a, tr') \<longrightarrow> adds P tr tr')"

definition emits_only :: "(io_event \<Rightarrow> bool) \<Rightarrow> io_trace \<Rightarrow> io_trace option \<Rightarrow> bool" where
  "emits_only P tr r \<longleftrightarrow> (\<forall>tr'. r = Some tr' \<longrightarrow> adds P tr tr')"

named_theorems emit_rules \<open>rules for what programs add to the history\<close>

lemma adds_refl [simp]: "adds P tr tr"
  by (simp add: adds_def)

lemma adds_trans: "adds P tr tr1 \<Longrightarrow> adds P tr1 tr2 \<Longrightarrow> adds P tr tr2"
  by (auto simp: adds_def)

lemma adds_Cons [simp, intro]: "adds P tr tr1 \<Longrightarrow> P e \<Longrightarrow> adds P tr (e # tr1)"
  unfolding adds_def by (metis append_Cons list.pred_inject(2))

lemma adds_write: "P (Out p b) \<Longrightarrow> adds P tr (port_write_byte p b tr)"
  by (simp add: port_write_byte_def)

lemma emits_Some [emit_rules]: "adds P tr tr' \<Longrightarrow> emits P tr (Some (a, tr'))"
  by (simp add: emits_def)

lemma emits_only_Some [emit_rules]: "adds P tr tr' \<Longrightarrow> emits_only P tr (Some tr')"
  by (simp add: emits_only_def)

lemma emits_bind:
  assumes "emits P tr m" "\<And>a tr'. m = Some (a, tr') \<Longrightarrow> emits P tr' (f (a, tr'))"
  shows "emits P tr (Option.bind m f)"
  using assms unfolding emits_def by (cases m) (auto intro: adds_trans)

lemma emits_bind_only:
  assumes "emits_only P tr m" "\<And>tr'. m = Some tr' \<Longrightarrow> emits P tr' (f tr')"
  shows "emits P tr (Option.bind m f)"
  using assms unfolding emits_def emits_only_def by (cases m) (auto intro: adds_trans)

lemma emits_only_bind:
  assumes "emits P tr m" "\<And>a tr'. m = Some (a, tr') \<Longrightarrow> emits_only P tr' (f (a, tr'))"
  shows "emits_only P tr (Option.bind m f)"
  using assms unfolding emits_def emits_only_def by (cases m) (auto intro: adds_trans)

lemma emits_only_bind_only:
  assumes "emits_only P tr m" "\<And>tr'. m = Some tr' \<Longrightarrow> emits_only P tr' (f tr')"
  shows "emits_only P tr (Option.bind m f)"
  using assms unfolding emits_only_def by (cases m) (auto intro: adds_trans)

lemma emits_after: "adds P tr tr1 \<Longrightarrow> emits P tr1 r \<Longrightarrow> emits P tr r"
  by (auto simp: emits_def intro: adds_trans)

lemma emits_only_after: "adds P tr tr1 \<Longrightarrow> emits_only P tr1 r \<Longrightarrow> emits_only P tr r"
  by (auto simp: emits_only_def intro: adds_trans)

lemma emits_read [emit_rules]:
  assumes "\<And>b. P (In port b)"
  shows "emits P tr (port_read_byte dev port tr)"
  using assms by (simp add: emits_def port_read_byte_def)

lemma emits_poll_limited [emit_rules]:
  assumes "\<And>b. P (In port b)"
  shows "emits P tr (poll_limited dev port ready n tr)"
proof (induction n arbitrary: tr)
  case (Suc n)
  have "emits P tr (poll_limited dev port ready n (In port b # tr))" for b
    by (rule emits_after [OF _ Suc.IH]) (use assms in simp)
  then show ?case using assms by (simp add: port_read_byte_def emits_Some)
qed (simp add: emits_Some)

lemma poll_until_adds:
  assumes "poll_until dev port ready tr = Some tr'"
  shows "(\<forall>b. P (In port b)) \<longrightarrow> adds P tr tr'"
proof (rule poll_until.raw_induct [OF _ assms, where P = "\<lambda>dev port ready tr tr'. (\<forall>b. P (In port b)) \<longrightarrow> adds P tr tr'"])
  fix f dev port ready tr tr'
  assume ih: "\<And>dev port ready tr y. f dev port ready tr = Some y \<Longrightarrow> (\<forall>b. P (In port b)) \<longrightarrow> adds P tr y"
    and step: "Option.bind (port_read_byte dev port tr)
      (\<lambda>(b, tr'). if ready b then Some tr' else f dev port ready tr') = Some tr'"
  show "(\<forall>b. P (In port b)) \<longrightarrow> adds P tr tr'"
  proof
    assume p: "\<forall>b. P (In port b)"
    then have "adds P tr (In port (dev tr port) # tr)" by simp
    from adds_trans [OF this] have s: "adds P tr tr'" if "adds P (In port (dev tr port) # tr) tr'"
      using that by blast
    with step p ih [of dev port ready "In port (dev tr port) # tr" tr'] show "adds P tr tr'"
      by (auto simp: port_read_byte_def split: if_splits)
  qed
qed

lemma emits_poll_until [emit_rules]:
  assumes "\<And>b. P (In port b)"
  shows "emits_only P tr (poll_until dev port ready tr)"
  using assms poll_until_adds by (auto simp: emits_only_def)

text \<open>A poll ends as soon as the device is ready: after \<open>n\<close> futile reads.\<close>

fun futile_reads :: "device \<Rightarrow> u16 \<Rightarrow> nat \<Rightarrow> io_trace \<Rightarrow> io_trace" where
  "futile_reads dev port 0 tr = tr"
| "futile_reads dev port (Suc n) tr = futile_reads dev port n (In port (dev tr port) # tr)"

definition ready_after :: "device \<Rightarrow> u16 \<Rightarrow> (u8 \<Rightarrow> bool) \<Rightarrow> nat \<Rightarrow> io_trace \<Rightarrow> bool" where
  "ready_after dev port ready n tr \<longleftrightarrow>
     (\<forall>k<n. \<not> ready (dev (futile_reads dev port k tr) port)) \<and> ready (dev (futile_reads dev port n tr) port)"

lemma ready_after_Suc:
  "ready_after dev port ready (Suc n) tr \<longleftrightarrow>
     \<not> ready (dev tr port) \<and> ready_after dev port ready n (In port (dev tr port) # tr)"
proof -
  have "(\<forall>k<Suc n. Q k) \<longleftrightarrow> Q 0 \<and> (\<forall>k<n. Q (Suc k))" for Q :: "nat \<Rightarrow> bool"
    by (metis less_Suc_eq_0_disj)
  then show ?thesis by (simp add: ready_after_def)
qed

lemma poll_until_ready:
  "ready_after dev port ready n tr \<Longrightarrow>
     poll_until dev port ready tr = Some (futile_reads dev port (Suc n) tr)"
proof (induction n arbitrary: tr)
  case 0
  then show ?case by (subst poll_until.simps) (simp add: port_read_byte_def ready_after_def)
next
  case (Suc n)
  then show ?case by (subst poll_until.simps) (simp add: port_read_byte_def ready_after_Suc)
qed

lemma poll_limited_ready:
  "ready_after dev port ready n tr \<Longrightarrow> n < limit \<Longrightarrow>
     poll_limited dev port ready limit tr = Some (True, futile_reads dev port (Suc n) tr)"
proof (induction n arbitrary: tr limit)
  case 0
  then obtain l where "limit = Suc l" by (cases limit) auto
  with 0 show ?case by (simp add: port_read_byte_def ready_after_def)
next
  case (Suc n)
  then obtain l where "limit = Suc l" "n < l" by (cases limit) auto
  with Suc show ?case by (simp add: port_read_byte_def ready_after_Suc)
qed

lemma poll_limited_timeout:
  "(\<forall>k<limit. \<not> ready (dev (futile_reads dev port k tr) port)) \<Longrightarrow>
     poll_limited dev port ready limit tr = Some (False, futile_reads dev port limit tr)"
proof (induction limit arbitrary: tr)
  case (Suc l)
  have "\<not> ready (dev tr port)" using Suc.prems by (metis futile_reads.simps(1) zero_less_Suc)
  moreover have "\<forall>k<l. \<not> ready (dev (futile_reads dev port k (In port (dev tr port) # tr)) port)"
    using Suc.prems by (metis Suc_less_eq futile_reads.simps(2))
  ultimately show ?case using Suc.IH by (simp add: port_read_byte_def)
qed simp

section \<open>What reaches a port\<close>

text \<open>The bytes written to a port, oldest first.\<close>

fun written :: "u16 \<Rightarrow> io_trace \<Rightarrow> u8 list" where
  "written port [] = []"
| "written port (Out p b # tr) = (if p = port then written port tr @ [b] else written port tr)"
| "written port (In p b # tr) = written port tr"

text \<open>A device whose status register, after any history, is ready after finitely many reads.\<close>

definition gets_ready :: "device \<Rightarrow> u16 \<Rightarrow> (u8 \<Rightarrow> bool) \<Rightarrow> bool" where
  "gets_ready dev port ready \<longleftrightarrow> (\<forall>tr. \<exists>n. ready_after dev port ready n tr)"

lemma written_futile [simp]: "written port (futile_reads dev p n tr) = written port tr"
  by (induction n arbitrary: tr) auto

lemma written_writes [simp]: "written port (port_write_byte p b tr) =
    (if p = port then written port tr @ [b] else written port tr)"
  by (simp add: port_write_byte_def)

end
