(* ===== verification/Ps2.thy ===== *)
theory Ps2
  imports PortIO
begin

text \<open>
  The transfer layer of the PS/2 controller driver (kernel/src/drivers/ps2.c, ps2.h): commands, bytes
  with timeouts and resends, reset and identification of devices. The initialization of the
  controller, which also starts the keyboard driver, is in Ps2Init. Waiting for the controller to
  take a command has no limit in the code, so it may be \<open>None\<close>; all other waits end after
  \<open>PS2_TIMEOUT\<close> polls.
\<close>

section \<open>Constants\<close>

abbreviation (input) PS2_PORT_CMD :: u8 where "PS2_PORT_CMD \<equiv> 0"
abbreviation (input) PS2_PORT_1 :: u8 where "PS2_PORT_1 \<equiv> 1"
abbreviation (input) PS2_PORT_2 :: u8 where "PS2_PORT_2 \<equiv> 2"
abbreviation (input) PS2_DATA :: u16 where "PS2_DATA \<equiv> 0x60"
abbreviation (input) PS2_COMMAND :: u16 where "PS2_COMMAND \<equiv> 0x64"
abbreviation (input) PS2_STATUS :: u16 where "PS2_STATUS \<equiv> 0x64"
abbreviation (input) PS2_MAX_RESENDS :: nat where "PS2_MAX_RESENDS \<equiv> 5"

text \<open>A definition, so that proofs do not count down from it.\<close>

definition PS2_TIMEOUT :: nat where "PS2_TIMEOUT = 100000"

lemma PS2_TIMEOUT_pos: "0 < PS2_TIMEOUT"
  by (simp add: PS2_TIMEOUT_def)

abbreviation (input) PS2_CMD_READ_CONFIG_BYTE :: u8 where "PS2_CMD_READ_CONFIG_BYTE \<equiv> 0x20"
abbreviation (input) PS2_CMD_WRITE_CONFIG_BYTE :: u8 where "PS2_CMD_WRITE_CONFIG_BYTE \<equiv> 0x60"
abbreviation (input) PS2_CMD_DISABLE_PORT_2 :: u8 where "PS2_CMD_DISABLE_PORT_2 \<equiv> 0xa7"
abbreviation (input) PS2_CMD_ENABLE_PORT_2 :: u8 where "PS2_CMD_ENABLE_PORT_2 \<equiv> 0xa8"
abbreviation (input) PS2_CMD_TEST_PORT_2 :: u8 where "PS2_CMD_TEST_PORT_2 \<equiv> 0xa9"
abbreviation (input) PS2_CMD_TEST_CONTROLLER :: u8 where "PS2_CMD_TEST_CONTROLLER \<equiv> 0xaa"
abbreviation (input) PS2_CMD_TEST_PORT_1 :: u8 where "PS2_CMD_TEST_PORT_1 \<equiv> 0xab"
abbreviation (input) PS2_CMD_DISABLE_PORT_1 :: u8 where "PS2_CMD_DISABLE_PORT_1 \<equiv> 0xad"
abbreviation (input) PS2_CMD_ENABLE_PORT_1 :: u8 where "PS2_CMD_ENABLE_PORT_1 \<equiv> 0xae"
abbreviation (input) PS2_CMD_SEND_NEXT_BYTE_TO_PORT_2 :: u8 where "PS2_CMD_SEND_NEXT_BYTE_TO_PORT_2 \<equiv> 0xd4"

abbreviation (input) PS2_DEV_CMD_ECHO :: u8 where "PS2_DEV_CMD_ECHO \<equiv> 0xee"
abbreviation (input) PS2_DEV_CMD_IDENTIFY :: u8 where "PS2_DEV_CMD_IDENTIFY \<equiv> 0xf2"
abbreviation (input) PS2_DEV_CMD_DISABLE_SCANNING :: u8 where "PS2_DEV_CMD_DISABLE_SCANNING \<equiv> 0xf5"
abbreviation (input) PS2_DEV_CMD_RESET :: u8 where "PS2_DEV_CMD_RESET \<equiv> 0xff"
abbreviation (input) PS2_DEV_ACK :: u8 where "PS2_DEV_ACK \<equiv> 0xfa"
abbreviation (input) PS2_DEV_RESEND :: u8 where "PS2_DEV_RESEND \<equiv> 0xfe"
abbreviation (input) PS2_DEV_SELFTEST_PASSED :: u8 where "PS2_DEV_SELFTEST_PASSED \<equiv> 0xaa"
abbreviation (input) PS2_DEV_ECHO :: u8 where "PS2_DEV_ECHO \<equiv> 0xee"

abbreviation (input) PS2_KBD_AT :: u32 where "PS2_KBD_AT \<equiv> 0x01ffff"
abbreviation (input) PS2_KBD_MF2_1 :: u32 where "PS2_KBD_MF2_1 \<equiv> 0xab83"
abbreviation (input) PS2_KBD_MF2_2 :: u32 where "PS2_KBD_MF2_2 \<equiv> 0xabc1"
abbreviation (input) PS2_MOUSE_STANDARD :: u32 where "PS2_MOUSE_STANDARD \<equiv> 0x0000"
abbreviation (input) PS2_MOUSE_SCROLL_WHEEL :: u32 where "PS2_MOUSE_SCROLL_WHEEL \<equiv> 0x0300"
abbreviation (input) PS2_MOUSE_5_BUTTONS :: u32 where "PS2_MOUSE_5_BUTTONS \<equiv> 0x0400"

datatype ps2_error_codes_t =
  PS2_OK | PS2_ERROR_CONTROLLER_TEST_FAILED | PS2_ERROR_PORT_TEST_FAILED | PS2_ERROR_NO_WORKING_PORTS
  | PS2_ERROR_DEVICE_RESET_FAILED | PS2_ERROR_TIMEOUT | PS2_ERROR_NO_ACK

definition ps2_device_is_keyboard :: "u32 \<Rightarrow> bool" where
  "ps2_device_is_keyboard device_type \<longleftrightarrow>
     device_type = PS2_KBD_AT \<or> device_type = PS2_KBD_MF2_1 \<or> device_type = PS2_KBD_MF2_2"

definition ps2_device_is_mouse :: "u32 \<Rightarrow> bool" where
  "ps2_device_is_mouse device_type \<longleftrightarrow>
     device_type = PS2_MOUSE_STANDARD \<or> device_type = PS2_MOUSE_SCROLL_WHEEL \<or> device_type = PS2_MOUSE_5_BUTTONS"

section \<open>The controller\<close>

text \<open>The two status bits, as tests of the byte read from the status port.\<close>

definition ps2_output_buffer_full :: "u8 \<Rightarrow> bool" where
  "ps2_output_buffer_full b \<longleftrightarrow> b AND 1 \<noteq> 0"

definition ps2_input_buffer_full :: "u8 \<Rightarrow> bool" where
  "ps2_input_buffer_full b \<longleftrightarrow> b AND 2 \<noteq> 0"

definition ps2_send_command :: "device \<Rightarrow> u8 \<Rightarrow> io_trace \<Rightarrow> io_trace option" where
  "ps2_send_command dev command tr =
     do {
       tr \<leftarrow> poll_until dev PS2_STATUS (\<lambda>b. \<not> ps2_input_buffer_full b) tr;
       Some (port_write_byte PS2_COMMAND command tr)
     }"

partial_function (option) ps2_flush_output_buffer :: "device \<Rightarrow> io_trace \<Rightarrow> io_trace option" where
  [code]: "ps2_flush_output_buffer dev tr =
     do {
       (b, tr) \<leftarrow> port_read_byte dev PS2_STATUS tr;
       if ps2_output_buffer_full b then
         do {
           (_, tr) \<leftarrow> port_read_byte dev PS2_DATA tr;
           ps2_flush_output_buffer dev tr
         }
       else Some tr
     }"

definition ps2_raw_send_byte :: "device \<Rightarrow> u8 \<Rightarrow> u8 \<Rightarrow> io_trace \<Rightarrow> (ps2_error_codes_t \<times> io_trace) option" where
  "ps2_raw_send_byte dev port data tr =
     do {
       tr \<leftarrow> (if port = PS2_PORT_2 then ps2_send_command dev PS2_CMD_SEND_NEXT_BYTE_TO_PORT_2 tr else Some tr);
       (ready, tr) \<leftarrow> poll_limited dev PS2_STATUS (\<lambda>b. \<not> ps2_input_buffer_full b) PS2_TIMEOUT tr;
       Some (if ready then (PS2_OK, port_write_byte PS2_DATA data tr) else (PS2_ERROR_TIMEOUT, tr))
     }"

text \<open>The byte is what \<open>*dest\<close> gets: 0 after a timeout.\<close>

definition ps2_receive_byte :: "device \<Rightarrow> io_trace \<Rightarrow> ((ps2_error_codes_t \<times> u8) \<times> io_trace) option" where
  "ps2_receive_byte dev tr =
     do {
       (ready, tr) \<leftarrow> poll_limited dev PS2_STATUS ps2_output_buffer_full PS2_TIMEOUT tr;
       if ready then
         do {
           (b, tr) \<leftarrow> port_read_byte dev PS2_DATA tr;
           Some ((PS2_OK, b), tr)
         }
       else Some ((PS2_ERROR_TIMEOUT, 0), tr)
     }"

text \<open>The loop over the attempts, with \<open>n\<close> of them left.\<close>

fun ps2_send_attempts :: "device \<Rightarrow> u8 \<Rightarrow> u8 \<Rightarrow> nat \<Rightarrow> io_trace \<Rightarrow> (ps2_error_codes_t \<times> io_trace) option" where
  "ps2_send_attempts dev port data 0 tr = Some (PS2_ERROR_NO_ACK, tr)"
| "ps2_send_attempts dev port data (Suc n) tr =
     do {
       (c, tr) \<leftarrow> ps2_raw_send_byte dev port data tr;
       if c \<noteq> PS2_OK then ps2_send_attempts dev port data n tr
       else do {
         ((c, response), tr) \<leftarrow> ps2_receive_byte dev tr;
         if c \<noteq> PS2_OK then ps2_send_attempts dev port data n tr
         else if response = PS2_DEV_RESEND then ps2_send_attempts dev port data n tr
         else if response = PS2_DEV_ACK then Some (PS2_OK, tr)
         else if response = PS2_DEV_ECHO \<and> data = PS2_DEV_CMD_ECHO then Some (PS2_OK, tr)
         else ps2_send_attempts dev port data n tr
       }
     }"

definition ps2_send_byte :: "device \<Rightarrow> u8 \<Rightarrow> u8 \<Rightarrow> io_trace \<Rightarrow> (ps2_error_codes_t \<times> io_trace) option" where
  "ps2_send_byte dev port data tr = ps2_send_attempts dev port data PS2_MAX_RESENDS tr"

definition ps2_reset_device :: "device \<Rightarrow> u8 \<Rightarrow> io_trace \<Rightarrow> (ps2_error_codes_t \<times> io_trace) option" where
  "ps2_reset_device dev port tr =
     do {
       (c, tr) \<leftarrow> ps2_send_byte dev port PS2_DEV_CMD_RESET tr;
       if c = PS2_ERROR_NO_ACK then Some (PS2_ERROR_NO_ACK, tr)
       else do {
         ((c, response), tr) \<leftarrow> ps2_receive_byte dev tr;
         if c = PS2_ERROR_TIMEOUT then Some (PS2_ERROR_TIMEOUT, tr)
         else if response = PS2_DEV_SELFTEST_PASSED then Some (PS2_OK, tr)
         else Some (PS2_ERROR_DEVICE_RESET_FAILED, tr)
       }
     }"

text \<open>\<open>device_type\<close> is what \<open>*device_type\<close> holds before and after: it is not written if an error is returned.\<close>

definition ps2_identify_device ::
    "device \<Rightarrow> u8 \<Rightarrow> u32 \<Rightarrow> io_trace \<Rightarrow> ((ps2_error_codes_t \<times> u32) \<times> io_trace) option" where
  "ps2_identify_device dev port device_type tr =
     do {
       tr \<leftarrow> ps2_flush_output_buffer dev tr;
       (c, tr) \<leftarrow> ps2_send_byte dev port PS2_DEV_CMD_DISABLE_SCANNING tr;
       if c = PS2_ERROR_NO_ACK then Some ((PS2_ERROR_NO_ACK, device_type), tr)
       else do {
         tr \<leftarrow> ps2_send_command dev PS2_CMD_READ_CONFIG_BYTE tr;
         ((c, config), tr) \<leftarrow> ps2_receive_byte dev tr;
         if c = PS2_ERROR_TIMEOUT then Some ((PS2_ERROR_TIMEOUT, device_type), tr)
         else do {
           tr \<leftarrow> ps2_send_command dev PS2_CMD_WRITE_CONFIG_BYTE tr;
           (_, tr) \<leftarrow> ps2_raw_send_byte dev PS2_PORT_CMD (config AND NOT (push_bit 6 1)) tr;
           (c, tr) \<leftarrow> ps2_send_byte dev port PS2_DEV_CMD_IDENTIFY tr;
           if c = PS2_ERROR_NO_ACK then Some ((PS2_ERROR_NO_ACK, device_type), tr)
           else do {
             ((c, response), tr) \<leftarrow> ps2_receive_byte dev tr;
             (device_type, tr) \<leftarrow>
               (if c = PS2_OK then
                  (let device_type = push_bit 8 (ucast response) :: u32
                   in do {
                        ((c, response), tr) \<leftarrow> ps2_receive_byte dev tr;
                        Some (if c = PS2_OK then device_type OR ucast response else device_type, tr)
                      })
                else Some (PS2_KBD_AT, tr));
             tr \<leftarrow> ps2_send_command dev PS2_CMD_WRITE_CONFIG_BYTE tr;
             (_, tr) \<leftarrow> ps2_raw_send_byte dev PS2_PORT_CMD config tr;
             Some ((PS2_OK, device_type), tr)
           }
         }
       }
     }"

section \<open>What the driver sends\<close>

text \<open>
  Everything the layer writes to the command port is an argument of \<open>ps2_send_command\<close> here; a
  property of the events is kept by each operation if its commands and data have it.
\<close>

definition io_ok :: "(io_event \<Rightarrow> bool) \<Rightarrow> bool" where
  "io_ok P \<longleftrightarrow> (\<forall>p b. P (In p b)) \<and> (\<forall>b. P (Out PS2_DATA b))"

lemma emits_send_command [emit_rules]:
  "io_ok P \<Longrightarrow> P (Out PS2_COMMAND command) \<Longrightarrow> emits_only P tr (ps2_send_command dev command tr)"
  unfolding ps2_send_command_def
  by (intro emits_only_bind_only emits_poll_until emits_only_Some adds_write) (simp_all add: io_ok_def)

lemma emits_raw_send_byte [emit_rules]:
  assumes "io_ok P" "P (Out PS2_COMMAND PS2_CMD_SEND_NEXT_BYTE_TO_PORT_2)"
  shows "emits P tr (ps2_raw_send_byte dev port data tr)"
proof -
  have "emits_only P tr (if port = PS2_PORT_2 then ps2_send_command dev PS2_CMD_SEND_NEXT_BYTE_TO_PORT_2 tr else Some tr)"
    using assms by (auto intro: emit_rules)
  then show ?thesis
    unfolding ps2_raw_send_byte_def
    by (rule emits_bind_only) (use assms in \<open>auto intro!: emits_bind emits_poll_limited emits_Some adds_write simp: io_ok_def\<close>)
qed

lemma emits_receive_byte [emit_rules]:
  "io_ok P \<Longrightarrow> emits P tr (ps2_receive_byte dev tr)"
  unfolding ps2_receive_byte_def
  by (auto intro!: emits_bind emits_poll_limited emits_read emits_Some simp: io_ok_def)

lemma emits_send_attempts [emit_rules]:
  assumes "io_ok P" "P (Out PS2_COMMAND PS2_CMD_SEND_NEXT_BYTE_TO_PORT_2)"
  shows "emits P tr (ps2_send_attempts dev port data n tr)"
proof (induction n arbitrary: tr)
  case (Suc n)
  then show ?case
    by (auto intro!: emits_bind emits_raw_send_byte [OF assms] emits_receive_byte [OF assms(1)] emits_Some)
qed (simp add: emits_Some)

lemma emits_send_byte [emit_rules]:
  assumes "io_ok P" "P (Out PS2_COMMAND PS2_CMD_SEND_NEXT_BYTE_TO_PORT_2)"
  shows "emits P tr (ps2_send_byte dev port data tr)"
  unfolding ps2_send_byte_def by (rule emits_send_attempts [OF assms])

section \<open>Termination\<close>

lemma poll_limited_total: "\<exists>r tr'. poll_limited dev port ready n tr = Some (r, tr')"
proof -
  have "poll_limited dev port ready n tr \<noteq> None"
    by (induction n arbitrary: tr) (auto simp: port_read_byte_def simp del: not_None_eq)
  then show ?thesis by auto
qed

lemma receive_total: "\<exists>c b tr'. ps2_receive_byte dev tr = Some ((c, b), tr')"
proof -
  obtain r tr1 where "poll_limited dev PS2_STATUS ps2_output_buffer_full PS2_TIMEOUT tr = Some (r, tr1)"
    using poll_limited_total by blast
  then show ?thesis by (simp add: ps2_receive_byte_def port_read_byte_def)
qed

lemma raw_send_total:
  assumes "port \<noteq> PS2_PORT_2"
  shows "\<exists>c tr'. ps2_raw_send_byte dev port data tr = Some (c, tr')"
proof -
  obtain r tr1 where "poll_limited dev PS2_STATUS (\<lambda>b. \<not> ps2_input_buffer_full b) PS2_TIMEOUT tr = Some (r, tr1)"
    using poll_limited_total by blast
  with assms show ?thesis by (simp add: ps2_raw_send_byte_def)
qed

lemma send_attempts_total:
  assumes "port \<noteq> PS2_PORT_2"
  shows "\<exists>c tr'. ps2_send_attempts dev port data n tr = Some (c, tr')"
proof (induction n arbitrary: tr)
  case (Suc n)
  obtain c tr1 where c: "ps2_raw_send_byte dev port data tr = Some (c, tr1)"
    using raw_send_total [OF assms] by blast
  obtain d b tr2 where d: "ps2_receive_byte dev tr1 = Some ((d, b), tr2)"
    using receive_total by blast
  show ?case using Suc.IH [of tr1] Suc.IH [of tr2] by (auto simp: c d)
qed simp

lemma poll_until_never_ready:
  assumes "\<And>tr. \<not> ready (dev tr port)"
  shows "poll_until dev port ready tr = None"
proof (rule ccontr)
  assume "poll_until dev port ready tr \<noteq> None"
  then obtain tr' where "poll_until dev port ready tr = Some tr'" by blast
  then have "(\<forall>tr. \<not> ready (dev tr port)) \<longrightarrow> False"
  proof (rule poll_until.raw_induct [rotated])
    fix f dev port ready tr tr'
    assume ih: "\<And>dev port ready tr y. f dev port ready tr = Some y \<Longrightarrow> (\<forall>tr. \<not> ready (dev tr port)) \<longrightarrow> False"
      and step: "Option.bind (port_read_byte dev port tr)
        (\<lambda>(b, tr'). if ready b then Some tr' else f dev port ready tr') = Some tr'"
    show "(\<forall>tr. \<not> ready (dev tr port)) \<longrightarrow> False"
    proof
      assume never: "\<forall>tr. \<not> ready (dev tr port)"
      with step have "f dev port ready (In port (dev tr port) # tr) = Some tr'"
        by (simp add: port_read_byte_def)
      from ih [OF this] never show False by blast
    qed
  qed
  with assms show False by blast
qed

section \<open>Transmissions to a responsive device\<close>

text \<open>
  A controller that takes and delivers bytes in time, with a device whose answers depend on the bytes
  sent to the data port so far.
\<close>

definition responsive :: "device \<Rightarrow> (u8 list \<Rightarrow> u8) \<Rightarrow> bool" where
  "responsive dev answer \<longleftrightarrow>
     (\<forall>tr. (\<exists>n<PS2_TIMEOUT. ready_after dev PS2_STATUS (\<lambda>b. \<not> ps2_input_buffer_full b) n tr) \<and>
           (\<exists>n<PS2_TIMEOUT. ready_after dev PS2_STATUS ps2_output_buffer_full n tr) \<and>
           dev tr PS2_DATA = answer (written PS2_DATA tr))"

definition accepted :: "u8 \<Rightarrow> u8 \<Rightarrow> bool" where
  "accepted data response \<longleftrightarrow> response = PS2_DEV_ACK \<or> response = PS2_DEV_ECHO \<and> data = PS2_DEV_CMD_ECHO"

lemma send_command_responsive:
  assumes "responsive dev answer"
  shows "\<exists>tr'. ps2_send_command dev command tr = Some tr' \<and> written PS2_DATA tr' = written PS2_DATA tr"
proof -
  obtain n where "ready_after dev PS2_STATUS (\<lambda>b. \<not> ps2_input_buffer_full b) n tr"
    using assms by (auto simp: responsive_def)
  from poll_until_ready [OF this] show ?thesis
    by (simp add: ps2_send_command_def del: futile_reads.simps)
qed

lemma raw_send_responsive:
  assumes "responsive dev answer"
  shows "\<exists>tr'. ps2_raw_send_byte dev port data tr = Some (PS2_OK, tr') \<and>
    written PS2_DATA tr' = written PS2_DATA tr @ [data]"
proof -
  obtain tr1 where tr1: "(if port = PS2_PORT_2 then ps2_send_command dev PS2_CMD_SEND_NEXT_BYTE_TO_PORT_2 tr else Some tr) = Some tr1"
    "written PS2_DATA tr1 = written PS2_DATA tr"
    using send_command_responsive [OF assms] by (cases "port = PS2_PORT_2") auto
  obtain n where n: "n < PS2_TIMEOUT" "ready_after dev PS2_STATUS (\<lambda>b. \<not> ps2_input_buffer_full b) n tr1"
    using assms unfolding responsive_def by blast
  show ?thesis
    unfolding ps2_raw_send_byte_def tr1(1) bind.bind_lunit poll_limited_ready [OF n(2,1)]
    by (simp add: tr1(2) del: futile_reads.simps)
qed

lemma receive_responsive:
  assumes "responsive dev answer"
  shows "\<exists>tr'. ps2_receive_byte dev tr = Some ((PS2_OK, answer (written PS2_DATA tr)), tr') \<and>
    written PS2_DATA tr' = written PS2_DATA tr"
proof -
  obtain n where n: "n < PS2_TIMEOUT" "ready_after dev PS2_STATUS ps2_output_buffer_full n tr"
    using assms unfolding responsive_def by blast
  have "dev tr' PS2_DATA = answer (written PS2_DATA tr')" for tr'
    using assms by (simp add: responsive_def)
  then show ?thesis
    unfolding ps2_receive_byte_def poll_limited_ready [OF n(2,1)]
    by (simp add: port_read_byte_def del: futile_reads.simps)
qed

lemma send_attempts_responsive:
  assumes "responsive dev answer" "ws = written PS2_DATA tr"
  shows "\<exists>c k tr'. ps2_send_attempts dev port data n tr = Some (c, tr') \<and> k \<le> n \<and>
    written PS2_DATA tr' = ws @ replicate k data \<and>
    (\<forall>j. 0 < j \<and> j < k \<longrightarrow> \<not> accepted data (answer (ws @ replicate j data))) \<and>
    (if c = PS2_OK then 0 < k \<and> accepted data (answer (ws @ replicate k data))
     else c = PS2_ERROR_NO_ACK \<and> k = n \<and> (0 < k \<longrightarrow> \<not> accepted data (answer (ws @ replicate k data))))"
  using assms(2)
proof (induction n arbitrary: tr ws)
  case (Suc n)
  obtain tr1 where tr1: "ps2_raw_send_byte dev port data tr = Some (PS2_OK, tr1)"
    "written PS2_DATA tr1 = ws @ [data]"
    using raw_send_responsive [OF assms(1)] Suc.prems by blast
  let ?r = "answer (ws @ [data])"
  obtain tr2 where tr2: "ps2_receive_byte dev tr1 = Some ((PS2_OK, ?r), tr2)" "written PS2_DATA tr2 = ws @ [data]"
    using receive_responsive [OF assms(1), of tr1] tr1(2) by auto
  show ?case
  proof (cases "accepted data ?r")
    case True
    then have "ps2_send_attempts dev port data (Suc n) tr = Some (PS2_OK, tr2)"
      by (auto simp: tr1(1) tr2(1) accepted_def)
    with True tr2(2) show ?thesis by (intro exI [of _ PS2_OK] exI [of _ 1] exI [of _ tr2]) auto
  next
    case False
    then have step: "ps2_send_attempts dev port data (Suc n) tr = ps2_send_attempts dev port data n tr2"
      by (auto simp: tr1(1) tr2(1) accepted_def)
    obtain c k tr' where r: "ps2_send_attempts dev port data n tr2 = Some (c, tr')" "k \<le> n"
      "written PS2_DATA tr' = (ws @ [data]) @ replicate k data"
      "\<forall>j. 0 < j \<and> j < k \<longrightarrow> \<not> accepted data (answer ((ws @ [data]) @ replicate j data))"
      "if c = PS2_OK then 0 < k \<and> accepted data (answer ((ws @ [data]) @ replicate k data))
       else c = PS2_ERROR_NO_ACK \<and> k = n \<and> (0 < k \<longrightarrow> \<not> accepted data (answer ((ws @ [data]) @ replicate k data)))"
      using Suc.IH [of "ws @ [data]" tr2] tr2(2) by metis
    have shift: "(ws @ [data]) @ replicate j data = ws @ replicate (Suc j) data" for j by simp
    have early: "\<not> accepted data (answer (ws @ replicate j data))" if "0 < j" "j < Suc k" for j
      using that r(4) False unfolding shift by (cases j; cases "j = 1") auto
    show ?thesis unfolding step r(1)
      using r(2,3,5) False early unfolding shift
      by (intro exI [of _ c] exI [of _ "Suc k"] exI [of _ tr'] conjI allI impI) (auto split: if_splits)
  qed
qed auto

section \<open>Properties\<close>

text \<open>
  Sending a byte to a device at the first port ends, whatever the controller and the device do;
  to the second port it never ends if the controller's input buffer stays full, as selecting the
  port waits without a limit.
\<close>

theorem ps2_send_byte_termination:
  "(port \<noteq> PS2_PORT_2 \<longrightarrow> (\<exists>c tr'. ps2_send_byte dev port data tr = Some (c, tr'))) \<and>
   ((\<forall>tr. ps2_input_buffer_full (dev tr PS2_STATUS)) \<longrightarrow> ps2_send_byte dev PS2_PORT_2 data tr = None)"
proof (intro conjI impI)
  assume "port \<noteq> PS2_PORT_2"
  then show "\<exists>c tr'. ps2_send_byte dev port data tr = Some (c, tr')"
    unfolding ps2_send_byte_def by (rule send_attempts_total)
next
  assume "\<forall>tr. ps2_input_buffer_full (dev tr PS2_STATUS)"
  then have "ps2_send_command dev PS2_CMD_SEND_NEXT_BYTE_TO_PORT_2 tr = None"
    by (simp add: ps2_send_command_def poll_until_never_ready)
  then show "ps2_send_byte dev PS2_PORT_2 data tr = None"
    by (simp add: ps2_send_byte_def ps2_raw_send_byte_def eval_nat_numeral)
qed

lemma ps2_send_byte_termination_witness:
  "(\<exists>c tr'. ps2_send_byte (\<lambda>tr p. 0xff) PS2_PORT_1 0xf4 [] = Some (c, tr')) \<and>
   ps2_send_byte (\<lambda>tr p. 0xff) PS2_PORT_2 0xf4 [] = None"
  using ps2_send_byte_termination [of PS2_PORT_1 "\<lambda>tr p. 0xff" "0xf4" "[]"]
  by (simp add: ps2_input_buffer_full_def)

text \<open>
  To a responsive device the byte is sent until it is accepted, at most five times: the result is
  \<open>PS2_OK\<close> after the first attempt that the device answers with ACK (or with an echo to an echo), and
  \<open>PS2_ERROR_NO_ACK\<close> after five that it does not.
\<close>

theorem ps2_send_byte_resends:
  assumes "responsive dev answer"
  shows "\<exists>c k tr'. ps2_send_byte dev port data tr = Some (c, tr') \<and> k \<le> 5 \<and>
    written PS2_DATA tr' = written PS2_DATA tr @ replicate k data \<and>
    (\<forall>j. 0 < j \<and> j < k \<longrightarrow> \<not> accepted data (answer (written PS2_DATA tr @ replicate j data))) \<and>
    (if c = PS2_OK then 0 < k \<and> accepted data (answer (written PS2_DATA tr @ replicate k data))
     else c = PS2_ERROR_NO_ACK \<and> k = 5 \<and>
       (0 < k \<longrightarrow> \<not> accepted data (answer (written PS2_DATA tr @ replicate k data))))"
  unfolding ps2_send_byte_def by (rule send_attempts_responsive [OF assms refl])

text \<open>A device that asks twice to resend and then acknowledges.\<close>

definition demo_ps2 :: device where
  "demo_ps2 tr port = (if port = PS2_STATUS then 1 else if length (written PS2_DATA tr) < 3 then 0xfe else 0xfa)"

lemma demo_responsive: "responsive demo_ps2 (\<lambda>ws. if length ws < 3 then 0xfe else 0xfa)"
proof -
  have "ready_after demo_ps2 PS2_STATUS (\<lambda>b. \<not> ps2_input_buffer_full b) 0 tr"
    "ready_after demo_ps2 PS2_STATUS ps2_output_buffer_full 0 tr" for tr
    by (simp_all add: ready_after_def demo_ps2_def ps2_input_buffer_full_def ps2_output_buffer_full_def)
  then show ?thesis using PS2_TIMEOUT_pos by (auto simp: responsive_def demo_ps2_def)
qed

lemma ps2_send_byte_resends_witness:
  "\<exists>tr'. ps2_send_byte demo_ps2 PS2_PORT_1 0xf4 [] = Some (PS2_OK, tr') \<and>
     written PS2_DATA tr' = [0xf4, 0xf4, 0xf4]"
proof -
  let ?a = "\<lambda>ws :: u8 list. if length ws < 3 then 0xfe else 0xfa :: u8"
  obtain c k tr' where r: "ps2_send_byte demo_ps2 PS2_PORT_1 0xf4 [] = Some (c, tr')" "k \<le> 5"
    "written PS2_DATA tr' = replicate k 0xf4"
    "\<forall>j. 0 < j \<and> j < k \<longrightarrow> \<not> accepted 0xf4 (?a (replicate j 0xf4))"
    "if c = PS2_OK then 0 < k \<and> accepted 0xf4 (?a (replicate k 0xf4))
     else c = PS2_ERROR_NO_ACK \<and> k = 5 \<and> (0 < k \<longrightarrow> \<not> accepted 0xf4 (?a (replicate k 0xf4)))"
    using ps2_send_byte_resends [OF demo_responsive, of PS2_PORT_1 "0xf4" "[]"]
    unfolding written.simps append_Nil by blast
  have acc: "accepted 0xf4 (?a (replicate j 0xf4)) \<longleftrightarrow> 3 \<le> j" for j by (simp add: accepted_def)
  have "c = PS2_OK" "3 \<le> k" using r(5) unfolding acc by (auto split: if_splits)
  moreover have "\<not> 3 < k" using r(4) unfolding acc by (metis le_refl zero_less_numeral)
  ultimately show ?thesis using r(1,3) by (auto simp: eval_nat_numeral)
qed

end
