(* ===== verification/KeyCodes.thy ===== *)
theory KeyCodes
  imports Prelude
begin

text \<open>
  The key codes of kernel/include/drivers/keyboard.h. The enum is an unsigned integer in C and the
  tables are indexed by it, so a key code is a natural number; \<open>key_codes\<close> lists the enumerators in
  their order, and each name abbreviates its position. The umlauts and the sharp s of the source's
  names are written AE, OE, UE and SZ.
\<close>

type_synonym key_code_t = nat

definition key_codes :: "string list" where
  "key_codes =
     [''KEY_UNKNOWN'', ''KEY_ESC'', ''KEY_F1'', ''KEY_F2'', ''KEY_F3'', ''KEY_F4'', ''KEY_F5'',
      ''KEY_F6'', ''KEY_F7'', ''KEY_F8'', ''KEY_F9'', ''KEY_F10'', ''KEY_F11'', ''KEY_F12'',
      ''KEY_CIRCUMFLEX'', ''KEY_1'', ''KEY_2'', ''KEY_3'', ''KEY_4'', ''KEY_5'', ''KEY_6'',
      ''KEY_7'', ''KEY_8'', ''KEY_9'', ''KEY_0'', ''KEY_SZ'', ''KEY_BACK_TICK'', ''KEY_BACKSPACE'',
      ''KEY_TAB'', ''KEY_Q'', ''KEY_W'', ''KEY_E'', ''KEY_R'', ''KEY_T'', ''KEY_Z'', ''KEY_U'',
      ''KEY_I'', ''KEY_O'', ''KEY_P'', ''KEY_UE'', ''KEY_PLUS'', ''KEY_ENTER'', ''KEY_CAPS_LOCK'',
      ''KEY_A'', ''KEY_S'', ''KEY_D'', ''KEY_F'', ''KEY_G'', ''KEY_H'', ''KEY_J'', ''KEY_K'',
      ''KEY_L'', ''KEY_OE'', ''KEY_AE'', ''KEY_HASHTAG'', ''KEY_LSHIFT'', ''KEY_LESS_THEN'',
      ''KEY_Y'', ''KEY_X'', ''KEY_C'', ''KEY_V'', ''KEY_B'', ''KEY_N'', ''KEY_M'', ''KEY_COMMA'',
      ''KEY_PERIOD'', ''KEY_MINUS'', ''KEY_RSHIFT'', ''KEY_LSTRG'', ''KEY_LSUPER'', ''KEY_ALT'',
      ''KEY_SPACE'', ''KEY_ALTGR'', ''KEY_RSUPER'', ''KEY_MENU'', ''KEY_RSTRG'', ''KEY_UP'',
      ''KEY_LEFT'', ''KEY_DOWN'', ''KEY_RIGHT'', ''KEY_PRINT_SCREEN'', ''KEY_SCROLL_LOCK'',
      ''KEY_PAUSE'', ''KEY_INSERT'', ''KEY_POS1'', ''KEY_PAGE_UP'', ''KEY_DEL'', ''KEY_END'',
      ''KEY_PAGE_DOWN'', ''KEY_NUM_LOCK'', ''KEY_KEYPAD_SLASH'', ''KEY_KEYPAD_ASTERISK'',
      ''KEY_KEYPAD_MINUS'', ''KEY_KEYPAD_7'', ''KEY_KEYPAD_8'', ''KEY_KEYPAD_9'',
      ''KEY_KEYPAD_PLUS'', ''KEY_KEYPAD_4'', ''KEY_KEYPAD_5'', ''KEY_KEYPAD_6'', ''KEY_KEYPAD_1'',
      ''KEY_KEYPAD_2'', ''KEY_KEYPAD_3'', ''KEY_KEYPAD_ENTER'', ''KEY_KEYPAD_0'',
      ''KEY_KEYPAD_DELETE'', ''KEY_MULTIMEDIA_PREVIOUS_TRACK'', ''KEY_MULTIMEDIA_NEXT_TRACK'',
      ''KEY_MULTIMEDIA_MUTE'', ''KEY_MULTIMEDIA_CALCULATOR'', ''KEY_MULTIMEDIA_PLAY'',
      ''KEY_MULTIMEDIA_STOP'', ''KEY_MULTIMEDIA_VOLUME_DOWN'', ''KEY_MULTIMEDIA_VOLUME_UP'',
      ''KEY_MULTIMEDIA_WWW_HOME'', ''KEY_MULTIMEDIA_WWW_SEARCH'', ''KEY_MULTIMEDIA_FAVORITES'',
      ''KEY_MULTIMEDIA_WWW_REFRESH'', ''KEY_MULTIMEDIA_WWW_STOP'', ''KEY_MULTIMEDIA_WWW_FORWARD'',
      ''KEY_MULTIMEDIA_WWW_BACK'', ''KEY_MULTIMEDIA_MY_COMPUTER'', ''KEY_MULTIMEDIA_EMAIL'',
      ''KEY_MULTIMEDIA_MEDIA_SELECT'', ''KEY_POWER'', ''KEY_SLEEP'', ''KEY_WAKE'']"

abbreviation (input) KEY_UNKNOWN :: key_code_t where "KEY_UNKNOWN \<equiv> 0"
abbreviation (input) KEY_ESC :: key_code_t where "KEY_ESC \<equiv> 1"
abbreviation (input) KEY_F1 :: key_code_t where "KEY_F1 \<equiv> 2"
abbreviation (input) KEY_F2 :: key_code_t where "KEY_F2 \<equiv> 3"
abbreviation (input) KEY_F3 :: key_code_t where "KEY_F3 \<equiv> 4"
abbreviation (input) KEY_F4 :: key_code_t where "KEY_F4 \<equiv> 5"
abbreviation (input) KEY_F5 :: key_code_t where "KEY_F5 \<equiv> 6"
abbreviation (input) KEY_F6 :: key_code_t where "KEY_F6 \<equiv> 7"
abbreviation (input) KEY_F7 :: key_code_t where "KEY_F7 \<equiv> 8"
abbreviation (input) KEY_F8 :: key_code_t where "KEY_F8 \<equiv> 9"
abbreviation (input) KEY_F9 :: key_code_t where "KEY_F9 \<equiv> 10"
abbreviation (input) KEY_F10 :: key_code_t where "KEY_F10 \<equiv> 11"
abbreviation (input) KEY_F11 :: key_code_t where "KEY_F11 \<equiv> 12"
abbreviation (input) KEY_F12 :: key_code_t where "KEY_F12 \<equiv> 13"
abbreviation (input) KEY_CIRCUMFLEX :: key_code_t where "KEY_CIRCUMFLEX \<equiv> 14"
abbreviation (input) KEY_1 :: key_code_t where "KEY_1 \<equiv> 15"
abbreviation (input) KEY_2 :: key_code_t where "KEY_2 \<equiv> 16"
abbreviation (input) KEY_3 :: key_code_t where "KEY_3 \<equiv> 17"
abbreviation (input) KEY_4 :: key_code_t where "KEY_4 \<equiv> 18"
abbreviation (input) KEY_5 :: key_code_t where "KEY_5 \<equiv> 19"
abbreviation (input) KEY_6 :: key_code_t where "KEY_6 \<equiv> 20"
abbreviation (input) KEY_7 :: key_code_t where "KEY_7 \<equiv> 21"
abbreviation (input) KEY_8 :: key_code_t where "KEY_8 \<equiv> 22"
abbreviation (input) KEY_9 :: key_code_t where "KEY_9 \<equiv> 23"
abbreviation (input) KEY_0 :: key_code_t where "KEY_0 \<equiv> 24"
abbreviation (input) KEY_SZ :: key_code_t where "KEY_SZ \<equiv> 25"
abbreviation (input) KEY_BACK_TICK :: key_code_t where "KEY_BACK_TICK \<equiv> 26"
abbreviation (input) KEY_BACKSPACE :: key_code_t where "KEY_BACKSPACE \<equiv> 27"
abbreviation (input) KEY_TAB :: key_code_t where "KEY_TAB \<equiv> 28"
abbreviation (input) KEY_Q :: key_code_t where "KEY_Q \<equiv> 29"
abbreviation (input) KEY_W :: key_code_t where "KEY_W \<equiv> 30"
abbreviation (input) KEY_E :: key_code_t where "KEY_E \<equiv> 31"
abbreviation (input) KEY_R :: key_code_t where "KEY_R \<equiv> 32"
abbreviation (input) KEY_T :: key_code_t where "KEY_T \<equiv> 33"
abbreviation (input) KEY_Z :: key_code_t where "KEY_Z \<equiv> 34"
abbreviation (input) KEY_U :: key_code_t where "KEY_U \<equiv> 35"
abbreviation (input) KEY_I :: key_code_t where "KEY_I \<equiv> 36"
abbreviation (input) KEY_O :: key_code_t where "KEY_O \<equiv> 37"
abbreviation (input) KEY_P :: key_code_t where "KEY_P \<equiv> 38"
abbreviation (input) KEY_UE :: key_code_t where "KEY_UE \<equiv> 39"
abbreviation (input) KEY_PLUS :: key_code_t where "KEY_PLUS \<equiv> 40"
abbreviation (input) KEY_ENTER :: key_code_t where "KEY_ENTER \<equiv> 41"
abbreviation (input) KEY_CAPS_LOCK :: key_code_t where "KEY_CAPS_LOCK \<equiv> 42"
abbreviation (input) KEY_A :: key_code_t where "KEY_A \<equiv> 43"
abbreviation (input) KEY_S :: key_code_t where "KEY_S \<equiv> 44"
abbreviation (input) KEY_D :: key_code_t where "KEY_D \<equiv> 45"
abbreviation (input) KEY_F :: key_code_t where "KEY_F \<equiv> 46"
abbreviation (input) KEY_G :: key_code_t where "KEY_G \<equiv> 47"
abbreviation (input) KEY_H :: key_code_t where "KEY_H \<equiv> 48"
abbreviation (input) KEY_J :: key_code_t where "KEY_J \<equiv> 49"
abbreviation (input) KEY_K :: key_code_t where "KEY_K \<equiv> 50"
abbreviation (input) KEY_L :: key_code_t where "KEY_L \<equiv> 51"
abbreviation (input) KEY_OE :: key_code_t where "KEY_OE \<equiv> 52"
abbreviation (input) KEY_AE :: key_code_t where "KEY_AE \<equiv> 53"
abbreviation (input) KEY_HASHTAG :: key_code_t where "KEY_HASHTAG \<equiv> 54"
abbreviation (input) KEY_LSHIFT :: key_code_t where "KEY_LSHIFT \<equiv> 55"
abbreviation (input) KEY_LESS_THEN :: key_code_t where "KEY_LESS_THEN \<equiv> 56"
abbreviation (input) KEY_Y :: key_code_t where "KEY_Y \<equiv> 57"
abbreviation (input) KEY_X :: key_code_t where "KEY_X \<equiv> 58"
abbreviation (input) KEY_C :: key_code_t where "KEY_C \<equiv> 59"
abbreviation (input) KEY_V :: key_code_t where "KEY_V \<equiv> 60"
abbreviation (input) KEY_B :: key_code_t where "KEY_B \<equiv> 61"
abbreviation (input) KEY_N :: key_code_t where "KEY_N \<equiv> 62"
abbreviation (input) KEY_M :: key_code_t where "KEY_M \<equiv> 63"
abbreviation (input) KEY_COMMA :: key_code_t where "KEY_COMMA \<equiv> 64"
abbreviation (input) KEY_PERIOD :: key_code_t where "KEY_PERIOD \<equiv> 65"
abbreviation (input) KEY_MINUS :: key_code_t where "KEY_MINUS \<equiv> 66"
abbreviation (input) KEY_RSHIFT :: key_code_t where "KEY_RSHIFT \<equiv> 67"
abbreviation (input) KEY_LSTRG :: key_code_t where "KEY_LSTRG \<equiv> 68"
abbreviation (input) KEY_LSUPER :: key_code_t where "KEY_LSUPER \<equiv> 69"
abbreviation (input) KEY_ALT :: key_code_t where "KEY_ALT \<equiv> 70"
abbreviation (input) KEY_SPACE :: key_code_t where "KEY_SPACE \<equiv> 71"
abbreviation (input) KEY_ALTGR :: key_code_t where "KEY_ALTGR \<equiv> 72"
abbreviation (input) KEY_RSUPER :: key_code_t where "KEY_RSUPER \<equiv> 73"
abbreviation (input) KEY_MENU :: key_code_t where "KEY_MENU \<equiv> 74"
abbreviation (input) KEY_RSTRG :: key_code_t where "KEY_RSTRG \<equiv> 75"
abbreviation (input) KEY_UP :: key_code_t where "KEY_UP \<equiv> 76"
abbreviation (input) KEY_LEFT :: key_code_t where "KEY_LEFT \<equiv> 77"
abbreviation (input) KEY_DOWN :: key_code_t where "KEY_DOWN \<equiv> 78"
abbreviation (input) KEY_RIGHT :: key_code_t where "KEY_RIGHT \<equiv> 79"
abbreviation (input) KEY_PRINT_SCREEN :: key_code_t where "KEY_PRINT_SCREEN \<equiv> 80"
abbreviation (input) KEY_SCROLL_LOCK :: key_code_t where "KEY_SCROLL_LOCK \<equiv> 81"
abbreviation (input) KEY_PAUSE :: key_code_t where "KEY_PAUSE \<equiv> 82"
abbreviation (input) KEY_INSERT :: key_code_t where "KEY_INSERT \<equiv> 83"
abbreviation (input) KEY_POS1 :: key_code_t where "KEY_POS1 \<equiv> 84"
abbreviation (input) KEY_PAGE_UP :: key_code_t where "KEY_PAGE_UP \<equiv> 85"
abbreviation (input) KEY_DEL :: key_code_t where "KEY_DEL \<equiv> 86"
abbreviation (input) KEY_END :: key_code_t where "KEY_END \<equiv> 87"
abbreviation (input) KEY_PAGE_DOWN :: key_code_t where "KEY_PAGE_DOWN \<equiv> 88"
abbreviation (input) KEY_NUM_LOCK :: key_code_t where "KEY_NUM_LOCK \<equiv> 89"
abbreviation (input) KEY_KEYPAD_SLASH :: key_code_t where "KEY_KEYPAD_SLASH \<equiv> 90"
abbreviation (input) KEY_KEYPAD_ASTERISK :: key_code_t where "KEY_KEYPAD_ASTERISK \<equiv> 91"
abbreviation (input) KEY_KEYPAD_MINUS :: key_code_t where "KEY_KEYPAD_MINUS \<equiv> 92"
abbreviation (input) KEY_KEYPAD_7 :: key_code_t where "KEY_KEYPAD_7 \<equiv> 93"
abbreviation (input) KEY_KEYPAD_8 :: key_code_t where "KEY_KEYPAD_8 \<equiv> 94"
abbreviation (input) KEY_KEYPAD_9 :: key_code_t where "KEY_KEYPAD_9 \<equiv> 95"
abbreviation (input) KEY_KEYPAD_PLUS :: key_code_t where "KEY_KEYPAD_PLUS \<equiv> 96"
abbreviation (input) KEY_KEYPAD_4 :: key_code_t where "KEY_KEYPAD_4 \<equiv> 97"
abbreviation (input) KEY_KEYPAD_5 :: key_code_t where "KEY_KEYPAD_5 \<equiv> 98"
abbreviation (input) KEY_KEYPAD_6 :: key_code_t where "KEY_KEYPAD_6 \<equiv> 99"
abbreviation (input) KEY_KEYPAD_1 :: key_code_t where "KEY_KEYPAD_1 \<equiv> 100"
abbreviation (input) KEY_KEYPAD_2 :: key_code_t where "KEY_KEYPAD_2 \<equiv> 101"
abbreviation (input) KEY_KEYPAD_3 :: key_code_t where "KEY_KEYPAD_3 \<equiv> 102"
abbreviation (input) KEY_KEYPAD_ENTER :: key_code_t where "KEY_KEYPAD_ENTER \<equiv> 103"
abbreviation (input) KEY_KEYPAD_0 :: key_code_t where "KEY_KEYPAD_0 \<equiv> 104"
abbreviation (input) KEY_KEYPAD_DELETE :: key_code_t where "KEY_KEYPAD_DELETE \<equiv> 105"
abbreviation (input) KEY_MULTIMEDIA_PREVIOUS_TRACK :: key_code_t where "KEY_MULTIMEDIA_PREVIOUS_TRACK \<equiv> 106"
abbreviation (input) KEY_MULTIMEDIA_NEXT_TRACK :: key_code_t where "KEY_MULTIMEDIA_NEXT_TRACK \<equiv> 107"
abbreviation (input) KEY_MULTIMEDIA_MUTE :: key_code_t where "KEY_MULTIMEDIA_MUTE \<equiv> 108"
abbreviation (input) KEY_MULTIMEDIA_CALCULATOR :: key_code_t where "KEY_MULTIMEDIA_CALCULATOR \<equiv> 109"
abbreviation (input) KEY_MULTIMEDIA_PLAY :: key_code_t where "KEY_MULTIMEDIA_PLAY \<equiv> 110"
abbreviation (input) KEY_MULTIMEDIA_STOP :: key_code_t where "KEY_MULTIMEDIA_STOP \<equiv> 111"
abbreviation (input) KEY_MULTIMEDIA_VOLUME_DOWN :: key_code_t where "KEY_MULTIMEDIA_VOLUME_DOWN \<equiv> 112"
abbreviation (input) KEY_MULTIMEDIA_VOLUME_UP :: key_code_t where "KEY_MULTIMEDIA_VOLUME_UP \<equiv> 113"
abbreviation (input) KEY_MULTIMEDIA_WWW_HOME :: key_code_t where "KEY_MULTIMEDIA_WWW_HOME \<equiv> 114"
abbreviation (input) KEY_MULTIMEDIA_WWW_SEARCH :: key_code_t where "KEY_MULTIMEDIA_WWW_SEARCH \<equiv> 115"
abbreviation (input) KEY_MULTIMEDIA_FAVORITES :: key_code_t where "KEY_MULTIMEDIA_FAVORITES \<equiv> 116"
abbreviation (input) KEY_MULTIMEDIA_WWW_REFRESH :: key_code_t where "KEY_MULTIMEDIA_WWW_REFRESH \<equiv> 117"
abbreviation (input) KEY_MULTIMEDIA_WWW_STOP :: key_code_t where "KEY_MULTIMEDIA_WWW_STOP \<equiv> 118"
abbreviation (input) KEY_MULTIMEDIA_WWW_FORWARD :: key_code_t where "KEY_MULTIMEDIA_WWW_FORWARD \<equiv> 119"
abbreviation (input) KEY_MULTIMEDIA_WWW_BACK :: key_code_t where "KEY_MULTIMEDIA_WWW_BACK \<equiv> 120"
abbreviation (input) KEY_MULTIMEDIA_MY_COMPUTER :: key_code_t where "KEY_MULTIMEDIA_MY_COMPUTER \<equiv> 121"
abbreviation (input) KEY_MULTIMEDIA_EMAIL :: key_code_t where "KEY_MULTIMEDIA_EMAIL \<equiv> 122"
abbreviation (input) KEY_MULTIMEDIA_MEDIA_SELECT :: key_code_t where "KEY_MULTIMEDIA_MEDIA_SELECT \<equiv> 123"
abbreviation (input) KEY_POWER :: key_code_t where "KEY_POWER \<equiv> 124"
abbreviation (input) KEY_SLEEP :: key_code_t where "KEY_SLEEP \<equiv> 125"
abbreviation (input) KEY_WAKE :: key_code_t where "KEY_WAKE \<equiv> 126"

text \<open>The abbreviations are the positions in the enum, which fits the 256 entries of the tables.\<close>

lemma key_codes_numbered:
  "map (\<lambda>k. key_codes ! k) [KEY_UNKNOWN, KEY_ESC, KEY_F12, KEY_BACKSPACE, KEY_ENTER, KEY_CAPS_LOCK, KEY_LSHIFT,
      KEY_RSHIFT, KEY_LSTRG, KEY_ALTGR, KEY_RSTRG, KEY_RIGHT, KEY_PRINT_SCREEN, KEY_PAUSE, KEY_NUM_LOCK,
      KEY_KEYPAD_DELETE, KEY_MULTIMEDIA_MEDIA_SELECT, KEY_WAKE] =
   [''KEY_UNKNOWN'', ''KEY_ESC'', ''KEY_F12'', ''KEY_BACKSPACE'', ''KEY_ENTER'', ''KEY_CAPS_LOCK'', ''KEY_LSHIFT'',
      ''KEY_RSHIFT'', ''KEY_LSTRG'', ''KEY_ALTGR'', ''KEY_RSTRG'', ''KEY_RIGHT'', ''KEY_PRINT_SCREEN'', ''KEY_PAUSE'',
      ''KEY_NUM_LOCK'', ''KEY_KEYPAD_DELETE'', ''KEY_MULTIMEDIA_MEDIA_SELECT'', ''KEY_WAKE'']"
  by (simp add: key_codes_def)

lemma length_key_codes: "length key_codes = 127"
  by (simp add: key_codes_def)

end
