(* ===== verification/KeyboardLayout.thy ===== *)
theory KeyboardLayout
  imports KeyCodes
begin

text \<open>
  The German keyboard layout (kernel/include/drivers/keyboard_layouts.h). A table of 256 strings that
  is \<open>""\<close> but for the designated initializers is the list of these initializers; a later one
  overrides, so \<open>layout_string\<close> takes the last. Of the four tables of the struct, \<open>ctrl\<close> is empty and not used
  by the code.
\<close>

record keyboard_layout_t =
  normal :: "(key_code_t \<times> string) list"
  shift :: "(key_code_t \<times> string) list"
  ctrl :: "(key_code_t \<times> string) list"
  altgr :: "(key_code_t \<times> string) list"

text \<open>Element \<open>k\<close> of such a table; \<open>None\<close> is an access outside its 256 elements.\<close>

definition layout_string :: "(key_code_t \<times> string) list \<Rightarrow> key_code_t \<Rightarrow> string option" where
  "layout_string table k =
     (if k < 256 then Some (case map_of (rev table) k of Some s \<Rightarrow> s | None \<Rightarrow> '''') else None)"

definition german_normal :: "(key_code_t \<times> string) list" where
  "german_normal =
     [(KEY_CIRCUMFLEX, [CHR 0x5E]), (KEY_1, ''1''), (KEY_2, ''2''), (KEY_3, ''3''),
      (KEY_4, ''4''), (KEY_5, ''5''), (KEY_6, ''6''), (KEY_7, ''7''), (KEY_8, ''8''),
      (KEY_9, ''9''), (KEY_0, ''0''), (KEY_SZ, ''ss''), (KEY_BACK_TICK, [CHR 0x27]),
      (KEY_BACKSPACE, [CHR 0x08]), (KEY_TAB, [CHR 0x09]), (KEY_Q, ''q''), (KEY_W, ''w''),
      (KEY_E, ''e''), (KEY_R, ''r''), (KEY_T, ''t''), (KEY_Z, ''z''), (KEY_U, ''u''),
      (KEY_I, ''i''), (KEY_O, ''o''), (KEY_P, ''p''), (KEY_UE, ''ue''), (KEY_PLUS, [CHR 0x2B]),
      (KEY_ENTER, [CHR 0x0A]), (KEY_A, ''a''), (KEY_S, ''s''), (KEY_D, ''d''), (KEY_F, ''f''),
      (KEY_G, ''g''), (KEY_H, ''h''), (KEY_J, ''j''), (KEY_K, ''k''), (KEY_L, ''l''),
      (KEY_OE, ''oe''), (KEY_AE, ''ae''), (KEY_HASHTAG, [CHR 0x23]), (KEY_LESS_THEN, [CHR 0x3C]),
      (KEY_Y, ''y''), (KEY_X, ''x''), (KEY_C, ''c''), (KEY_V, ''v''), (KEY_B, ''b''),
      (KEY_N, ''n''), (KEY_M, ''m''), (KEY_COMMA, [CHR 0x2C]), (KEY_PERIOD, [CHR 0x2E]),
      (KEY_MINUS, [CHR 0x2D]), (KEY_SPACE, [CHR 0x20]), (KEY_KEYPAD_SLASH, [CHR 0x2F]),
      (KEY_KEYPAD_ASTERISK, [CHR 0x2A]), (KEY_KEYPAD_MINUS, [CHR 0x2D]), (KEY_KEYPAD_7, ''7''),
      (KEY_KEYPAD_8, ''8''), (KEY_KEYPAD_9, ''9''), (KEY_KEYPAD_PLUS, [CHR 0x2B]),
      (KEY_KEYPAD_4, ''4''), (KEY_KEYPAD_5, ''5''), (KEY_KEYPAD_6, ''6''), (KEY_KEYPAD_1, ''1''),
      (KEY_KEYPAD_2, ''2''), (KEY_KEYPAD_3, ''3''), (KEY_KEYPAD_0, ''0''),
      (KEY_KEYPAD_DELETE, [CHR 0x2E]), (KEY_KEYPAD_ENTER, [CHR 0x0A])]"

definition german_shift :: "(key_code_t \<times> string) list" where
  "german_shift =
     [(KEY_1, [CHR 0x21]), (KEY_2, [CHR 0x22]), (KEY_4, [CHR 0x24]), (KEY_5, [CHR 0x25]),
      (KEY_6, [CHR 0x26]), (KEY_7, [CHR 0x2F]), (KEY_8, [CHR 0x28]), (KEY_9, [CHR 0x29]),
      (KEY_0, [CHR 0x3D]), (KEY_SZ, [CHR 0x3F]), (KEY_BACK_TICK, [CHR 0x60]), (KEY_Q, ''Q''),
      (KEY_W, ''W''), (KEY_E, ''E''), (KEY_R, ''R''), (KEY_T, ''T''), (KEY_Z, ''Z''),
      (KEY_U, ''U''), (KEY_I, ''I''), (KEY_O, ''O''), (KEY_P, ''P''), (KEY_UE, ''UE''),
      (KEY_PLUS, [CHR 0x2A]), (KEY_A, ''A''), (KEY_S, ''S''), (KEY_D, ''D''), (KEY_F, ''F''),
      (KEY_G, ''G''), (KEY_H, ''H''), (KEY_J, ''J''), (KEY_K, ''K''), (KEY_L, ''L''),
      (KEY_OE, ''OE''), (KEY_AE, ''AE''), (KEY_HASHTAG, [CHR 0x27]), (KEY_LESS_THEN, [CHR 0x3E]),
      (KEY_Y, ''Y''), (KEY_X, ''X''), (KEY_C, ''C''), (KEY_V, ''V''), (KEY_B, ''B''),
      (KEY_N, ''N''), (KEY_M, ''M''), (KEY_COMMA, [CHR 0x3B]), (KEY_PERIOD, [CHR 0x3A]),
      (KEY_MINUS, [CHR 0x5F]), (KEY_SPACE, [CHR 0x20]), (KEY_KEYPAD_SLASH, [CHR 0x2F]),
      (KEY_KEYPAD_ASTERISK, [CHR 0x2A]), (KEY_KEYPAD_MINUS, [CHR 0x2D]), (KEY_KEYPAD_7, ''7''),
      (KEY_KEYPAD_8, ''8''), (KEY_KEYPAD_9, ''9''), (KEY_KEYPAD_PLUS, [CHR 0x2B]),
      (KEY_KEYPAD_4, ''4''), (KEY_KEYPAD_5, ''5''), (KEY_KEYPAD_6, ''6''), (KEY_KEYPAD_1, ''1''),
      (KEY_KEYPAD_2, ''2''), (KEY_KEYPAD_3, ''3''), (KEY_KEYPAD_0, ''0''),
      (KEY_KEYPAD_DELETE, [CHR 0x2E])]"

definition german_altgr :: "(key_code_t \<times> string) list" where
  "german_altgr =
     [(KEY_Q, [CHR 0x40]), (KEY_7, [CHR 0x7B]), (KEY_8, [CHR 0x5B]), (KEY_9, [CHR 0x5D]),
      (KEY_0, [CHR 0x7D]), (KEY_SZ, [CHR 0x5C]), (KEY_PLUS, [CHR 0x7E]),
      (KEY_HASHTAG, [CHR 0x27]), (KEY_LESS_THEN, [CHR 0x7C])]"

definition kbd_layout_german :: keyboard_layout_t where
  "kbd_layout_german = \<lparr>normal = german_normal, shift = german_shift, ctrl = [], altgr = german_altgr\<rparr>"

lemma layout_string_total: "k < 256 \<Longrightarrow> \<exists>s. layout_string t k = Some s"
  by (simp add: layout_string_def)

end
