(* ===== verification/BoundedQueue.thy ===== *)
theory BoundedQueue
  imports Prelude
begin

text \<open>
  The contract of a bounded queue that overwrites: appending to a full queue drops its oldest
  element. Producers and consumers that share such a queue (the keyboard driver and the readers of
  key events) need what follows from it: the queue always holds the latest elements that were
  appended and not read, in order.
\<close>

section \<open>Keeping the latest elements\<close>

definition latest :: "nat \<Rightarrow> 'a list \<Rightarrow> 'a list" where
  "latest n xs = drop (length xs - n) xs"

lemma latest_short: "length xs \<le> n \<Longrightarrow> latest n xs = xs"
  by (simp add: latest_def)

lemma length_latest: "length (latest n xs) = min n (length xs)"
  by (simp add: latest_def)

lemma latest_snoc_full:
  assumes "0 < n" "n \<le> length xs"
  shows "latest n (xs @ [x]) = tl (latest n xs) @ [x]"
proof -
  have "length (xs @ [x]) - n = Suc (length xs - n)" using assms by simp
  then show ?thesis using assms by (simp add: latest_def drop_Suc tl_drop)
qed

section \<open>Sequences of operations\<close>

text \<open>Appending the elements of a list one after the other, and reading \<open>n\<close> times.\<close>

fun append_all :: "('a \<Rightarrow> 's \<Rightarrow> 's option) \<Rightarrow> 'a list \<Rightarrow> 's \<Rightarrow> 's option" where
  "append_all app [] s = Some s"
| "append_all app (x # xs) s = Option.bind (app x s) (append_all app xs)"

fun take_times :: "('s \<Rightarrow> ('a option \<times> 's) option) \<Rightarrow> nat \<Rightarrow> 's \<Rightarrow> ('a option list \<times> 's) option" where
  "take_times take_first 0 s = Some ([], s)"
| "take_times take_first (Suc n) s =
     do {
       (x, s1) \<leftarrow> take_first s;
       (xs, s2) \<leftarrow> take_times take_first n s1;
       Some (x # xs, s2)
     }"

section \<open>The contract\<close>

locale bounded_queue =
  fixes inv :: "'s \<Rightarrow> bool"
    and items :: "'s \<Rightarrow> 'a list"
    and capacity :: nat
    and append :: "'a \<Rightarrow> 's \<Rightarrow> 's option"
    and take_first :: "'s \<Rightarrow> ('a option \<times> 's) option"
  assumes capacity_pos: "0 < capacity"
    and items_bound: "inv s \<Longrightarrow> length (items s) \<le> capacity"
    and append_room: "inv s \<Longrightarrow> length (items s) < capacity \<Longrightarrow>
      \<exists>s'. append x s = Some s' \<and> inv s' \<and> items s' = items s @ [x]"
    and append_full: "inv s \<Longrightarrow> length (items s) = capacity \<Longrightarrow>
      \<exists>s'. append x s = Some s' \<and> inv s' \<and> items s' = tl (items s) @ [x]"
    and take_empty: "inv s \<Longrightarrow> items s = [] \<Longrightarrow> take_first s = Some (None, s)"
    and take_some: "inv s \<Longrightarrow> items s = x # xs \<Longrightarrow>
      \<exists>s'. take_first s = Some (Some x, s') \<and> inv s' \<and> items s' = xs"
begin

lemma append_total:
  assumes "inv s"
  shows "\<exists>s'. append x s = Some s' \<and> inv s' \<and> items s' = latest capacity (items s @ [x])"
proof (cases "length (items s) < capacity")
  case True
  then show ?thesis using append_room [OF assms True, of x] by (simp add: latest_short)
next
  case False
  then have full: "length (items s) = capacity" using items_bound [OF assms] by simp
  have "latest capacity (items s @ [x]) = tl (items s) @ [x]"
    using latest_snoc_full [OF capacity_pos, of "items s" x] full by (simp add: latest_short)
  then show ?thesis using append_full [OF assms full, of x] by simp
qed

text \<open>Appending a list of elements to a queue leaves the latest \<open>capacity\<close> ones, in order.\<close>

lemma append_all_latest:
  assumes "inv s"
  shows "\<exists>s'. append_all append xs s = Some s' \<and> inv s' \<and> items s' = latest capacity (items s @ xs)"
  using assms
proof (induction xs arbitrary: s)
  case Nil
  then show ?case using items_bound by (simp add: latest_short)
next
  case (Cons x xs)
  obtain s1 where s1: "append x s = Some s1" "inv s1" "items s1 = latest capacity (items s @ [x])"
    using append_total [OF Cons.prems] by blast
  obtain s2 where s2: "append_all append xs s1 = Some s2" "inv s2" "items s2 = latest capacity (items s1 @ xs)"
    using Cons.IH [OF s1(2)] by blast
  have "latest capacity (latest capacity ys @ zs) = latest capacity (ys @ zs)" for ys zs :: "'a list"
    by (cases "length ys \<le> capacity") (auto simp: latest_def add.commute)
  then have "items s2 = latest capacity (items s @ x # xs)" using s2(3) s1(3) by simp
  with s1(1) s2(1,2) show ?case by simp
qed

lemma take_times_items:
  assumes "inv s" "n \<le> length (items s)"
  shows "\<exists>s'. take_times take_first n s = Some (map Some (take n (items s)), s') \<and> inv s' \<and>
    items s' = drop n (items s)"
  using assms
proof (induction n arbitrary: s)
  case (Suc n)
  then obtain x xs where items: "items s = x # xs" by (cases "items s") auto
  obtain s1 where s1: "take_first s = Some (Some x, s1)" "inv s1" "items s1 = xs"
    using take_some [OF Suc.prems(1) items] by blast
  have "n \<le> length (items s1)" using Suc.prems(2) items s1(3) by simp
  from Suc.IH [OF s1(2) this] s1 items show ?case by auto
qed simp

text \<open>Elements come out in the order they went in, the latest \<open>capacity\<close> ones, and then none.\<close>

lemma append_take:
  assumes "inv s" "items s = []"
  shows "\<exists>s1 s2. append_all append xs s = Some s1 \<and>
    take_times take_first (Suc (min capacity (length xs))) s1 = Some (map Some (latest capacity xs) @ [None], s2)"
proof -
  let ?n = "min capacity (length xs)"
  obtain s1 where s1: "append_all append xs s = Some s1" "inv s1" "items s1 = latest capacity xs"
    using append_all_latest [OF assms(1), of xs] assms(2) by auto
  have len: "length (items s1) = ?n" by (simp add: s1(3) length_latest)
  obtain s2 where s2: "take_times take_first ?n s1 = Some (map Some (items s1), s2)" "inv s2" "items s2 = []"
    using take_times_items [OF s1(2), of ?n] len by auto
  have "take_times take_first (n + 1) t = Some (xs @ [None], u)"
    if "take_times take_first n t = Some (xs, u)" "take_first u = Some (None, u)" for n t u and xs :: "'a option list"
    using that by (induction n arbitrary: t xs) (auto simp: array_simps split: prod.splits)
  from this [OF s2(1) take_empty [OF s2(2,3)]] s1 show ?thesis by auto
qed

end

end
