(* ===== verification/Keyboard.thy ===== *)
theory Keyboard
  imports KeyboardLayout BoundedQueue
begin

text \<open>
  The key event interface (kernel/src/drivers/keyboard.c, keyboard.h): the ring buffer of key events
  and the conversion of key events to characters. The ring buffer implements the contract of
  BoundedQueue.
\<close>

section \<open>Data\<close>

abbreviation (input) KBD_KEY_EVENT_BUFFER_SIZE :: nat where "KBD_KEY_EVENT_BUFFER_SIZE \<equiv> 32"

datatype key_event_type_t = KEY_EVENT_TYPE_UNDEFINED | KEY_EVENT_TYPE_PRESSED | KEY_EVENT_TYPE_RELEASED

record key_event_t =
  keycode :: key_code_t
  pressed :: key_event_type_t
  modifiers :: u16

datatype kbd_error_codes_t =
  KBD_ERROR_KEY_EVENT_BUFFER_OK | KBD_ERROR_KEY_EVENT_BUFFER_EMPTY | KBD_ERROR_KEY_EVENT_BUFFER_FULL

abbreviation (input) KBD_MODIFIER_MASK_SHIFT :: u16 where "KBD_MODIFIER_MASK_SHIFT \<equiv> 1"
abbreviation (input) KBD_MODIFIER_MASK_CAPS_LOCK :: u16 where "KBD_MODIFIER_MASK_CAPS_LOCK \<equiv> 2"
abbreviation (input) KBD_MODIFIER_MASK_ALT :: u16 where "KBD_MODIFIER_MASK_ALT \<equiv> 4"
abbreviation (input) KBD_MODIFIER_MASK_ALTGR :: u16 where "KBD_MODIFIER_MASK_ALTGR \<equiv> 8"
abbreviation (input) KBD_MODIFIER_MASK_STRG :: u16 where "KBD_MODIFIER_MASK_STRG \<equiv> 16"
abbreviation (input) KBD_MODIFIER_MASK_NUM_LOCK :: u16 where "KBD_MODIFIER_MASK_NUM_LOCK \<equiv> 32"
abbreviation (input) KBD_MODIFIER_MASK_SCROLL_LOCK :: u16 where "KBD_MODIFIER_MASK_SCROLL_LOCK \<equiv> 64"
abbreviation (input) KBD_MODIFIER_MASK_LSUPER :: u16 where "KBD_MODIFIER_MASK_LSUPER \<equiv> 128"
abbreviation (input) KBD_MODIFIER_MASK_RSUPER :: u16 where "KBD_MODIFIER_MASK_RSUPER \<equiv> 256"

text \<open>The static ring buffer with its bookkeeping bytes.\<close>

record kbd_state =
  kbd_key_event_buffer :: "key_event_t list"
  kbd_key_event_buffer_capacity :: u8
  kbd_key_event_buffer_size :: u8
  kbd_key_event_buffer_front :: u8

definition kbd_boot_state :: kbd_state where
  "kbd_boot_state =
     \<lparr>kbd_key_event_buffer = replicate KBD_KEY_EVENT_BUFFER_SIZE
        \<lparr>keycode = KEY_UNKNOWN, pressed = KEY_EVENT_TYPE_UNDEFINED, modifiers = 0\<rparr>,
      kbd_key_event_buffer_capacity = of_nat KBD_KEY_EVENT_BUFFER_SIZE,
      kbd_key_event_buffer_size = 0, kbd_key_event_buffer_front = 0\<rparr>"

section \<open>The ring buffer\<close>

text \<open>The sums are computed as \<open>int\<close> and stored back into a byte.\<close>

definition kbd_append_key_event_to_buffer :: "key_event_t \<Rightarrow> kbd_state \<Rightarrow> kbd_state option" where
  "kbd_append_key_event_to_buffer key_event st =
     (let rear = of_nat ((unat (kbd_key_event_buffer_front st) + unat (kbd_key_event_buffer_size st))
                   mod KBD_KEY_EVENT_BUFFER_SIZE) :: u8
      in do {
        buf \<leftarrow> arr_set (kbd_key_event_buffer st) (ucast rear) key_event;
        let st1 = st\<lparr>kbd_key_event_buffer := buf\<rparr>;
        Some (if kbd_key_event_buffer_size st1 < kbd_key_event_buffer_capacity st1
              then st1\<lparr>kbd_key_event_buffer_size := kbd_key_event_buffer_size st1 + 1\<rparr>
              else st1\<lparr>kbd_key_event_buffer_front :=
                     of_nat ((unat (kbd_key_event_buffer_front st1) + 1) mod KBD_KEY_EVENT_BUFFER_SIZE)\<rparr>)
      })"

text \<open>The event read is \<open>None\<close> where \<open>*dest\<close> is not written.\<close>

definition kbd_get_key_event_from_buffer ::
    "kbd_state \<Rightarrow> (kbd_error_codes_t \<times> key_event_t option \<times> kbd_state) option" where
  "kbd_get_key_event_from_buffer st =
     (if kbd_key_event_buffer_size st \<le> 0 then Some (KBD_ERROR_KEY_EVENT_BUFFER_EMPTY, None, st)
      else do {
        e \<leftarrow> arr_get (kbd_key_event_buffer st) (ucast (kbd_key_event_buffer_front st));
        Some (KBD_ERROR_KEY_EVENT_BUFFER_OK, Some e,
          st\<lparr>kbd_key_event_buffer_front :=
               of_nat ((unat (kbd_key_event_buffer_front st) + 1) mod KBD_KEY_EVENT_BUFFER_SIZE),
             kbd_key_event_buffer_size := kbd_key_event_buffer_size st - 1\<rparr>)
      })"

section \<open>Characters\<close>

definition kbd_key_event_to_ascii :: "key_event_t \<Rightarrow> string option" where
  "kbd_key_event_to_ascii key_event =
     (if pressed key_event = KEY_EVENT_TYPE_RELEASED then Some ''''
      else if modifiers key_event AND KBD_MODIFIER_MASK_ALTGR \<noteq> 0
      then layout_string (altgr kbd_layout_german) (keycode key_event)
      else if modifiers key_event AND KBD_MODIFIER_MASK_CAPS_LOCK \<noteq> 0 then
        (if modifiers key_event AND KBD_MODIFIER_MASK_SHIFT \<noteq> 0
         then layout_string (normal kbd_layout_german) (keycode key_event)
         else layout_string (shift kbd_layout_german) (keycode key_event))
      else
        (if modifiers key_event AND KBD_MODIFIER_MASK_SHIFT \<noteq> 0
         then layout_string (shift kbd_layout_german) (keycode key_event)
         else layout_string (normal kbd_layout_german) (keycode key_event)))"

section \<open>The ring buffer as a queue\<close>

definition kbd_inv :: "kbd_state \<Rightarrow> bool" where
  "kbd_inv st \<longleftrightarrow> length (kbd_key_event_buffer st) = 32 \<and> kbd_key_event_buffer_capacity st = 32 \<and>
     unat (kbd_key_event_buffer_size st) \<le> 32 \<and> unat (kbd_key_event_buffer_front st) < 32"

text \<open>The events in the buffer, oldest first.\<close>

definition kbd_events :: "kbd_state \<Rightarrow> key_event_t list" where
  "kbd_events st = map (\<lambda>i. kbd_key_event_buffer st ! ((unat (kbd_key_event_buffer_front st) + i) mod 32))
     [0..<unat (kbd_key_event_buffer_size st)]"

lemma kbd_boot_inv: "kbd_inv kbd_boot_state" "kbd_events kbd_boot_state = []"
  by (simp_all add: kbd_inv_def kbd_events_def kbd_boot_state_def)

lemma length_kbd_events: "length (kbd_events st) = unat (kbd_key_event_buffer_size st)"
  by (simp add: kbd_events_def)

lemma u8_of_nat: "n < 256 \<Longrightarrow> unat (of_nat n :: u8) = n"
  by (simp add: unat_of_nat)

lemma u8_index: "n < 256 \<Longrightarrow> unat (ucast (of_nat n :: u8) :: u64) = n"
  by (simp add: unsigned_ucast_eq u8_of_nat take_bit_nat_eq_self)

lemma ring_index_inj:
  assumes "(f + i) mod 32 = (f + j) mod 32" "i < 32" "j < (32 :: nat)"
  shows "i = j"
proof -
  have "i = j" if "(f + i) mod 32 = (f + j) mod 32" "i \<le> j" "j < 32" for i j :: nat
  proof -
    have "32 dvd (f + j) - (f + i)"
      using that(1,2) mod_eq_dvd_iff_nat [of "f + i" "f + j" 32] by simp
    then have "32 dvd j - i" by simp
    with that(2,3) show ?thesis by (metis dvd_imp_le diff_is_0_eq le_antisym less_imp_diff_less not_less zero_less_diff)
  qed
  with assms show ?thesis by (cases "i \<le> j") (metis nat_le_linear)+
qed

text \<open>\<open>kbd_append_key_event_to_buffer\<close> on a well-formed state, for both branches.\<close>

lemma kbd_append_unfold:
  assumes "kbd_inv st"
  defines "f \<equiv> unat (kbd_key_event_buffer_front st)" and "n \<equiv> unat (kbd_key_event_buffer_size st)"
  shows "kbd_append_key_event_to_buffer e st =
    (let buf = (kbd_key_event_buffer st)[(f + n) mod 32 := e] in
     Some (if n < 32 then st\<lparr>kbd_key_event_buffer := buf, kbd_key_event_buffer_size := of_nat (n + 1)\<rparr>
           else st\<lparr>kbd_key_event_buffer := buf, kbd_key_event_buffer_front := of_nat ((f + 1) mod 32)\<rparr>))"
proof -
  have r: "unat (ucast (of_nat ((f + n) mod 32) :: u8) :: u64) = (f + n) mod 32"
    by (rule u8_index) (simp add: less_trans [OF mod_less_divisor])
  have n1: "kbd_key_event_buffer_size st + 1 = of_nat (n + 1)"
    by (simp add: n_def)
  have lt: "kbd_key_event_buffer_size st < 32 \<longleftrightarrow> n < 32" by (simp add: n_def word_less_nat_alt)
  show ?thesis
    using assms(1) r unfolding kbd_inv_def
    by (simp add: kbd_append_key_event_to_buffer_def Let_def arr_set_def n1 lt f_def [symmetric] n_def [symmetric])
qed

lemma kbd_append_room:
  assumes inv: "kbd_inv st" and room: "length (kbd_events st) < 32"
  shows "\<exists>st'. kbd_append_key_event_to_buffer e st = Some st' \<and> kbd_inv st' \<and> kbd_events st' = kbd_events st @ [e]"
proof -
  define f where "f = unat (kbd_key_event_buffer_front st)"
  define n where "n = unat (kbd_key_event_buffer_size st)"
  let ?buf = "(kbd_key_event_buffer st)[(f + n) mod 32 := e]"
  let ?st = "st\<lparr>kbd_key_event_buffer := ?buf, kbd_key_event_buffer_size := of_nat (n + 1)\<rparr>"
  have n: "n < 32" using room by (simp add: length_kbd_events n_def)
  have size: "unat (of_nat (n + 1) :: u8) = n + 1" using n by (intro u8_of_nat) simp
  have buf: "length (kbd_key_event_buffer st) = 32" using inv by (simp add: kbd_inv_def)
  have sel: "kbd_key_event_buffer ?st = ?buf" "kbd_key_event_buffer_size ?st = of_nat (n + 1)"
    "kbd_key_event_buffer_front ?st = kbd_key_event_buffer_front st"
    "kbd_key_event_buffer_capacity ?st = kbd_key_event_buffer_capacity st"
    by simp_all
  have "kbd_inv ?st"
    using inv n unfolding kbd_inv_def sel size by simp
  moreover have "kbd_events ?st = kbd_events st @ [e]"
  proof -
    have "kbd_events ?st = map (\<lambda>i. ?buf ! ((f + i) mod 32)) [0..<n + 1]"
      unfolding kbd_events_def sel size by (simp only: f_def)
    also have "\<dots> = map (\<lambda>i. ?buf ! ((f + i) mod 32)) [0..<n] @ [?buf ! ((f + n) mod 32)]" by simp
    also have "map (\<lambda>i. ?buf ! ((f + i) mod 32)) [0..<n] = kbd_events st"
      unfolding kbd_events_def f_def [symmetric] n_def [symmetric]
    proof (rule map_cong [OF refl])
      fix i assume "i \<in> set [0..<n]"
      then have "(f + n) mod 32 \<noteq> (f + i) mod 32" using ring_index_inj [of f n i] n by auto
      then show "?buf ! ((f + i) mod 32) = kbd_key_event_buffer st ! ((f + i) mod 32)" by simp
    qed
    also have "?buf ! ((f + n) mod 32) = e" using buf by simp
    finally show ?thesis .
  qed
  moreover have "kbd_append_key_event_to_buffer e st = Some ?st"
    unfolding kbd_append_unfold [OF inv] f_def [symmetric] n_def [symmetric] Let_def using n by simp
  ultimately show ?thesis by blast
qed

lemma kbd_append_full:
  assumes inv: "kbd_inv st" and full: "length (kbd_events st) = 32"
  shows "\<exists>st'. kbd_append_key_event_to_buffer e st = Some st' \<and> kbd_inv st' \<and>
    kbd_events st' = tl (kbd_events st) @ [e]"
proof -
  define f where "f = unat (kbd_key_event_buffer_front st)"
  have n: "unat (kbd_key_event_buffer_size st) = 32" using full by (simp add: length_kbd_events)
  have f: "f < 32" and buf: "length (kbd_key_event_buffer st) = 32"
    using inv by (simp_all add: kbd_inv_def f_def)
  let ?buf = "(kbd_key_event_buffer st)[f := e]"
  let ?st = "st\<lparr>kbd_key_event_buffer := ?buf, kbd_key_event_buffer_front := of_nat ((f + 1) mod 32)\<rparr>"
  have front: "unat (of_nat ((f + 1) mod 32) :: u8) = (f + 1) mod 32"
    by (rule u8_of_nat) (simp add: less_trans [OF mod_less_divisor])
  have sel: "kbd_key_event_buffer ?st = ?buf" "kbd_key_event_buffer_size ?st = kbd_key_event_buffer_size st"
    "kbd_key_event_buffer_front ?st = of_nat ((f + 1) mod 32)"
    "kbd_key_event_buffer_capacity ?st = kbd_key_event_buffer_capacity st"
    by simp_all
  have "kbd_inv ?st"
    using inv unfolding kbd_inv_def sel front by simp
  moreover have "kbd_events ?st = tl (kbd_events st) @ [e]"
  proof (rule nth_equalityI)
    show "length (kbd_events ?st) = length (tl (kbd_events st) @ [e])"
      using full by (simp add: length_kbd_events n)
    fix i assume "i < length (kbd_events ?st)"
    then have i: "i < 32" by (simp add: length_kbd_events n)
    have "kbd_events ?st ! i = ?buf ! ((f + 1 + i) mod 32)"
      using i unfolding kbd_events_def sel front n by (simp add: mod_add_left_eq)
    also have "\<dots> = (tl (kbd_events st) @ [e]) ! i"
    proof (cases "i = 31")
      case True
      then show ?thesis using f buf full by (simp add: nth_append)
    next
      case False
      then have lt: "i < 31" using i by simp
      then have "(f + 1 + i) mod 32 \<noteq> f" using ring_index_inj [of f "1 + i" 0] f by auto
      moreover have "(tl (kbd_events st) @ [e]) ! i = kbd_events st ! Suc i"
        using lt full by (simp add: nth_append nth_tl)
      moreover have "kbd_events st ! Suc i = kbd_key_event_buffer st ! ((f + Suc i) mod 32)"
        using lt by (simp add: kbd_events_def n f_def)
      ultimately show ?thesis by simp
    qed
    finally show "kbd_events ?st ! i = (tl (kbd_events st) @ [e]) ! i" .
  qed
  moreover have "kbd_append_key_event_to_buffer e st = Some ?st"
    unfolding kbd_append_unfold [OF inv] n f_def [symmetric] Let_def using f by simp
  ultimately show ?thesis by blast
qed

lemma kbd_get_some:
  assumes inv: "kbd_inv st" and ev: "kbd_events st = e # es"
  shows "\<exists>st'. kbd_get_key_event_from_buffer st = Some (KBD_ERROR_KEY_EVENT_BUFFER_OK, Some e, st') \<and>
    kbd_inv st' \<and> kbd_events st' = es"
proof -
  define f where "f = unat (kbd_key_event_buffer_front st)"
  define n where "n = unat (kbd_key_event_buffer_size st)"
  have len: "length es + 1 = n" using ev length_kbd_events [of st] by (simp add: n_def)
  have f: "f < 32" "n \<le> 32" and buf: "length (kbd_key_event_buffer st) = 32"
    using inv by (simp_all add: kbd_inv_def f_def n_def)
  have nz: "kbd_key_event_buffer_size st \<noteq> 0" using len by (auto simp: n_def)
  let ?st = "st\<lparr>kbd_key_event_buffer_front := of_nat ((f + 1) mod 32),
    kbd_key_event_buffer_size := kbd_key_event_buffer_size st - 1\<rparr>"
  have front: "unat (of_nat ((f + 1) mod 32) :: u8) = (f + 1) mod 32"
    by (rule u8_of_nat) (simp add: less_trans [OF mod_less_divisor])
  have size: "unat (kbd_key_event_buffer_size st - 1) = n - 1"
    unfolding n_def by (rule unat_minus_one [OF nz])
  have nth: "kbd_events st ! i = kbd_key_event_buffer st ! ((f + i) mod 32)" if "i < n" for i
    using that by (simp add: kbd_events_def f_def n_def)
  have e: "e = kbd_key_event_buffer st ! f" using nth [of 0] ev len f by simp
  have idx: "unat (ucast (kbd_key_event_buffer_front st) :: u64) = f"
    using u8_index [of f] f by (simp add: f_def)
  have "kbd_get_key_event_from_buffer st = Some (KBD_ERROR_KEY_EVENT_BUFFER_OK, Some e, ?st)"
    using nz f(1) buf
    by (simp add: kbd_get_key_event_from_buffer_def arr_get_def idx e f_def [symmetric] word_le_nat_alt unat_eq_0)
  moreover
  have sel: "kbd_key_event_buffer ?st = kbd_key_event_buffer st"
    "kbd_key_event_buffer_size ?st = kbd_key_event_buffer_size st - 1"
    "kbd_key_event_buffer_front ?st = of_nat ((f + 1) mod 32)"
    "kbd_key_event_buffer_capacity ?st = kbd_key_event_buffer_capacity st"
    by simp_all
  have "kbd_inv ?st"
    using inv f(2) unfolding kbd_inv_def sel front size by simp
  moreover have "kbd_events ?st = es"
  proof (rule nth_equalityI)
    show "length (kbd_events ?st) = length es"
      unfolding length_kbd_events sel size using len by simp
    fix i assume "i < length (kbd_events ?st)"
    then have i: "i < n - 1" unfolding length_kbd_events sel size .
    have "kbd_events ?st ! i = kbd_key_event_buffer st ! ((f + 1 + i) mod 32)"
      using i unfolding kbd_events_def sel front size by (simp add: mod_add_left_eq)
    also have "\<dots> = kbd_events st ! Suc i" using nth [of "Suc i"] i by simp
    finally show "kbd_events ?st ! i = es ! i" by (simp add: ev)
  qed
  ultimately show ?thesis by blast
qed

lemma kbd_get_empty:
  assumes "kbd_inv st" "kbd_events st = []"
  shows "kbd_get_key_event_from_buffer st = Some (KBD_ERROR_KEY_EVENT_BUFFER_EMPTY, None, st)"
proof -
  have "unat (kbd_key_event_buffer_size st) = 0" using assms(2) length_kbd_events [of st] by simp
  then show ?thesis by (simp add: kbd_get_key_event_from_buffer_def unat_eq_0)
qed

text \<open>Reading an event, with the error code folded into the missing event.\<close>

definition kbd_take_event :: "kbd_state \<Rightarrow> (key_event_t option \<times> kbd_state) option" where
  "kbd_take_event st = map_option (\<lambda>(c, e, st'). (e, st')) (kbd_get_key_event_from_buffer st)"

interpretation kbd_queue: bounded_queue kbd_inv kbd_events 32 kbd_append_key_event_to_buffer kbd_take_event
proof unfold_locales
  fix st assume "kbd_inv st"
  then show "length (kbd_events st) \<le> 32" by (simp add: length_kbd_events kbd_inv_def)
next
  fix st x xs assume "kbd_inv st" "kbd_events st = x # xs"
  then show "\<exists>s'. kbd_take_event st = Some (Some x, s') \<and> kbd_inv s' \<and> kbd_events s' = xs"
    using kbd_get_some by (fastforce simp: kbd_take_event_def)
qed (simp_all add: kbd_append_room kbd_append_full kbd_take_event_def kbd_get_empty)

section \<open>Properties\<close>

text \<open>
  Appending a key event to a well-formed buffer never fails: with room, the events are the old ones
  and the new one; if the buffer is full, the oldest event is dropped.
\<close>

theorem kbd_append_correct:
  assumes "kbd_inv st"
  shows "\<exists>st'. kbd_append_key_event_to_buffer e st = Some st' \<and> kbd_inv st' \<and>
    kbd_events st' = (if length (kbd_events st) < 32 then kbd_events st @ [e] else tl (kbd_events st) @ [e])"
  using kbd_append_room [OF assms, of e] kbd_append_full [OF assms, of e] kbd_queue.items_bound [OF assms]
  by (cases "length (kbd_events st) < 32") simp_all

lemma kbd_append_correct_witness:
  "\<exists>st'. kbd_append_key_event_to_buffer \<lparr>keycode = KEY_A, pressed = KEY_EVENT_TYPE_PRESSED, modifiers = 0\<rparr>
     kbd_boot_state = Some st' \<and>
     kbd_events st' = [\<lparr>keycode = KEY_A, pressed = KEY_EVENT_TYPE_PRESSED, modifiers = 0\<rparr>]"
  using kbd_append_correct [OF kbd_boot_inv(1)] by (simp add: kbd_boot_inv(2)) blast

text \<open>
  C27: the event queue is first in, first out, and keeps the latest 32 events: after any sequence of
  events is appended to the empty buffer, reading returns the latest 32 of them in order, and then
  that the buffer is empty.
\<close>

theorem kbd_queue_order:
  "\<exists>st1 st2. append_all kbd_append_key_event_to_buffer es kbd_boot_state = Some st1 \<and>
    take_times kbd_take_event (Suc (min 32 (length es))) st1 = Some (map Some (latest 32 es) @ [None], st2)"
  by (rule kbd_queue.append_take [OF kbd_boot_inv])

text \<open>
  The characters of a pressed key: AltGr selects the AltGr table; otherwise Shift and Caps Lock
  cancel each other, exactly one of them selects the table of shifted characters.
\<close>

theorem kbd_ascii_tables:
  assumes "pressed e \<noteq> KEY_EVENT_TYPE_RELEASED"
  shows "kbd_key_event_to_ascii e = layout_string
    (if bit (modifiers e) 3 then altgr kbd_layout_german
     else if bit (modifiers e) 0 \<noteq> bit (modifiers e) 1 then shift kbd_layout_german
     else normal kbd_layout_german) (keycode e)"
proof -
  have m: "modifiers e AND 8 = 0 \<longleftrightarrow> \<not> bit (modifiers e) 3" "modifiers e AND 2 = 0 \<longleftrightarrow> \<not> bit (modifiers e) 1"
    "modifiers e AND 1 = 0 \<longleftrightarrow> \<not> bit (modifiers e) 0"
    using and_push_bit_1_eq_0 [of "modifiers e" 3] and_push_bit_1_eq_0 [of "modifiers e" 1]
      and_push_bit_1_eq_0 [of "modifiers e" 0] by simp_all
  show ?thesis using assms by (simp add: kbd_key_event_to_ascii_def m)
qed

lemma kbd_ascii_tables_witness:
  "kbd_key_event_to_ascii \<lparr>keycode = KEY_Q, pressed = KEY_EVENT_TYPE_PRESSED, modifiers = 8\<rparr> = Some [CHR 0x40]"
proof -
  let ?e = "\<lparr>keycode = KEY_Q, pressed = KEY_EVENT_TYPE_PRESSED, modifiers = 8\<rparr> :: key_event_t"
  have "kbd_key_event_to_ascii ?e = layout_string (altgr kbd_layout_german) KEY_Q"
    using kbd_ascii_tables [of ?e] by simp
  then show ?thesis
    by (simp add: kbd_layout_german_def german_altgr_def layout_string_def)
qed

text \<open>
  With Caps Lock on, Enter, Tab and Backspace produce nothing: they are only in the table of
  unshifted characters, but Caps Lock selects the other table for every key.
\<close>

theorem kbd_caps_lock_drops_control_keys:
  "map (\<lambda>k. (kbd_key_event_to_ascii \<lparr>keycode = k, pressed = KEY_EVENT_TYPE_PRESSED, modifiers = 0\<rparr>,
             kbd_key_event_to_ascii \<lparr>keycode = k, pressed = KEY_EVENT_TYPE_PRESSED,
               modifiers = KBD_MODIFIER_MASK_CAPS_LOCK\<rparr>)) [KEY_ENTER, KEY_TAB, KEY_BACKSPACE] =
   [(Some [CHR 0x0A], Some []), (Some [CHR 0x09], Some []), (Some [CHR 0x08], Some [])]"
  by code_simp

end
