(* ===== verification/Ps2Keyboard.thy ===== *)
theory Ps2Keyboard
  imports Ps2 Keyboard
begin

text \<open>
  The PS/2 keyboard driver (kernel/src/drivers/ps2_keyboard.c, ps2_keyboard.h): the scancode decoder,
  a state machine of 13 states that takes one byte per interrupt; the modifier flags; and the
  initialization of the keyboard. The static variables of the file and of its functions, and the key
  event buffer, are the record \<open>ps2_kbd_driver\<close>.
\<close>

section \<open>Data\<close>

datatype ps2_kbd_error_codes_t =
  PS2_KBD_OK | PS2_KBD_ERROR_ALREADY_INITIALIZED | PS2_KBD_ERROR_SET_SCANCODE_SET_FAILED
  | PS2_KBD_ERROR_TOO_MANY_RESENDS

abbreviation (input) PS2_KBD_ENABLE_SCANNING :: u8 where "PS2_KBD_ENABLE_SCANNING \<equiv> 0xf4"
abbreviation (input) PS2_KBD_DISABLE_SCANNING :: u8 where "PS2_KBD_DISABLE_SCANNING \<equiv> 0xf5"
abbreviation (input) PS2_KBD_GET_SET_SCANCODE_SET :: u8 where "PS2_KBD_GET_SET_SCANCODE_SET \<equiv> 0xf0"

datatype ps2_kbd_scancode_set_t =
  PS2_KBD_GET_CURRENT_SCANCODE_SET | PS2_KBD_SCANCODE_SET_1 | PS2_KBD_SCANCODE_SET_2 | PS2_KBD_SCANCODE_SET_3

fun scancode_set_value :: "ps2_kbd_scancode_set_t \<Rightarrow> u8" where
  "scancode_set_value PS2_KBD_GET_CURRENT_SCANCODE_SET = 0"
| "scancode_set_value PS2_KBD_SCANCODE_SET_1 = 1"
| "scancode_set_value PS2_KBD_SCANCODE_SET_2 = 2"
| "scancode_set_value PS2_KBD_SCANCODE_SET_3 = 3"

datatype ps2_kbd_state_t =
  PS2_KBD_STATE_UNINITIALIZED | PS2_KBD_STATE_NORMAL | PS2_KBD_STATE_PREFIX_E0
  | PS2_KBD_STATE_PREFIX_E02A | PS2_KBD_STATE_PREFIX_E02AE0 | PS2_KBD_STATE_PREFIX_E0B7
  | PS2_KBD_STATE_PREFIX_E0B7E0 | PS2_KBD_STATE_PREFIX_E1 | PS2_KBD_STATE_PREFIX_E11D
  | PS2_KBD_STATE_PREFIX_E11D45 | PS2_KBD_STATE_PREFIX_E11D45E1 | PS2_KBD_STATE_PREFIX_E11D45E19D
  | PS2_KBD_STATE_INVALID

text \<open>The statics of \<open>ps2_kbd_set_modifiers\<close>.\<close>

record modifier_statics =
  modifiers_old :: u16
  num_shift_keys_pressed :: u8
  num_strg_keys_pressed :: u8

record ps2_kbd_driver =
  ps2_kbd_state :: ps2_kbd_state_t
  ps2_kbd_port :: u8
  ps2_kbd_modifiers :: modifier_statics
  ps2_kbd_buffer :: kbd_state

definition ps2_kbd_boot :: ps2_kbd_driver where
  "ps2_kbd_boot =
     \<lparr>ps2_kbd_state = PS2_KBD_STATE_UNINITIALIZED, ps2_kbd_port = 0,
      ps2_kbd_modifiers = \<lparr>modifiers_old = 0, num_shift_keys_pressed = 0, num_strg_keys_pressed = 0\<rparr>,
      ps2_kbd_buffer = kbd_boot_state\<rparr>"

section \<open>Scancodes\<close>

text \<open>The designated initializers of the table; all other elements are \<open>KEY_UNKNOWN\<close>.\<close>

definition ps2_kbd_scancode_set_1_keys :: "(u8 \<times> key_code_t) list" where
  "ps2_kbd_scancode_set_1_keys =
     [(0x01, KEY_ESC), (0x02, KEY_1), (0x03, KEY_2), (0x04, KEY_3), (0x05, KEY_4), (0x06, KEY_5),
      (0x07, KEY_6), (0x08, KEY_7), (0x09, KEY_8), (0x0a, KEY_9), (0x0b, KEY_0), (0x0c, KEY_SZ),
      (0x0d, KEY_BACK_TICK), (0x0e, KEY_BACKSPACE), (0x0f, KEY_TAB), (0x10, KEY_Q),
      (0x11, KEY_W), (0x12, KEY_E), (0x13, KEY_R), (0x14, KEY_T), (0x15, KEY_Z), (0x16, KEY_U),
      (0x17, KEY_I), (0x18, KEY_O), (0x19, KEY_P), (0x1a, KEY_UE), (0x1b, KEY_PLUS),
      (0x1c, KEY_ENTER), (0x1d, KEY_LSTRG), (0x1e, KEY_A), (0x1f, KEY_S), (0x20, KEY_D),
      (0x21, KEY_F), (0x22, KEY_G), (0x23, KEY_H), (0x24, KEY_J), (0x25, KEY_K), (0x26, KEY_L),
      (0x27, KEY_OE), (0x28, KEY_AE), (0x29, KEY_CIRCUMFLEX), (0x2a, KEY_LSHIFT),
      (0x2b, KEY_HASHTAG), (0x2c, KEY_Y), (0x2d, KEY_X), (0x2e, KEY_C), (0x2f, KEY_V),
      (0x30, KEY_B), (0x31, KEY_N), (0x32, KEY_M), (0x33, KEY_COMMA), (0x34, KEY_PERIOD),
      (0x35, KEY_MINUS), (0x36, KEY_RSHIFT), (0x37, KEY_KEYPAD_ASTERISK), (0x38, KEY_ALT),
      (0x39, KEY_SPACE), (0x3a, KEY_CAPS_LOCK), (0x3b, KEY_F1), (0x3c, KEY_F2), (0x3d, KEY_F3),
      (0x3e, KEY_F4), (0x3f, KEY_F5), (0x40, KEY_F6), (0x41, KEY_F7), (0x42, KEY_F8),
      (0x43, KEY_F9), (0x44, KEY_F10), (0x45, KEY_NUM_LOCK), (0x46, KEY_SCROLL_LOCK),
      (0x47, KEY_KEYPAD_7), (0x48, KEY_KEYPAD_8), (0x49, KEY_KEYPAD_9), (0x4a, KEY_KEYPAD_MINUS),
      (0x4b, KEY_KEYPAD_4), (0x4c, KEY_KEYPAD_5), (0x4d, KEY_KEYPAD_6), (0x4e, KEY_KEYPAD_PLUS),
      (0x4f, KEY_KEYPAD_1), (0x50, KEY_KEYPAD_2), (0x51, KEY_KEYPAD_3), (0x52, KEY_KEYPAD_0),
      (0x53, KEY_KEYPAD_DELETE), (0x57, KEY_F11), (0x56, KEY_LESS_THEN), (0x58, KEY_F12),
      (0x90, KEY_MULTIMEDIA_PREVIOUS_TRACK), (0x99, KEY_MULTIMEDIA_NEXT_TRACK),
      (0x9c, KEY_KEYPAD_ENTER), (0x9d, KEY_RSTRG), (0xa0, KEY_MULTIMEDIA_MUTE),
      (0xa1, KEY_MULTIMEDIA_CALCULATOR), (0xa2, KEY_MULTIMEDIA_PLAY),
      (0xa4, KEY_MULTIMEDIA_STOP), (0xae, KEY_MULTIMEDIA_VOLUME_DOWN),
      (0xb0, KEY_MULTIMEDIA_VOLUME_UP), (0xb2, KEY_MULTIMEDIA_WWW_HOME),
      (0xb5, KEY_KEYPAD_SLASH), (0xb8, KEY_ALTGR), (0xc7, KEY_POS1), (0xc8, KEY_UP),
      (0xc9, KEY_PAGE_UP), (0xcb, KEY_LEFT), (0xcd, KEY_RIGHT), (0xcf, KEY_END),
      (0xd0, KEY_DOWN), (0xd1, KEY_PAGE_DOWN), (0xd2, KEY_INSERT), (0xd3, KEY_DEL),
      (0xdb, KEY_LSUPER), (0xdc, KEY_RSUPER), (0xdd, KEY_MENU), (0xde, KEY_POWER),
      (0xdf, KEY_SLEEP), (0xe3, KEY_WAKE), (0xe5, KEY_MULTIMEDIA_WWW_SEARCH),
      (0xe6, KEY_MULTIMEDIA_FAVORITES), (0xe7, KEY_MULTIMEDIA_WWW_REFRESH),
      (0xe8, KEY_MULTIMEDIA_WWW_STOP), (0xe9, KEY_MULTIMEDIA_WWW_FORWARD),
      (0xea, KEY_MULTIMEDIA_WWW_BACK), (0xeb, KEY_MULTIMEDIA_MY_COMPUTER),
      (0xec, KEY_MULTIMEDIA_EMAIL), (0xed, KEY_MULTIMEDIA_MEDIA_SELECT),
      (0xb7, KEY_PRINT_SCREEN), (0xaa, KEY_PRINT_SCREEN), (0xc5, KEY_PAUSE)]"



definition ps2_kbd_mapping_scancode_set_1_to_keycode :: "u8 \<Rightarrow> key_code_t" where
  "ps2_kbd_mapping_scancode_set_1_to_keycode scancode =
     (case map_of (rev ps2_kbd_scancode_set_1_keys) scancode of Some k \<Rightarrow> k | None \<Rightarrow> KEY_UNKNOWN)"

definition ps2_kbd_scancode_to_keycode :: "u8 \<Rightarrow> ps2_kbd_state_t \<Rightarrow> ps2_kbd_scancode_set_t \<Rightarrow> key_code_t" where
  "ps2_kbd_scancode_to_keycode scancode state scancode_set =
     (case scancode_set of
        PS2_KBD_SCANCODE_SET_1 \<Rightarrow>
          let scancode = scancode AND NOT (push_bit 7 1);
              scancode = (if state \<noteq> PS2_KBD_STATE_NORMAL then scancode OR push_bit 7 1 else scancode)
          in ps2_kbd_mapping_scancode_set_1_to_keycode scancode
      | _ \<Rightarrow> KEY_UNKNOWN)"

section \<open>Modifiers\<close>

text \<open>The two parts of the function that the key's case jumps to.\<close>

definition apply_toggled_modifiers_mask ::
    "u16 \<Rightarrow> key_event_t \<Rightarrow> modifier_statics \<Rightarrow> key_event_t \<times> modifier_statics" where
  "apply_toggled_modifiers_mask msk key_event ms =
     (let ms = (if pressed key_event = KEY_EVENT_TYPE_PRESSED
                then ms\<lparr>modifiers_old := modifiers_old ms XOR msk\<rparr> else ms)
      in (key_event\<lparr>modifiers := modifiers_old ms\<rparr>, ms))"

definition apply_pressed_released_modifiers_mask ::
    "u16 \<Rightarrow> key_event_t \<Rightarrow> modifier_statics \<Rightarrow> key_event_t \<times> modifier_statics" where
  "apply_pressed_released_modifiers_mask msk key_event ms =
     (let ms = (if pressed key_event = KEY_EVENT_TYPE_PRESSED
                then ms\<lparr>modifiers_old := modifiers_old ms OR msk\<rparr>
                else ms\<lparr>modifiers_old := modifiers_old ms AND NOT msk\<rparr>)
      in (key_event\<lparr>modifiers := modifiers_old ms\<rparr>, ms))"

definition ps2_kbd_set_modifiers :: "key_event_t \<Rightarrow> modifier_statics \<Rightarrow> key_event_t \<times> modifier_statics" where
  "ps2_kbd_set_modifiers key_event ms =
     (if keycode key_event = KEY_CAPS_LOCK
      then apply_toggled_modifiers_mask KBD_MODIFIER_MASK_CAPS_LOCK key_event ms
      else if keycode key_event = KEY_NUM_LOCK
      then apply_toggled_modifiers_mask KBD_MODIFIER_MASK_NUM_LOCK key_event ms
      else if keycode key_event = KEY_SCROLL_LOCK
      then apply_toggled_modifiers_mask KBD_MODIFIER_MASK_SCROLL_LOCK key_event ms
      else if keycode key_event = KEY_LSHIFT \<or> keycode key_event = KEY_RSHIFT then
        (if pressed key_event = KEY_EVENT_TYPE_PRESSED
         then apply_pressed_released_modifiers_mask KBD_MODIFIER_MASK_SHIFT key_event
                (ms\<lparr>num_shift_keys_pressed := num_shift_keys_pressed ms + 1\<rparr>)
         else
           let ms = ms\<lparr>num_shift_keys_pressed := num_shift_keys_pressed ms - 1\<rparr>
           in apply_pressed_released_modifiers_mask
                (if num_shift_keys_pressed ms = 0 then KBD_MODIFIER_MASK_SHIFT else 0) key_event ms)
      else if keycode key_event = KEY_LSTRG \<or> keycode key_event = KEY_RSTRG then
        (if pressed key_event = KEY_EVENT_TYPE_PRESSED
         then apply_pressed_released_modifiers_mask KBD_MODIFIER_MASK_STRG key_event
                (ms\<lparr>num_strg_keys_pressed := num_strg_keys_pressed ms + 1\<rparr>)
         else
           let ms = ms\<lparr>num_strg_keys_pressed := num_strg_keys_pressed ms - 1\<rparr>
           in apply_pressed_released_modifiers_mask
                (if num_strg_keys_pressed ms = 0 then KBD_MODIFIER_MASK_STRG else 0) key_event ms)
      else if keycode key_event = KEY_ALT
      then apply_pressed_released_modifiers_mask KBD_MODIFIER_MASK_ALT key_event ms
      else if keycode key_event = KEY_ALTGR
      then apply_pressed_released_modifiers_mask KBD_MODIFIER_MASK_ALTGR key_event ms
      else if keycode key_event = KEY_LSUPER
      then apply_pressed_released_modifiers_mask KBD_MODIFIER_MASK_LSUPER key_event ms
      else if keycode key_event = KEY_RSUPER
      then apply_pressed_released_modifiers_mask KBD_MODIFIER_MASK_RSUPER key_event ms
      else (key_event\<lparr>modifiers := modifiers_old ms\<rparr>, ms))"

section \<open>Interrupts\<close>

text \<open>
  The switch over the state: the state after a byte that does not complete a scancode; \<open>None\<close> where
  the code goes on to the translation, in the state it is in.
\<close>

fun ps2_kbd_next_state :: "ps2_kbd_state_t \<Rightarrow> u8 \<Rightarrow> ps2_kbd_state_t option" where
  "ps2_kbd_next_state PS2_KBD_STATE_NORMAL b =
     (if b = 0xe0 then Some PS2_KBD_STATE_PREFIX_E0
      else if b = 0xe1 then Some PS2_KBD_STATE_PREFIX_E1 else None)"
| "ps2_kbd_next_state PS2_KBD_STATE_PREFIX_E0 b =
     (if b = 0x2a then Some PS2_KBD_STATE_PREFIX_E02A
      else if b = 0xb7 then Some PS2_KBD_STATE_PREFIX_E0B7 else None)"
| "ps2_kbd_next_state PS2_KBD_STATE_PREFIX_E02A b =
     (if b = 0xe0 then Some PS2_KBD_STATE_PREFIX_E02AE0 else Some PS2_KBD_STATE_INVALID)"
| "ps2_kbd_next_state PS2_KBD_STATE_PREFIX_E02AE0 b =
     (if b \<noteq> 0x37 then Some PS2_KBD_STATE_NORMAL else None)"
| "ps2_kbd_next_state PS2_KBD_STATE_PREFIX_E0B7 b =
     (if b = 0xe0 then Some PS2_KBD_STATE_PREFIX_E02AE0 else Some PS2_KBD_STATE_INVALID)"
| "ps2_kbd_next_state PS2_KBD_STATE_PREFIX_E0B7E0 b =
     (if b \<noteq> 0xaa then Some PS2_KBD_STATE_NORMAL else None)"
| "ps2_kbd_next_state PS2_KBD_STATE_PREFIX_E1 b =
     (if b = 0x1d then Some PS2_KBD_STATE_PREFIX_E11D else Some PS2_KBD_STATE_INVALID)"
| "ps2_kbd_next_state PS2_KBD_STATE_PREFIX_E11D b =
     (if b = 0x45 then Some PS2_KBD_STATE_PREFIX_E11D45 else Some PS2_KBD_STATE_INVALID)"
| "ps2_kbd_next_state PS2_KBD_STATE_PREFIX_E11D45 b =
     (if b = 0xe1 then Some PS2_KBD_STATE_PREFIX_E11D45E1 else Some PS2_KBD_STATE_INVALID)"
| "ps2_kbd_next_state PS2_KBD_STATE_PREFIX_E11D45E1 b =
     (if b = 0x9d then Some PS2_KBD_STATE_PREFIX_E11D45E19D else Some PS2_KBD_STATE_INVALID)"
| "ps2_kbd_next_state PS2_KBD_STATE_PREFIX_E11D45E19D b =
     (if b \<noteq> 0xc5 then Some PS2_KBD_STATE_NORMAL else None)"
| "ps2_kbd_next_state PS2_KBD_STATE_INVALID b =
     (if b = 0x37 \<or> b = 0xaa \<or> b = 0xc5 then Some PS2_KBD_STATE_NORMAL else Some PS2_KBD_STATE_INVALID)"
| "ps2_kbd_next_state PS2_KBD_STATE_UNINITIALIZED b = None"

text \<open>What the interrupt does with the byte it received.\<close>

text \<open>A complete scancode: its key event is appended to the buffer.\<close>

definition ps2_kbd_report_key :: "u8 \<Rightarrow> ps2_kbd_driver \<Rightarrow> ps2_kbd_driver option" where
  "ps2_kbd_report_key scancode_raw st =
     (let key_event = \<lparr>keycode = KEY_UNKNOWN, pressed = KEY_EVENT_TYPE_UNDEFINED, modifiers = 0\<rparr>;
          key_event = (if scancode_raw AND push_bit 7 1 = 0
                       then key_event\<lparr>pressed := KEY_EVENT_TYPE_PRESSED\<rparr>
                       else key_event\<lparr>pressed := KEY_EVENT_TYPE_RELEASED\<rparr>);
          key_event = key_event\<lparr>keycode :=
            ps2_kbd_scancode_to_keycode scancode_raw (ps2_kbd_state st) PS2_KBD_SCANCODE_SET_1\<rparr>;
          (key_event, ms) = ps2_kbd_set_modifiers key_event (ps2_kbd_modifiers st)
      in do {
           buf \<leftarrow> kbd_append_key_event_to_buffer key_event (ps2_kbd_buffer st);
           Some (st\<lparr>ps2_kbd_modifiers := ms, ps2_kbd_buffer := buf,
                    ps2_kbd_state := PS2_KBD_STATE_NORMAL\<rparr>)
         })"

definition ps2_kbd_process_byte :: "u8 \<Rightarrow> ps2_kbd_driver \<Rightarrow> ps2_kbd_driver option" where
  "ps2_kbd_process_byte scancode_raw st =
     (case ps2_kbd_next_state (ps2_kbd_state st) scancode_raw of
        Some s \<Rightarrow> Some (st\<lparr>ps2_kbd_state := s\<rparr>)
      | None \<Rightarrow> ps2_kbd_report_key scancode_raw st)"

definition ps2_kbd_irq_callback ::
    "device \<Rightarrow> ps2_kbd_driver \<Rightarrow> io_trace \<Rightarrow> (ps2_kbd_driver \<times> io_trace) option" where
  "ps2_kbd_irq_callback dev st tr =
     do {
       ((_, scancode_raw), tr) \<leftarrow> ps2_receive_byte dev tr;
       st \<leftarrow> ps2_kbd_process_byte scancode_raw st;
       Some (st, tr)
     }"

section \<open>Initialization\<close>

text \<open>The \<open>do .. while\<close> loop; \<open>tries\<close> counts up to 3. The results of sending are ignored.\<close>

function set_scancode_set_loop ::
    "device \<Rightarrow> u8 \<Rightarrow> ps2_kbd_scancode_set_t \<Rightarrow> nat \<Rightarrow> io_trace \<Rightarrow> (nat \<times> io_trace) option" where
  "set_scancode_set_loop dev port scancode_set tries tr =
     do {
       (_, tr) \<leftarrow> ps2_send_byte dev port PS2_KBD_GET_SET_SCANCODE_SET tr;
       (_, tr) \<leftarrow> ps2_receive_byte dev tr;
       (_, tr) \<leftarrow> ps2_send_byte dev port (scancode_set_value scancode_set) tr;
       ((_, response), tr) \<leftarrow> ps2_receive_byte dev tr;
       if response = 0xfa then Some (tries, tr)
       else
         let tries = tries + 1
         in if response = 0xfe \<and> tries < 3 then set_scancode_set_loop dev port scancode_set tries tr
            else Some (tries, tr)
     }"
  by pat_completeness auto
termination
  by (relation "measure (\<lambda>(dev, port, scancode_set, tries, tr). 3 - tries)") auto

declare set_scancode_set_loop.simps [simp del]

definition ps2_kbd_set_scancode_set ::
    "device \<Rightarrow> u8 \<Rightarrow> ps2_kbd_scancode_set_t \<Rightarrow> io_trace \<Rightarrow> (ps2_kbd_error_codes_t \<times> io_trace) option" where
  "ps2_kbd_set_scancode_set dev port scancode_set tr =
     do {
       (tries, tr) \<leftarrow> set_scancode_set_loop dev port scancode_set 0 tr;
       Some (if tries \<ge> 3 then PS2_KBD_ERROR_TOO_MANY_RESENDS else PS2_KBD_OK, tr)
     }"

definition ps2_kbd_init ::
    "device \<Rightarrow> u8 \<Rightarrow> ps2_kbd_driver \<Rightarrow> io_trace \<Rightarrow> ((ps2_kbd_error_codes_t \<times> ps2_kbd_driver) \<times> io_trace) option" where
  "ps2_kbd_init dev port st tr =
     (let st = st\<lparr>ps2_kbd_port := port\<rparr> in
      if ps2_kbd_state st \<noteq> PS2_KBD_STATE_UNINITIALIZED
      then Some ((PS2_KBD_ERROR_ALREADY_INITIALIZED, st), tr)
      else do {
        (_, tr) \<leftarrow> ps2_send_byte dev (ps2_kbd_port st) PS2_KBD_DISABLE_SCANNING tr;
        (c, tr) \<leftarrow> ps2_kbd_set_scancode_set dev (ps2_kbd_port st) PS2_KBD_SCANCODE_SET_1 tr;
        if c \<noteq> PS2_KBD_OK then Some ((PS2_KBD_ERROR_SET_SCANCODE_SET_FAILED, st), tr)
        else do {
          (_, tr) \<leftarrow> ps2_send_byte dev (ps2_kbd_port st) PS2_KBD_ENABLE_SCANNING tr;
          Some ((PS2_KBD_OK, st\<lparr>ps2_kbd_state := PS2_KBD_STATE_NORMAL\<rparr>), tr)
        }
      })"

section \<open>What the driver sends\<close>

lemma emits_set_scancode_set_loop [emit_rules]:
  assumes "io_ok P" "P (Out PS2_COMMAND PS2_CMD_SEND_NEXT_BYTE_TO_PORT_2)"
  shows "emits P tr (set_scancode_set_loop dev port s tries tr)"
proof (induction dev port s tries tr rule: set_scancode_set_loop.induct)
  case (1 dev port s tries tr)
  show ?case
    by (subst set_scancode_set_loop.simps)
      (auto intro!: emits_bind emits_send_byte [OF assms] emits_receive_byte [OF assms(1)] emits_Some
        "1.IH" simp: Let_def)
qed

lemma emits_kbd_init [emit_rules]:
  assumes "io_ok P" "P (Out PS2_COMMAND PS2_CMD_SEND_NEXT_BYTE_TO_PORT_2)"
  shows "emits P tr (ps2_kbd_init dev port st tr)"
  unfolding ps2_kbd_init_def ps2_kbd_set_scancode_set_def Let_def
  by (auto intro!: emits_bind emits_send_byte [OF assms] emits_set_scancode_set_loop [OF assms] emits_Some)

end
