(* ===== verification/Scancodes.thy ===== *)
theory Scancodes
  imports Ps2Keyboard
begin

text \<open>
  Correctness of the keyboard driver of Ps2Keyboard: the decoder against the scancodes of set 1 as a
  keyboard sends them, the modifier flags against the keys that are held, which decoder states are
  reachable, and an initialization without a keyboard.
\<close>

section \<open>Scancodes and their bytes\<close>

datatype scancode = Plain u8 | Extended u8 | Print_Screen_Pressed | Print_Screen_Released | Pause

fun encode :: "scancode \<Rightarrow> u8 list" where
  "encode (Plain b) = [b]"
| "encode (Extended b) = [0xe0, b]"
| "encode Print_Screen_Pressed = [0xe0, 0x2a, 0xe0, 0x37]"
| "encode Print_Screen_Released = [0xe0, 0xb7, 0xe0, 0xaa]"
| "encode Pause = [0xe1, 0x1d, 0x45, 0xe1, 0x9d, 0xc5]"

text \<open>The prefix bytes are not scancodes, nor are the first bytes of the codes of Print Screen.\<close>

fun valid_scancode :: "scancode \<Rightarrow> bool" where
  "valid_scancode (Plain b) \<longleftrightarrow> b \<noteq> 0xe0 \<and> b \<noteq> 0xe1"
| "valid_scancode (Extended b) \<longleftrightarrow> b \<noteq> 0x2a \<and> b \<noteq> 0xb7"
| "valid_scancode _ \<longleftrightarrow> True"

definition press_kind :: "u8 \<Rightarrow> key_event_type_t" where
  "press_kind b = (if bit b 7 then KEY_EVENT_TYPE_RELEASED else KEY_EVENT_TYPE_PRESSED)"

text \<open>What each scancode should report; the code reports nothing for the release of Print Screen.\<close>

fun reported :: "scancode \<Rightarrow> (key_code_t \<times> key_event_type_t) list" where
  "reported (Plain b) = [(ps2_kbd_mapping_scancode_set_1_to_keycode (b AND 0x7f), press_kind b)]"
| "reported (Extended b) = [(ps2_kbd_mapping_scancode_set_1_to_keycode (b OR 0x80), press_kind b)]"
| "reported Print_Screen_Pressed = [(KEY_PRINT_SCREEN, KEY_EVENT_TYPE_PRESSED)]"
| "reported Print_Screen_Released = []"
| "reported Pause = [(KEY_PAUSE, KEY_EVENT_TYPE_RELEASED)]"

text \<open>The key events with their modifiers, which depend on the events before.\<close>

fun events_of :: "(key_code_t \<times> key_event_type_t) list \<Rightarrow> modifier_statics \<Rightarrow> key_event_t list \<times> modifier_statics" where
  "events_of [] ms = ([], ms)"
| "events_of ((k, p) # ks) ms =
     (let (e, ms) = ps2_kbd_set_modifiers \<lparr>keycode = k, pressed = p, modifiers = 0\<rparr> ms;
          (es, ms) = events_of ks ms
      in (e # es, ms))"

lemma events_of_append:
  "events_of (ks @ ls) ms =
     (let (es, ms) = events_of ks ms; (fs, ms) = events_of ls ms in (es @ fs, ms))"
  by (induction ks ms rule: events_of.induct) (auto simp: Let_def split: prod.splits)

section \<open>The decoder\<close>

definition driver_ok :: "ps2_kbd_driver \<Rightarrow> bool" where
  "driver_ok st \<longleftrightarrow> ps2_kbd_state st = PS2_KBD_STATE_NORMAL \<and> kbd_inv (ps2_kbd_buffer st)"

text \<open>A driver that reported keys: the events are appended, and the flags changed.\<close>

definition driver_reported ::
    "(key_code_t \<times> key_event_type_t) list \<Rightarrow> ps2_kbd_driver \<Rightarrow> ps2_kbd_driver \<Rightarrow> bool" where
  "driver_reported ks st st' \<longleftrightarrow> driver_ok st' \<and> ps2_kbd_port st' = ps2_kbd_port st \<and>
     (let (es, ms) = events_of ks (ps2_kbd_modifiers st)
      in ps2_kbd_modifiers st' = ms \<and>
         kbd_events (ps2_kbd_buffer st') = latest 32 (kbd_events (ps2_kbd_buffer st) @ es))"

lemma process_prefix:
  "ps2_kbd_next_state (ps2_kbd_state st) b = Some s \<Longrightarrow>
     ps2_kbd_process_byte b st = Some (st\<lparr>ps2_kbd_state := s\<rparr>)"
  by (simp add: ps2_kbd_process_byte_def)

lemma press_kind_and: "(if b AND push_bit 7 1 = 0 then KEY_EVENT_TYPE_PRESSED else KEY_EVENT_TYPE_RELEASED) = press_kind b"
  using and_push_bit_1_eq_0 [of b 7] by (simp add: press_kind_def)

lemma process_complete:
  assumes "ps2_kbd_next_state (ps2_kbd_state st) b = None" "kbd_inv (ps2_kbd_buffer st)"
  shows "\<exists>st'. ps2_kbd_process_byte b st = Some st' \<and>
    driver_reported [(ps2_kbd_scancode_to_keycode b (ps2_kbd_state st) PS2_KBD_SCANCODE_SET_1, press_kind b)] st st'"
proof -
  let ?k = "ps2_kbd_scancode_to_keycode b (ps2_kbd_state st) PS2_KBD_SCANCODE_SET_1"
  obtain e ms where e: "ps2_kbd_set_modifiers \<lparr>keycode = ?k, pressed = press_kind b, modifiers = 0\<rparr>
      (ps2_kbd_modifiers st) = (e, ms)" by fastforce
  obtain buf where buf: "kbd_append_key_event_to_buffer e (ps2_kbd_buffer st) = Some buf" "kbd_inv buf"
    "kbd_events buf = latest 32 (kbd_events (ps2_kbd_buffer st) @ [e])"
    using kbd_queue.append_total [OF assms(2)] by blast
  have ev: "(if b AND push_bit 7 1 = 0
      then \<lparr>keycode = KEY_UNKNOWN, pressed = KEY_EVENT_TYPE_UNDEFINED, modifiers = 0\<rparr>\<lparr>pressed := KEY_EVENT_TYPE_PRESSED\<rparr>
      else \<lparr>keycode = KEY_UNKNOWN, pressed = KEY_EVENT_TYPE_UNDEFINED, modifiers = 0\<rparr>\<lparr>pressed := KEY_EVENT_TYPE_RELEASED\<rparr>)
      \<lparr>keycode := ?k\<rparr> = \<lparr>keycode = ?k, pressed = press_kind b, modifiers = 0\<rparr>"
    unfolding press_kind_and [symmetric] by simp
  have "ps2_kbd_process_byte b st = Some (st\<lparr>ps2_kbd_modifiers := ms, ps2_kbd_buffer := buf,
      ps2_kbd_state := PS2_KBD_STATE_NORMAL\<rparr>)"
    unfolding ps2_kbd_process_byte_def ps2_kbd_report_key_def assms(1) option.case Let_def ev e prod.case buf(1) by simp
  then show ?thesis using e buf(2,3) by (simp add: driver_reported_def driver_ok_def Let_def)
qed

lemma scancode_plain:
  "ps2_kbd_scancode_to_keycode b PS2_KBD_STATE_NORMAL PS2_KBD_SCANCODE_SET_1 =
     ps2_kbd_mapping_scancode_set_1_to_keycode (b AND 0x7f)"
proof -
  have "NOT (push_bit 7 1) = (0x7f :: u8)" by code_simp
  then show ?thesis unfolding ps2_kbd_scancode_to_keycode_def Let_def by (simp only: ps2_kbd_scancode_set_t.case) simp
qed

lemma scancode_prefixed:
  assumes "s \<noteq> PS2_KBD_STATE_NORMAL"
  shows "ps2_kbd_scancode_to_keycode b s PS2_KBD_SCANCODE_SET_1 =
     ps2_kbd_mapping_scancode_set_1_to_keycode (b OR 0x80)"
proof -
  have "b AND NOT (push_bit 7 1) OR push_bit 7 1 = b OR push_bit 7 1"
    by (rule bit_word_eqI) (auto simp: bit_simps)
  also have "\<dots> = b OR 0x80" by (simp add: push_bit_of_1)
  finally show ?thesis using assms by (simp add: ps2_kbd_scancode_to_keycode_def Let_def)
qed

text \<open>After a prefix the driver is as before but for its state, and completes from there.\<close>

lemma process_completed:
  assumes "kbd_inv (ps2_kbd_buffer st)" "ps2_kbd_next_state s b = None" "s \<noteq> PS2_KBD_STATE_NORMAL"
  shows "\<exists>st'. ps2_kbd_process_byte b (st\<lparr>ps2_kbd_state := s\<rparr>) = Some st' \<and>
    driver_reported [(ps2_kbd_mapping_scancode_set_1_to_keycode (b OR 0x80), press_kind b)] st st'"
  using process_complete [of "st\<lparr>ps2_kbd_state := s\<rparr>" b] assms scancode_prefixed [OF assms(3)]
  by (simp add: driver_reported_def)

lemma decode_scancode:
  assumes "driver_ok st" "valid_scancode sc"
  shows "\<exists>st'. append_all ps2_kbd_process_byte (encode sc) st = Some st' \<and> driver_reported (reported sc) st st'"
proof -
  have n: "ps2_kbd_state st = PS2_KBD_STATE_NORMAL" and i: "kbd_inv (ps2_kbd_buffer st)"
    using assms(1) by (simp_all add: driver_ok_def)
  show ?thesis
  proof (cases sc)
    case (Plain b)
    then have "ps2_kbd_next_state (ps2_kbd_state st) b = None" using assms(2) n by simp
    from process_complete [OF this i] show ?thesis by (auto simp: Plain n scancode_plain)
  next
    case (Extended b)
    then have "ps2_kbd_next_state PS2_KBD_STATE_PREFIX_E0 b = None" using assms(2) by simp
    from process_completed [OF i this] show ?thesis by (auto simp: Extended n process_prefix)
  next
    case Print_Screen_Pressed
    have "ps2_kbd_mapping_scancode_set_1_to_keycode (0x37 OR 0x80) = KEY_PRINT_SCREEN"
      "press_kind 0x37 = KEY_EVENT_TYPE_PRESSED" by code_simp+
    with process_completed [OF i, of PS2_KBD_STATE_PREFIX_E02AE0 "0x37"] show ?thesis
      by (auto simp: Print_Screen_Pressed n process_prefix)
  next
    case Print_Screen_Released
    have "st\<lparr>ps2_kbd_state := PS2_KBD_STATE_NORMAL\<rparr> = st" using n by simp
    then show ?thesis using assms(1)
      by (simp add: Print_Screen_Released n process_prefix driver_reported_def latest_short
          kbd_queue.items_bound [OF i] driver_ok_def)
  next
    case Pause
    have "ps2_kbd_mapping_scancode_set_1_to_keycode (0xc5 OR 0x80) = KEY_PAUSE"
      "press_kind 0xc5 = KEY_EVENT_TYPE_RELEASED" by code_simp+
    with process_completed [OF i, of PS2_KBD_STATE_PREFIX_E11D45E19D "0xc5"] show ?thesis
      by (auto simp: Pause n process_prefix)
  qed
qed

lemma driver_reported_trans:
  assumes "driver_reported ks st st1" "driver_reported ls st1 st2"
  shows "driver_reported (ks @ ls) st st2"
proof -
  obtain es ms where e: "events_of ks (ps2_kbd_modifiers st) = (es, ms)" by fastforce
  obtain fs ns where f: "events_of ls ms = (fs, ns)" by fastforce
  have "latest 32 (latest 32 xs @ ys) = latest 32 (xs @ ys)" for xs ys :: "key_event_t list"
    by (cases "length xs \<le> 32") (auto simp: latest_def add.commute)
  then show ?thesis using assms e f by (simp add: driver_reported_def events_of_append Let_def)
qed

lemma append_all_append:
  "append_all app (xs @ ys) s = Option.bind (append_all app xs s) (append_all app ys)"
proof (induction xs arbitrary: s)
  case (Cons x xs)
  then show ?case by (cases "app x s") simp_all
qed simp

lemma decode_scancodes:
  assumes "driver_ok st" "list_all valid_scancode scs"
  shows "\<exists>st'. append_all ps2_kbd_process_byte (concat (map encode scs)) st = Some st' \<and>
    driver_reported (concat (map reported scs)) st st'"
  using assms
proof (induction scs arbitrary: st)
  case Nil
  then show ?case
    by (simp add: driver_reported_def latest_short kbd_queue.items_bound driver_ok_def)
next
  case (Cons sc scs)
  obtain st1 where st1: "append_all ps2_kbd_process_byte (encode sc) st = Some st1"
    "driver_reported (reported sc) st st1"
    using decode_scancode [OF Cons.prems(1)] Cons.prems(2) by auto
  then have "driver_ok st1" by (simp add: driver_reported_def)
  then obtain st2 where st2: "append_all ps2_kbd_process_byte (concat (map encode scs)) st1 = Some st2"
    "driver_reported (concat (map reported scs)) st1 st2"
    using Cons.IH [of st1] Cons.prems(2) by auto
  show ?case using st1(1) st2(1) driver_reported_trans [OF st1(2) st2(2)] by (simp add: append_all_append)
qed

section \<open>Reachable states\<close>

text \<open>The states of the decoder: from boot, by initialization, and by any byte.\<close>

inductive decoder_reachable :: "ps2_kbd_state_t \<Rightarrow> bool" where
  boot: "decoder_reachable PS2_KBD_STATE_UNINITIALIZED"
| init: "decoder_reachable PS2_KBD_STATE_UNINITIALIZED \<Longrightarrow> decoder_reachable PS2_KBD_STATE_NORMAL"
| prefix: "decoder_reachable s \<Longrightarrow> ps2_kbd_next_state s b = Some s' \<Longrightarrow> decoder_reachable s'"
| complete: "decoder_reachable s \<Longrightarrow> ps2_kbd_next_state s b = None \<Longrightarrow> decoder_reachable PS2_KBD_STATE_NORMAL"

lemma next_state_not_E0B7E0: "ps2_kbd_next_state s b \<noteq> Some PS2_KBD_STATE_PREFIX_E0B7E0"
  by (cases s) auto

lemma reachable_not_E0B7E0: "decoder_reachable s \<Longrightarrow> s \<noteq> PS2_KBD_STATE_PREFIX_E0B7E0"
  by (induction rule: decoder_reachable.induct) (use next_state_not_E0B7E0 in auto)

section \<open>Held keys\<close>

text \<open>
  The flags of \<open>ps2_kbd_set_modifiers\<close> with the set of keys held down, for a keyboard that reports a
  key as pressed only when it was not held, and as released only when it was.
\<close>

inductive typed :: "key_code_t set \<Rightarrow> modifier_statics \<Rightarrow> bool" where
  start: "typed {} \<lparr>modifiers_old = 0, num_shift_keys_pressed = 0, num_strg_keys_pressed = 0\<rparr>"
| press: "typed H ms \<Longrightarrow> k \<notin> H \<Longrightarrow>
    typed (insert k H) (snd (ps2_kbd_set_modifiers \<lparr>keycode = k, pressed = KEY_EVENT_TYPE_PRESSED, modifiers = 0\<rparr> ms))"
| release: "typed H ms \<Longrightarrow> k \<in> H \<Longrightarrow>
    typed (H - {k}) (snd (ps2_kbd_set_modifiers \<lparr>keycode = k, pressed = KEY_EVENT_TYPE_RELEASED, modifiers = 0\<rparr> ms))"

text \<open>How many of two keys are held.\<close>

definition held :: "key_code_t \<Rightarrow> key_code_t \<Rightarrow> key_code_t set \<Rightarrow> nat" where
  "held l r H = of_bool (l \<in> H) + of_bool (r \<in> H)"

definition flags_match :: "key_code_t set \<Rightarrow> modifier_statics \<Rightarrow> bool" where
  "flags_match H ms \<longleftrightarrow>
     num_shift_keys_pressed ms = of_nat (held KEY_LSHIFT KEY_RSHIFT H) \<and>
     num_strg_keys_pressed ms = of_nat (held KEY_LSTRG KEY_RSTRG H) \<and>
     (bit (modifiers_old ms) 0 \<longleftrightarrow> KEY_LSHIFT \<in> H \<or> KEY_RSHIFT \<in> H) \<and>
     (bit (modifiers_old ms) 4 \<longleftrightarrow> KEY_LSTRG \<in> H \<or> KEY_RSTRG \<in> H) \<and>
     (bit (modifiers_old ms) 2 \<longleftrightarrow> KEY_ALT \<in> H) \<and> (bit (modifiers_old ms) 3 \<longleftrightarrow> KEY_ALTGR \<in> H) \<and>
     (bit (modifiers_old ms) 7 \<longleftrightarrow> KEY_LSUPER \<in> H) \<and> (bit (modifiers_old ms) 8 \<longleftrightarrow> KEY_RSUPER \<in> H)"

lemma flag_bits:
  "bit (1 :: u16) n \<longleftrightarrow> n = 0" "bit (2 :: u16) n \<longleftrightarrow> n = 1" "bit (4 :: u16) n \<longleftrightarrow> n = 2" "bit (8 :: u16) n \<longleftrightarrow> n = 3"
  "bit (16 :: u16) n \<longleftrightarrow> n = 4" "bit (32 :: u16) n \<longleftrightarrow> n = 5" "bit (64 :: u16) n \<longleftrightarrow> n = 6"
  "bit (128 :: u16) n \<longleftrightarrow> n = 7" "bit (256 :: u16) n \<longleftrightarrow> n = 8"
  by (auto simp: bit_numeral_rec bit_1_iff split: nat.splits)

lemmas set_modifiers_simps = ps2_kbd_set_modifiers_def apply_toggled_modifiers_mask_def
  apply_pressed_released_modifiers_mask_def Let_def bit_and_iff bit_or_iff bit_xor_iff bit_not_iff flag_bits

lemma flags_match_press:
  assumes "flags_match H ms" "k \<notin> H"
  shows "flags_match (insert k H)
    (snd (ps2_kbd_set_modifiers \<lparr>keycode = k, pressed = KEY_EVENT_TYPE_PRESSED, modifiers = 0\<rparr> ms))"
  using assms by (auto simp: flags_match_def held_def set_modifiers_simps)

lemma flags_match_release:
  assumes "flags_match H ms" "k \<in> H"
  shows "flags_match (H - {k})
    (snd (ps2_kbd_set_modifiers \<lparr>keycode = k, pressed = KEY_EVENT_TYPE_RELEASED, modifiers = 0\<rparr> ms))"
  using assms by (auto simp: flags_match_def held_def set_modifiers_simps)

lemma typed_flags_match: "typed H ms \<Longrightarrow> flags_match H ms"
proof (induction rule: typed.induct)
  case start
  then show ?case by (simp add: flags_match_def held_def)
qed (simp_all add: flags_match_press flags_match_release)

section \<open>A keyboard that is not there\<close>

text \<open>A controller that always takes bytes and never has any: nothing is connected.\<close>

definition no_keyboard :: device where
  "no_keyboard tr port = 0"

lemma no_keyboard_receive: "\<exists>tr'. ps2_receive_byte no_keyboard tr = Some ((PS2_ERROR_TIMEOUT, 0), tr')"
proof -
  have "\<forall>k<PS2_TIMEOUT. \<not> ps2_output_buffer_full (no_keyboard (futile_reads no_keyboard PS2_STATUS k tr) PS2_STATUS)"
    by (simp add: no_keyboard_def ps2_output_buffer_full_def)
  from poll_limited_timeout [OF this] show ?thesis by (simp add: ps2_receive_byte_def)
qed

lemma no_keyboard_send:
  assumes "port \<noteq> PS2_PORT_2"
  shows "\<exists>tr'. ps2_send_attempts no_keyboard port data n tr = Some (PS2_ERROR_NO_ACK, tr')"
proof (induction n arbitrary: tr)
  case (Suc n)
  obtain c tr1 where c: "ps2_raw_send_byte no_keyboard port data tr = Some (c, tr1)"
    using raw_send_total [OF assms] by blast
  obtain tr2 where "ps2_receive_byte no_keyboard tr1 = Some ((PS2_ERROR_TIMEOUT, 0), tr2)"
    using no_keyboard_receive by blast
  then show ?case using Suc.IH [of tr1] Suc.IH [of tr2] c by (cases "c = PS2_OK") auto
qed simp

lemma no_keyboard_set_scancode_set:
  assumes "port \<noteq> PS2_PORT_2"
  shows "\<exists>tr'. ps2_kbd_set_scancode_set no_keyboard port s tr = Some (PS2_KBD_OK, tr')"
proof -
  obtain tr1 where 1: "ps2_send_byte no_keyboard port PS2_KBD_GET_SET_SCANCODE_SET tr = Some (PS2_ERROR_NO_ACK, tr1)"
    unfolding ps2_send_byte_def using no_keyboard_send [OF assms] by blast
  obtain tr2 where 2: "ps2_receive_byte no_keyboard tr1 = Some ((PS2_ERROR_TIMEOUT, 0), tr2)"
    using no_keyboard_receive by blast
  obtain tr3 where 3: "ps2_send_byte no_keyboard port (scancode_set_value s) tr2 = Some (PS2_ERROR_NO_ACK, tr3)"
    unfolding ps2_send_byte_def using no_keyboard_send [OF assms] by blast
  obtain tr4 where 4: "ps2_receive_byte no_keyboard tr3 = Some ((PS2_ERROR_TIMEOUT, 0), tr4)"
    using no_keyboard_receive by blast
  have "set_scancode_set_loop no_keyboard port s 0 tr = Some (1, tr4)"
    by (subst set_scancode_set_loop.simps) (simp add: 1 2 3 4)
  then show ?thesis by (simp add: ps2_kbd_set_scancode_set_def)
qed

section \<open>Properties\<close>



text \<open>
  The release of Print Screen is lost. The state for its third byte is never entered, as the
  transition after 0xe0 0xb7 0xe0 leads to the state of the press; so the code of the release leaves
  no event.
\<close>

theorem print_screen_release_lost:
  "\<not> decoder_reachable PS2_KBD_STATE_PREFIX_E0B7E0 \<and>
   append_all ps2_kbd_process_byte (encode Print_Screen_Released) (st\<lparr>ps2_kbd_state := PS2_KBD_STATE_NORMAL\<rparr>) =
     Some (st\<lparr>ps2_kbd_state := PS2_KBD_STATE_NORMAL\<rparr>)"
  using reachable_not_E0B7E0 by (auto simp: process_prefix)



text \<open>
  With repeated codes, as a keyboard sends them while a key is held, the counter of Shift keys runs
  off: after Shift is pressed, repeated once and released, an A still has the Shift flag.
\<close>

theorem shift_repeat_sticks:
  "map_option (\<lambda>st. map (\<lambda>e. (keycode e, modifiers e)) (kbd_events (ps2_kbd_buffer st)))
     (append_all ps2_kbd_process_byte [0x2a, 0x2a, 0xaa, 0x1e] (ps2_kbd_boot\<lparr>ps2_kbd_state := PS2_KBD_STATE_NORMAL\<rparr>)) =
   Some [(KEY_LSHIFT, 1), (KEY_LSHIFT, 1), (KEY_LSHIFT, 1), (KEY_A, 1)]"
  by code_simp

text \<open>
  The driver reports success without a keyboard: where nothing ever answers, selecting the
  scancode set ends after one round with \<open>PS2_KBD_OK\<close>, and so does the initialization.
\<close>

theorem kbd_init_without_keyboard:
  "\<exists>tr'. ps2_kbd_init no_keyboard PS2_PORT_1 ps2_kbd_boot tr =
     Some ((PS2_KBD_OK, ps2_kbd_boot\<lparr>ps2_kbd_port := 1, ps2_kbd_state := PS2_KBD_STATE_NORMAL\<rparr>), tr')"
proof -
  have p: "PS2_PORT_1 \<noteq> PS2_PORT_2" by simp
  obtain tr1 where 1: "ps2_send_byte no_keyboard PS2_PORT_1 PS2_KBD_DISABLE_SCANNING tr = Some (PS2_ERROR_NO_ACK, tr1)"
    unfolding ps2_send_byte_def using no_keyboard_send [OF p] by blast
  obtain tr2 where 2: "ps2_kbd_set_scancode_set no_keyboard PS2_PORT_1 PS2_KBD_SCANCODE_SET_1 tr1 = Some (PS2_KBD_OK, tr2)"
    using no_keyboard_set_scancode_set [OF p] by blast
  obtain tr3 where 3: "ps2_send_byte no_keyboard PS2_PORT_1 PS2_KBD_ENABLE_SCANNING tr2 = Some (PS2_ERROR_NO_ACK, tr3)"
    unfolding ps2_send_byte_def using no_keyboard_send [OF p] by blast
  show ?thesis by (simp add: ps2_kbd_init_def ps2_kbd_boot_def Let_def 1 2 3)
qed

end
