(* ===== verification/LibcString.thy ===== *)
theory LibcString
  imports Prelude
begin

text \<open>
  The string functions of the C library (libc/string/strlen.c, strrev.c, itoa.c, utoa.c). A string is
  the array of bytes it is stored in, with accesses checked; the loops may leave the array, or never
  end, and are partial functions. Shows that \<open>strrev\<close> reverses and that the conversions write the
  number's digits, so that reading them back gives the number.
\<close>

section \<open>Operations\<close>

partial_function (option) strlen_from :: "u8 list \<Rightarrow> u64 \<Rightarrow> u64 option" where
  [code]: "strlen_from str i =
     do {
       c \<leftarrow> arr_get str i;
       if c \<noteq> 0 then strlen_from str (i + 1) else Some i
     }"

definition strlen :: "u8 list \<Rightarrow> u64 option" where
  "strlen str = strlen_from str 0"

partial_function (option) strrev_swap :: "u64 \<Rightarrow> u64 \<Rightarrow> u8 list \<Rightarrow> u8 list option" where
  [code]: "strrev_swap i j str =
     (if i < j then
        do {
          temp \<leftarrow> arr_get str i;
          c \<leftarrow> arr_get str j;
          str \<leftarrow> arr_set str i c;
          str \<leftarrow> arr_set str j temp;
          strrev_swap (i + 1) (j - 1) str
        }
      else Some str)"

definition strrev :: "u8 list \<Rightarrow> u8 list option" where
  "strrev str = do { len \<leftarrow> strlen str; strrev_swap 0 (len - 1) str }"

text \<open>The character of a digit: \<open>(temp > 9) ? 'a' + temp - 10 : '0' + temp\<close>.\<close>

definition digit_char :: "int \<Rightarrow> u8" where
  "digit_char temp = word_of_int (if temp > 9 then 97 + temp - 10 else 48 + temp)"

text \<open>
  The digits of \<open>itoa\<close>, last first. \<open>number\<close> is the value of a \<open>long\<close>, \<open>base\<close> of an \<open>int\<close>. Division
  by 0 and the one division that overflows are undefined.
\<close>

partial_function (option) itoa_digits :: "int \<Rightarrow> bool \<Rightarrow> int \<Rightarrow> u64 \<Rightarrow> u8 list \<Rightarrow> (u64 \<times> u8 list) option" where
  [code]: "itoa_digits base sign number i str =
     (if number \<noteq> 0 then
        if base = 0 \<or> (number = - (2 ^ 63) \<and> base = - 1) then None
        else
          (let temp = number smod base;
               temp = (if sign then temp * - 1 else temp)
           in do {
                str \<leftarrow> arr_set str i (digit_char temp);
                itoa_digits base sign (number sdiv base) (i + 1) str
              })
      else Some (i, str))"

definition itoa :: "u64 \<Rightarrow> u8 list \<Rightarrow> u32 \<Rightarrow> u8 list option" where
  "itoa number str base =
     (if number = 0 then do { str \<leftarrow> arr_set str 0 48; arr_set str 1 0 }
      else
        (let sign = sint number < 0
         in do {
              (i, str) \<leftarrow> itoa_digits (sint base) sign (sint number) 0 str;
              (i, str) \<leftarrow> (if sign then do { str \<leftarrow> arr_set str i 45; Some (i + 1, str) } else Some (i, str));
              str \<leftarrow> arr_set str i 0;
              strrev str
            }))"

text \<open>In \<open>number % base\<close> of \<open>utoa\<close> the \<open>int\<close> is converted to \<open>unsigned long\<close>, the result to \<open>int\<close>.\<close>

partial_function (option) utoa_digits :: "u64 \<Rightarrow> u64 \<Rightarrow> u64 \<Rightarrow> u8 list \<Rightarrow> (u64 \<times> u8 list) option" where
  [code]: "utoa_digits base number i str =
     (if number \<noteq> 0 then
        if base = 0 then None
        else
          (let temp = sint (ucast (number mod base) :: u32)
           in do {
                str \<leftarrow> arr_set str i (digit_char temp);
                utoa_digits base (number div base) (i + 1) str
              })
      else Some (i, str))"

definition utoa :: "u64 \<Rightarrow> u8 list \<Rightarrow> u32 \<Rightarrow> u8 list option" where
  "utoa number str base =
     (if number = 0 then do { str \<leftarrow> arr_set str 0 48; arr_set str 1 0 }
      else
        do {
          (i, str) \<leftarrow> utoa_digits (scast base) number 0 str;
          str \<leftarrow> arr_set str i 0;
          strrev str
        })"

section \<open>Strings in their buffers\<close>

text \<open>The buffer holds the string \<open>xs\<close>, and the rest of it is arbitrary.\<close>

definition is_string :: "u8 list \<Rightarrow> bool" where
  "is_string xs \<longleftrightarrow> 0 \<notin> set xs \<and> length xs < 2 ^ 63"

lemma arr_get_append [array_simps]:
  "length xs < 2 ^ 64 \<Longrightarrow> arr_get (xs @ c # ys) (of_nat (length xs)) = Some c"
  by (simp add: arr_get_def unat_simps)

lemma arr_set_append [array_simps]:
  "length xs < 2 ^ 64 \<Longrightarrow> arr_set (xs @ c # ys) (of_nat (length xs)) d = Some (xs @ d # ys)"
  by (simp add: arr_set_def unat_simps)

lemma strlen_from_string:
  assumes "is_string (xs @ ys)"
  shows "strlen_from (xs @ ys @ 0 # rest) (of_nat (length xs)) = Some (of_nat (length xs + length ys))"
  using assms
proof (induction ys arbitrary: xs)
  case Nil
  then have "length xs < 2 ^ 64" by (simp add: is_string_def)
  then show ?case by (subst strlen_from.simps) (simp add: array_simps)
next
  case (Cons y ys)
  have l: "length xs < 2 ^ 64" and y: "y \<noteq> 0" using Cons.prems by (auto simp: is_string_def)
  have "strlen_from (xs @ (y # ys) @ 0 # rest) (of_nat (length xs)) =
      strlen_from ((xs @ [y]) @ ys @ 0 # rest) (of_nat (length (xs @ [y])))"
    by (subst strlen_from.simps) (use y in \<open>simp add: arr_get_append [OF l] add.commute\<close>)
  also have "\<dots> = Some (of_nat (length (xs @ [y]) + length ys))"
    by (rule Cons.IH) (use Cons.prems in simp)
  finally show ?case by simp
qed

lemma strlen_string: "is_string xs \<Longrightarrow> strlen (xs @ 0 # rest) = Some (of_nat (length xs))"
  using strlen_from_string [of "[]" xs rest] by (simp add: strlen_def)

text \<open>The loop of \<open>strrev\<close>: what lies between the indices is still to be reversed.\<close>

lemma strrev_swap_middle:
  assumes "length pre + length mid < 2 ^ 63" "pre \<noteq> [] \<or> mid \<noteq> []"
  shows "strrev_swap (of_nat (length pre)) (of_nat (length pre + length mid) - 1) (pre @ mid @ post) =
    Some (pre @ rev mid @ post)"
  using assms
proof (induction "length mid" arbitrary: pre mid post rule: less_induct)
  case less
  have last: "(of_nat (length pre + length mid) - 1 :: u64) = of_nat (length pre + length mid - 1)"
    using less.prems(2) by (cases mid; cases pre) (auto simp: of_nat_diff)
  have lt: "(of_nat (length pre) :: u64) < of_nat (length pre + length mid - 1) \<longleftrightarrow> 2 \<le> length mid"
    using less.prems by (auto simp: word_less_nat_alt unat_simps)
  show ?case
  proof (cases "2 \<le> length mid")
    case False
    then have "rev mid = mid" by (cases mid rule: remdups_adj.cases) auto
    then show ?thesis unfolding last by (subst strrev_swap.simps) (use False lt in simp)
  next
    case True
    then obtain a m z where mid: "mid = a # m @ [z]"
      by (metis One_nat_def Suc_1 Suc_le_length_iff list.size(3) not_less_eq_eq rev_exhaust zero_le)
    let ?n = "length pre + length mid - 1"
    have n: "?n = length (pre @ a # m)" using mid by simp
    have l: "length (pre @ a # m) < 2 ^ 64" "length (pre @ z # m) < 2 ^ 64" "length pre < 2 ^ 64"
      using less.prems(1) mid by simp_all
    have "strrev_swap (of_nat (length pre)) (of_nat ?n) (pre @ mid @ post) =
        strrev_swap (of_nat (length pre) + 1) (of_nat ?n - 1) ((pre @ z # m) @ a # post)"
    proof -
      have "arr_get (pre @ mid @ post) (of_nat (length pre)) = Some a"
        using arr_get_append [OF l(3)] mid by simp
      moreover have "arr_get (pre @ mid @ post) (of_nat ?n) = Some z"
        unfolding n using arr_get_append [OF l(1), of z post] mid by simp
      moreover have "arr_set (pre @ mid @ post) (of_nat (length pre)) z = Some ((pre @ z # m) @ z # post)"
        using arr_set_append [OF l(3)] mid by simp
      moreover have "arr_set ((pre @ z # m) @ z # post) (of_nat ?n) a = Some ((pre @ z # m) @ a # post)"
        unfolding n using arr_set_append [OF l(2), of z post a] by simp
      ultimately show ?thesis by (subst strrev_swap.simps) (use True lt in simp)
    qed
    also have "\<dots> = strrev_swap (of_nat (length (pre @ [z])))
        (of_nat (length (pre @ [z]) + length m) - 1) ((pre @ [z]) @ m @ (a # post))"
    proof -
      have "(of_nat (length pre) + 1 :: u64) = of_nat (length (pre @ [z]))" by (simp add: add.commute)
      moreover have "?n = length (pre @ [z]) + length m" using mid by simp
      ultimately show ?thesis by (simp add: add.commute)
    qed
    also have "\<dots> = Some ((pre @ [z]) @ rev m @ (a # post))"
      by (rule less.hyps) (use less.prems mid in simp_all)
    finally show ?thesis unfolding last using mid by simp
  qed
qed

lemma strrev_string:
  assumes "is_string xs" "xs \<noteq> []"
  shows "strrev (xs @ 0 # rest) = Some (rev xs @ 0 # rest)"
proof -
  have "strrev_swap 0 (of_nat (length xs) - 1) (xs @ 0 # rest) = Some (rev xs @ 0 # rest)"
    using strrev_swap_middle [of "[]" xs "0 # rest"] assms by (simp add: is_string_def)
  then show ?thesis by (simp add: strrev_def strlen_string [OF assms(1)])
qed

section \<open>Numerals\<close>

text \<open>The digits of a number in a base, the last one first, and the number that digits denote.\<close>

function digits :: "nat \<Rightarrow> nat \<Rightarrow> nat list" where
  "digits b n = (if b < 2 \<or> n = 0 then [] else n mod b # digits b (n div b))"
  by pat_completeness auto
termination by (relation "measure snd") auto

declare digits.simps [simp del]

lemma digits_0 [simp]: "digits b 0 = []"
  by (simp add: digits.simps)

lemma digits_pos: "2 \<le> b \<Longrightarrow> 0 < n \<Longrightarrow> digits b n = n mod b # digits b (n div b)"
  by (subst digits.simps) simp

fun undigits :: "nat \<Rightarrow> nat list \<Rightarrow> nat" where
  "undigits b [] = 0"
| "undigits b (d # ds) = d + b * undigits b ds"

lemma undigits_digits: "2 \<le> b \<Longrightarrow> undigits b (digits b n) = n"
proof (induction n rule: less_induct)
  case (less n)
  then show ?case by (cases "n = 0") (simp_all add: digits_pos)
qed

lemma digits_less: "2 \<le> b \<Longrightarrow> d \<in> set (digits b n) \<Longrightarrow> d < b"
proof (induction n rule: less_induct)
  case (less n)
  show ?case
  proof (cases "n = 0")
    case False
    then have "n div b < n" using less.prems(1) by simp
    then have "d < b" if "d \<in> set (digits b (n div b))" using less.IH less.prems(1) that by blast
    then show ?thesis using False less.prems by (auto simp: digits_pos)
  qed (use less.prems in simp)
qed

lemma length_digits: "2 \<le> b \<Longrightarrow> n < 2 ^ k \<Longrightarrow> length (digits b n) \<le> k"
proof (induction k arbitrary: n)
  case (Suc k)
  have "n div b \<le> n div 2" using Suc.prems(1) by (simp add: div_le_mono2)
  then have "n div b < 2 ^ k" using Suc.prems(2) by simp
  with Suc.IH Suc.prems(1) show ?case by (cases "n = 0") (simp_all add: digits_pos)
qed simp

text \<open>Reading a numeral back: the value of a character, of digits, and of digits with a sign.\<close>

definition char_digit :: "u8 \<Rightarrow> nat" where
  "char_digit c = (if 97 \<le> c then unat c - 87 else unat c - 48)"

definition read_unsigned :: "nat \<Rightarrow> u8 list \<Rightarrow> nat" where
  "read_unsigned b str = undigits b (map char_digit (rev (takeWhile (\<lambda>c. c \<noteq> 0) str)))"

fun read_signed :: "nat \<Rightarrow> u8 list \<Rightarrow> int" where
  "read_signed b [] = 0"
| "read_signed b (c # str) = (if c = 45 then - int (read_unsigned b str) else int (read_unsigned b (c # str)))"

definition digit_chars :: "nat list \<Rightarrow> u8 list" where
  "digit_chars ds = map (\<lambda>d. digit_char (int d)) ds"

lemma unat_digit_char:
  "d < 36 \<Longrightarrow> unat (digit_char (int d)) = (if 9 < d then d + 87 else d + 48)"
proof -
  assume d: "d < 36"
  have n: "unat (word_of_nat n :: u8) = n" if "n < 256" for n
    using that by (simp add: unat_of_nat)
  have "digit_char (int d) = word_of_nat (if 9 < d then d + 87 else d + 48)"
    by (simp add: digit_char_def)
  then show ?thesis using n d by simp
qed

lemma char_digit_char: "d < 36 \<Longrightarrow> char_digit (digit_char (int d)) = d"
  using unat_digit_char [of d] by (auto simp: char_digit_def word_le_nat_alt)

lemma digit_char_nonzero: "d < 36 \<Longrightarrow> digit_char (int d) \<noteq> 0 \<and> digit_char (int d) \<noteq> 45"
  using unat_digit_char [of d] by (auto split: if_splits)

lemma digit_chars_string:
  assumes "2 \<le> b" "b \<le> 36" "n < 2 ^ 64"
  shows "is_string (digit_chars (digits b n))" "45 \<notin> set (digit_chars (digits b n))"
    "length (digit_chars (digits b n)) \<le> 64"
    "map char_digit (digit_chars (digits b n)) = digits b n"
proof -
  have d: "d < 36" if "d \<in> set (digits b n)" for d
    using digits_less [OF assms(1) that] assms(2) by simp
  show l: "length (digit_chars (digits b n)) \<le> 64"
    using length_digits [OF assms(1,3)] by (simp add: digit_chars_def)
  show "is_string (digit_chars (digits b n))" "45 \<notin> set (digit_chars (digits b n))"
    using l d digit_char_nonzero by (force simp: is_string_def digit_chars_def)+
  show "map char_digit (digit_chars (digits b n)) = digits b n"
    using d by (auto simp: digit_chars_def char_digit_char intro: map_idI)
qed

lemma takeWhile_string: "0 \<notin> set xs \<Longrightarrow> takeWhile (\<lambda>c. c \<noteq> 0) (xs @ 0 # rest) = xs"
  by (induction xs) auto

lemma read_unsigned_digits:
  assumes "2 \<le> b" "b \<le> 36" "n < 2 ^ 64"
  shows "read_unsigned b (rev (digit_chars (digits b n)) @ 0 # rest) = n"
proof -
  have "takeWhile (\<lambda>c. c \<noteq> 0) (rev (digit_chars (digits b n)) @ 0 # rest) = rev (digit_chars (digits b n))"
    by (rule takeWhile_string) (use digit_chars_string(1) [OF assms] in \<open>simp add: is_string_def\<close>)
  then show ?thesis
    by (simp add: read_unsigned_def rev_map digit_chars_string(4) [OF assms] undigits_digits [OF assms(1)])
qed

section \<open>The conversions\<close>

lemma sint_small:
  fixes w :: u64
  assumes "unat w < 2 ^ 31"
  shows "sint (ucast w :: u32) = int (unat w)"
proof -
  have "int (unat w) < int (2 ^ 31)" using assms by (simp only: of_nat_less_iff)
  then have u: "uint w < 2 ^ 31" "0 \<le> uint w" by (simp_all only: uint_nat) simp_all
  have "uint (ucast w :: u32) = take_bit 32 (uint w)" by (simp add: unsigned_ucast_eq)
  then have "uint (ucast w :: u32) = uint w" using u by (simp add: take_bit_int_eq_self)
  then have "sint (ucast w :: u32) = signed_take_bit 31 (uint w)" by (simp only: sint_uint) simp
  also have "\<dots> = uint w" using u by (intro signed_take_bit_int_eq_self) linarith+
  finally show ?thesis by (simp only: uint_nat)
qed

lemma utoa_digits_loop:
  assumes "2 \<le> unat base" "unat base \<le> 36" "length pre + length mid < 2 ^ 64"
    "length mid = length (digits (unat base) (unat number))"
  shows "utoa_digits base number (of_nat (length pre)) (pre @ mid @ post) =
    Some (of_nat (length pre + length mid), pre @ digit_chars (digits (unat base) (unat number)) @ post)"
  using assms(3,4)
proof (induction "unat number" arbitrary: number pre mid rule: less_induct)
  case less
  show ?case
  proof (cases "number = 0")
    case True
    with less.prems show ?thesis by (subst utoa_digits.simps) (simp add: digit_chars_def)
  next
    case False
    let ?d = "unat number mod unat base" and ?n = "number div base"
    have ds: "digits (unat base) (unat number) = ?d # digits (unat base) (unat ?n)"
      using False assms(1) by (subst digits_pos) (simp_all add: unat_simps unat_gt_0)
    obtain c mid' where mid: "mid = c # mid'" using less.prems(2) ds by (cases mid) auto
    have "sint (ucast (number mod base) :: u32) = int ?d"
    proof -
      have "unat (number mod base) < 36"
        unfolding unat_mod_word using assms(1,2) mod_less_divisor [of "unat base" "unat number"] by linarith
      then show ?thesis using sint_small [of "number mod base"] by (simp add: unat_mod_word)
    qed
    then have "utoa_digits base number (of_nat (length pre)) (pre @ mid @ post) =
        utoa_digits base ?n (of_nat (length pre) + 1) (pre @ digit_char (int ?d) # mid' @ post)"
      using False assms(1) less.prems(1) mid
      by (subst utoa_digits.simps) (auto simp: arr_set_append [simplified])
    also have "\<dots> = utoa_digits base ?n (of_nat (length (pre @ [digit_char (int ?d)])))
        ((pre @ [digit_char (int ?d)]) @ mid' @ post)"
      by (simp add: add.commute)
    also have "\<dots> = Some (of_nat (length (pre @ [digit_char (int ?d)]) + length mid'),
        (pre @ [digit_char (int ?d)]) @ digit_chars (digits (unat base) (unat ?n)) @ post)"
    proof (rule less.hyps)
      show "unat ?n < unat number"
        using False assms(1) by (simp add: unat_div_word unat_gt_0)
    qed (use less.prems mid ds in simp_all)
    finally show ?thesis using mid ds by (simp add: digit_chars_def)
  qed
qed

text \<open>A number with its sign split off, as \<open>itoa\<close> treats it.\<close>

definition signed_nat :: "bool \<Rightarrow> nat \<Rightarrow> int" where
  "signed_nat sign n = (if sign then - int n else int n)"

lemma signed_nat_step:
  assumes "2 \<le> b"
  shows "signed_nat sign n smod int b = signed_nat sign (n mod b)"
    "signed_nat sign n sdiv int b = signed_nat sign (n div b)"
    "(if sign then signed_nat sign k * - 1 else signed_nat sign k) = int k"
  using assms by (auto simp: signed_nat_def signed_modulo_int_def signed_divide_int_def sgn_if
      zmod_int zdiv_int)

lemma itoa_digits_loop:
  assumes "2 \<le> b" "b \<le> 36" "length pre + length mid < 2 ^ 64" "length mid = length (digits b n)"
  shows "itoa_digits (int b) sign (signed_nat sign n) (of_nat (length pre)) (pre @ mid @ post) =
    Some (of_nat (length pre + length mid), pre @ digit_chars (digits b n) @ post)"
  using assms(3,4)
proof (induction n arbitrary: pre mid rule: less_induct)
  case (less n)
  show ?case
  proof (cases "n = 0")
    case True
    with less.prems show ?thesis
      by (subst itoa_digits.simps) (simp add: digit_chars_def signed_nat_def)
  next
    case False
    let ?c = "digit_char (int (n mod b))"
    have ds: "digits b n = n mod b # digits b (n div b)"
      using False assms(1) by (simp add: digits_pos)
    obtain c mid' where mid: "mid = c # mid'" using less.prems(2) ds by (cases mid) auto
    have nz: "signed_nat sign n \<noteq> 0" "int b \<noteq> 0" "int b \<noteq> - 1"
      using False assms(1) by (auto simp: signed_nat_def)
    have "arr_set (pre @ mid @ post) (of_nat (length pre)) ?c = Some (pre @ ?c # mid' @ post)"
      using arr_set_append [of pre c "mid' @ post"] less.prems(1) mid by simp
    then have "itoa_digits (int b) sign (signed_nat sign n) (of_nat (length pre)) (pre @ mid @ post) =
        itoa_digits (int b) sign (signed_nat sign (n div b)) (of_nat (length pre) + 1) (pre @ ?c # mid' @ post)"
      unfolding itoa_digits.simps [of "int b" sign "signed_nat sign n"] Let_def
        signed_nat_step [OF assms(1)] using nz by simp
    also have "\<dots> = itoa_digits (int b) sign (signed_nat sign (n div b)) (of_nat (length (pre @ [?c])))
        ((pre @ [?c]) @ mid' @ post)"
      by (simp add: add.commute)
    also have "\<dots> = Some (of_nat (length (pre @ [?c]) + length mid'),
        (pre @ [?c]) @ digit_chars (digits b (n div b)) @ post)"
      by (rule less.IH) (use False assms(1) less.prems mid ds in simp_all)
    finally show ?thesis using mid ds by (simp add: digit_chars_def)
  qed
qed

text \<open>What the conversions leave in the buffer: the numeral, its end, and the rest untouched.\<close>

lemma small_base:
  assumes "unat (base :: u32) \<le> 36"
  shows "sint base = int (unat base)" "unat (scast base :: u64) = unat base"
proof -
  show s: "sint base = int (unat base)" by (rule sint_nonneg) (use assms in simp)
  have "(scast base :: u64) = word_of_int (sint base)" by simp
  also have "\<dots> = of_nat (unat base)" unfolding s by simp
  finally show "unat (scast base :: u64) = unat base" by (rule trans [OF arg_cong [of _ _ unat] unat_of_nat_u64]) (use assms in simp)
qed

definition numeral_chars :: "nat \<Rightarrow> nat \<Rightarrow> u8 list" where
  "numeral_chars b n = rev (digit_chars (if n = 0 then [0] else digits b n))"

lemma length_digit_chars [simp]: "length (digit_chars ds) = length ds"
  by (simp add: digit_chars_def)

lemma numeral_chars_0: "numeral_chars b 0 = [48]"
  by (simp add: numeral_chars_def digit_chars_def digit_char_def)

lemma numeral_chars_pos: "n \<noteq> 0 \<Longrightarrow> numeral_chars b n = rev (digit_chars (digits b n))"
  by (simp add: numeral_chars_def)

lemma numeral_chars_nonempty: "2 \<le> b \<Longrightarrow> numeral_chars b n \<noteq> []"
  by (simp add: numeral_chars_def digit_chars_def digits_pos)

lemma zero_written:
  assumes "66 \<le> length (str :: u8 list)"
  shows "(arr_set str 0 48 \<bind> (\<lambda>str. arr_set str 1 0)) = Some ([48] @ 0 # drop 2 str)"
proof -
  obtain c str' where str: "str = c # str'" using assms by (cases str) auto
  obtain d rest where "str' = d # rest" using assms str by (cases str') auto
  with str show ?thesis by (simp add: arr_set_def)
qed

lemma unat_u64: "unat (a :: u64) < 2 ^ 64"
  using unat_u64_lt [of a] by simp

lemma split_buffer:
  assumes "k < length (str :: u8 list)"
  shows "str = take k str @ str ! k # drop (Suc k) str"
  using assms by (rule id_take_nth_drop)

lemma utoa_writes:
  assumes "2 \<le> unat base" "unat base \<le> 36" "66 \<le> length str" "length str < 2 ^ 63"
  shows "utoa number str base = Some (numeral_chars (unat base) (unat number) @ 0 #
    drop (Suc (length (numeral_chars (unat base) (unat number)))) str)"
proof (cases "number = 0")
  case True
  then show ?thesis using zero_written [OF assms(3)] by (simp add: utoa_def numeral_chars_0 numeral_2_eq_2)
next
  case False
  let ?ds = "digits (unat base) (unat number)" and ?b = "scast base :: u64"
  have b: "unat ?b = unat base" by (rule small_base(2) [OF assms(2)])
  note chars = digit_chars_string [OF assms(1,2) unat_u64 [of number]]
  have k: "length ?ds < length str" using chars(3) assms(3) by (simp add: digit_chars_def)
  have "utoa_digits ?b number 0 str =
      Some (of_nat (length ?ds), digit_chars ?ds @ str ! length ?ds # drop (Suc (length ?ds)) str)"
    using utoa_digits_loop [of ?b "[]" "take (length ?ds) str" number "str ! length ?ds # drop (Suc (length ?ds)) str"]
      assms k b split_buffer [OF k] by simp
  moreover have "arr_set (digit_chars ?ds @ str ! length ?ds # drop (Suc (length ?ds)) str) (of_nat (length ?ds)) 0 =
      Some (digit_chars ?ds @ 0 # drop (Suc (length ?ds)) str)"
    using arr_set_append [of "digit_chars ?ds"] k assms(4) by (simp add: digit_chars_def)
  moreover have "?ds \<noteq> []" using False assms(1) by (simp add: digits_pos unat_gt_0)
  then have "strrev (digit_chars ?ds @ 0 # drop (Suc (length ?ds)) str) =
      Some (rev (digit_chars ?ds) @ 0 # drop (Suc (length ?ds)) str)"
    by (intro strrev_string chars(1)) (simp add: digit_chars_def)
  moreover have "numeral_chars (unat base) (unat number) = rev (digit_chars ?ds)"
    by (rule numeral_chars_pos) (use False in \<open>simp add: unsigned_eq_0_iff\<close>)
  ultimately show ?thesis using False by (simp add: utoa_def)
qed

text \<open>The text of a signed number.\<close>

definition signed_chars :: "nat \<Rightarrow> int \<Rightarrow> u8 list" where
  "signed_chars b n = (if n < 0 then [45] else []) @ numeral_chars b (nat \<bar>n\<bar>)"

lemma itoa_writes:
  assumes "2 \<le> unat base" "unat base \<le> 36" "66 \<le> length str" "length str < 2 ^ 63"
  shows "itoa number str base = Some (signed_chars (unat base) (sint number) @ 0 #
    drop (Suc (length (signed_chars (unat base) (sint number)))) str)"
proof (cases "number = 0")
  case True
  then show ?thesis using zero_written [OF assms(3)]
    by (simp add: itoa_def signed_chars_def numeral_chars_0 numeral_2_eq_2)
next
  case False
  let ?neg = "sint number < 0" and ?n = "nat \<bar>sint number\<bar>"
  let ?ds = "digits (unat base) ?n"
  let ?sign = "if ?neg then [45] else [] :: u8 list"
  let ?k = "length ?ds" and ?l = "length ?ds + length ?sign"
  have nz: "?n \<noteq> 0" using False signed_word_eqI [of number 0] by auto
  have "\<bar>sint number\<bar> \<le> 2 ^ 63"
    using sint_greater_eq [of number] sint_less [of number] by simp
  then have "?n < 2 ^ 64" by simp
  note chars = digit_chars_string [OF assms(1,2) this]
  have ne: "?ds \<noteq> []" using nz assms(1) by (simp add: digits_pos)
  have "length ?sign \<le> 1" by simp
  then have l: "?l < length str" using chars(3) assms(3) unfolding length_digit_chars by linarith
  then have k: "?k < length str" by simp
  have "sint number = signed_nat ?neg ?n" by (simp add: signed_nat_def)
  then have loop: "itoa_digits (sint base) ?neg (sint number) 0 str =
      Some (of_nat ?k, digit_chars ?ds @ str ! ?k # drop (Suc ?k) str)"
    using itoa_digits_loop [of "unat base" "[]" "take ?k str" ?n ?neg "str ! ?k # drop (Suc ?k) str"]
      assms k small_base(1) [OF assms(2)] split_buffer [OF k] by simp
  have sign: "(if ?neg then do { str \<leftarrow> arr_set (digit_chars ?ds @ str ! ?k # drop (Suc ?k) str) (of_nat ?k) 45;
        Some (of_nat ?k + 1, str) } else Some (of_nat ?k, digit_chars ?ds @ str ! ?k # drop (Suc ?k) str)) =
      Some (of_nat ?l, (digit_chars ?ds @ ?sign) @ str ! ?l # drop (Suc ?l) str)"
  proof (cases ?neg)
    case True
    have a: "arr_set (digit_chars ?ds @ str ! ?k # drop (Suc ?k) str) (of_nat ?k) 45 =
        Some (digit_chars ?ds @ 45 # drop (Suc ?k) str)"
      using arr_set_append [of "digit_chars ?ds" "str ! ?k" "drop (Suc ?k) str" 45] k assms(4) by simp
    have b: "str ! Suc ?k # drop (Suc (Suc ?k)) str = drop (Suc ?k) str"
      by (rule Cons_nth_drop_Suc) (use l True in simp)
    have c: "?l = Suc ?k" using True by simp
    have d: "?sign = [45]" using True by simp
    show ?thesis unfolding c d if_P [OF True] a append_assoc append_Cons append_Nil b by (simp add: add.commute b)
  qed simp
  have fin: "arr_set ((digit_chars ?ds @ ?sign) @ str ! ?l # drop (Suc ?l) str) (of_nat ?l) 0 =
      Some ((digit_chars ?ds @ ?sign) @ 0 # drop (Suc ?l) str)"
    using arr_set_append [of "digit_chars ?ds @ ?sign"] l assms(4) by simp
  have "is_string (digit_chars ?ds @ ?sign)"
    using chars(1) l assms(4) by (simp add: is_string_def)
  then have "strrev ((digit_chars ?ds @ ?sign) @ 0 # drop (Suc ?l) str) =
      Some (rev (digit_chars ?ds @ ?sign) @ 0 # drop (Suc ?l) str)"
    by (rule strrev_string) (use ne in \<open>simp add: digit_chars_def\<close>)
  moreover have "signed_chars (unat base) (sint number) = rev (digit_chars ?ds @ ?sign)"
    using nz by (simp add: signed_chars_def numeral_chars_pos)
  ultimately show ?thesis
    using False unfolding itoa_def Let_def loop bind.bind_lunit prod.case sign fin by simp
qed

lemma length_signed_chars:
  assumes "2 \<le> b" "b \<le> 36" "\<bar>n\<bar> < 2 ^ 64"
  shows "length (signed_chars b n) \<le> 65"
proof -
  have "nat \<bar>n\<bar> < 2 ^ 64" using assms(3) by simp
  from digit_chars_string(3) [OF assms(1,2) this] show ?thesis
    by (auto simp: signed_chars_def numeral_chars_def)
qed

lemma read_numeral_chars:
  assumes "2 \<le> b" "b \<le> 36" "n < 2 ^ 64"
  shows "read_unsigned b (numeral_chars b n @ 0 # rest) = n"
proof (cases "n = 0")
  case True
  then show ?thesis by (simp add: numeral_chars_0 read_unsigned_def char_digit_def)
next
  case False
  then show ?thesis using read_unsigned_digits [OF assms] by (simp add: numeral_chars_pos)
qed

lemma read_signed_chars:
  assumes "2 \<le> b" "b \<le> 36" "\<bar>n\<bar> < 2 ^ 64"
  shows "read_signed b (signed_chars b n @ 0 # rest) = n"
proof (cases "n < 0")
  case True
  then show ?thesis using read_numeral_chars [OF assms(1,2), of "nat \<bar>n\<bar>" rest] assms(3)
    by (simp add: signed_chars_def)
next
  case False
  obtain c cs where c: "numeral_chars b (nat \<bar>n\<bar>) = c # cs"
    using numeral_chars_nonempty [OF assms(1)] by (meson list.exhaust)
  have "45 \<notin> set (numeral_chars b (nat \<bar>n\<bar>))"
    using digit_chars_string(2) [OF assms(1,2), of "nat \<bar>n\<bar>"] assms(3)
    by (cases "nat \<bar>n\<bar> = 0") (simp_all add: numeral_chars_0 numeral_chars_pos)
  with c have "c \<noteq> 45" by auto
  then show ?thesis using read_numeral_chars [OF assms(1,2), of "nat \<bar>n\<bar>" rest] assms(3) c False
    by (simp add: signed_chars_def)
qed

section \<open>Properties\<close>

text \<open>
  C23: \<open>itoa\<close> with base 2 to 36 into a buffer of 66 characters returns, and reading the text it leaves
  in the buffer as a signed numeral of that base gives the number back, for every \<open>long\<close>.
\<close>

theorem itoa_roundtrip:
  assumes "2 \<le> unat base" "unat base \<le> 36" "66 \<le> length str" "length str < 2 ^ 63"
  shows "\<exists>str'. itoa number str base = Some str' \<and> length str' = length str \<and>
    read_signed (unat base) str' = sint number"
proof -
  have "\<bar>sint number\<bar> < 2 ^ 64"
    using sint_greater_eq [of number] sint_less [of number] by simp
  then show ?thesis
    using itoa_writes [OF assms, of number] read_signed_chars [OF assms(1,2)] length_signed_chars [OF assms(1,2)] assms(3)
    by fastforce
qed

lemma itoa_roundtrip_witness:
  "\<exists>str'. itoa (- 42) (replicate 66 0) 10 = Some str' \<and> length str' = 66 \<and> read_signed 10 str' = - 42"
  using itoa_roundtrip [of 10 "replicate 66 0" "- 42"] by simp

text \<open>\<open>utoa\<close> likewise, for every \<open>unsigned long\<close>.\<close>

theorem utoa_roundtrip:
  assumes "2 \<le> unat base" "unat base \<le> 36" "66 \<le> length str" "length str < 2 ^ 63"
  shows "\<exists>str'. utoa number str base = Some str' \<and> read_unsigned (unat base) str' = unat number"
  using utoa_writes [OF assms, of number] read_numeral_chars [OF assms(1,2) unat_u64] by blast

lemma utoa_roundtrip_witness:
  "\<exists>str'. utoa 0xff (replicate 66 0) 16 = Some str' \<and> read_unsigned 16 str' = 255"
  using utoa_roundtrip [of 16 "replicate 66 0" "0xff"] by simp

text \<open>
  \<open>strrev\<close> of the empty string is not the empty string: the second index starts at the largest
  \<open>size_t\<close> and the first exchange leaves the array.
\<close>

theorem strrev_empty_escapes:
  assumes "length rest < 2 ^ 63"
  shows "strrev (0 # rest) = None"
proof -
  have "strlen (0 # rest) = Some 0" using strlen_string [of "[]" rest] by (simp add: is_string_def)
  moreover have "unat (- 1 :: u64) = 18446744073709551615"
    by (simp add: unsigned_minus_1_eq_mask mask_eq_exp_minus_1)
  then have "arr_get (0 # rest) (- 1) = None"
    using assms by (simp only: arr_get_def) simp
  moreover have "(0 :: u64) < - 1" by (simp add: word_gt_0)
  ultimately show ?thesis by (subst strrev_def) (simp add: strrev_swap.simps [of 0])
qed

lemma strrev_empty_escapes_witness: "strrev [0, 1, 2] = None"
  using strrev_empty_escapes [of "[1, 2]"] by simp

end
