(* ===== verification/Format.thy ===== *)
theory Format
  imports LibcString
begin

text \<open>
  Format strings, shared by \<open>printf\<close> (libc/stdio/printf.c) and the logging module
  (kernel/src/logging.c), whose loop is a copy of it: the variadic arguments, the steps the two loops
  have in common, and what a format string means, as the reference that both are shown to follow.
\<close>

section \<open>Arguments\<close>

text \<open>
  An argument as it is passed in 64 bits: a number, a pointer to a string (with the array it points
  into) or a pointer to an \<open>int\<close> to be written. \<open>va_arg\<close> with \<open>int\<close> or \<open>unsigned int\<close> reads the low half.
\<close>

datatype format_arg = Word u64 | Str "u8 list" | Out_ptr

fun va_arg_word :: "format_arg list \<Rightarrow> (u64 \<times> format_arg list) option" where
  "va_arg_word (Word w # list) = Some (w, list)"
| "va_arg_word list = None"

fun va_arg_str :: "format_arg list \<Rightarrow> (u8 list \<times> format_arg list) option" where
  "va_arg_str (Str s # list) = Some (s, list)"
| "va_arg_str list = None"

fun va_arg_out :: "format_arg list \<Rightarrow> format_arg list option" where
  "va_arg_out (Out_ptr # list) = Some list"
| "va_arg_out list = None"

text \<open>The characters the loops compare with.\<close>

abbreviation (input) FORMAT_SPECIFIER :: u8 where "FORMAT_SPECIFIER \<equiv> 37"
abbreviation (input) FORMAT_STRING :: u8 where "FORMAT_STRING \<equiv> 115"
abbreviation (input) FORMAT_CHAR :: u8 where "FORMAT_CHAR \<equiv> 99"
abbreviation (input) FORMAT_INT1 :: u8 where "FORMAT_INT1 \<equiv> 100"
abbreviation (input) FORMAT_INT2 :: u8 where "FORMAT_INT2 \<equiv> 105"
abbreviation (input) FORMAT_UINT :: u8 where "FORMAT_UINT \<equiv> 117"
abbreviation (input) FORMAT_OCTAL :: u8 where "FORMAT_OCTAL \<equiv> 111"
abbreviation (input) FORMAT_HEX :: u8 where "FORMAT_HEX \<equiv> 120"
abbreviation (input) FORMAT_POINTER :: u8 where "FORMAT_POINTER \<equiv> 112"
abbreviation (input) FORMAT_NO_OUTPUT :: u8 where "FORMAT_NO_OUTPUT \<equiv> 110"
abbreviation (input) FORMAT_PREFIX_PLUS :: u8 where "FORMAT_PREFIX_PLUS \<equiv> 43"
abbreviation (input) FORMAT_PREFIX_SPACE :: u8 where "FORMAT_PREFIX_SPACE \<equiv> 32"
abbreviation (input) NO_PREFIX :: u8 where "NO_PREFIX \<equiv> 0"
abbreviation (input) MAX_FORMAT_STRING_LENGTH :: nat where "MAX_FORMAT_STRING_LENGTH \<equiv> 256"

text \<open>A number written into the buffer \<open>format_string\<close> and measured there: buffer and length.\<close>

definition format_unsigned :: "u64 \<Rightarrow> u32 \<Rightarrow> u8 list \<Rightarrow> (u8 list \<times> u64) option" where
  "format_unsigned number base buf =
     do {
       buf \<leftarrow> utoa number buf base;
       len \<leftarrow> strlen buf;
       Some (buf, len)
     }"

definition format_signed :: "u64 \<Rightarrow> u32 \<Rightarrow> u8 list \<Rightarrow> (u8 list \<times> u64) option" where
  "format_signed number base buf =
     do {
       buf \<leftarrow> itoa number buf base;
       len \<leftarrow> strlen buf;
       Some (buf, len)
     }"

section \<open>The meaning of a format string\<close>

text \<open>Characters to print, and conversions with the last flag before them.\<close>

datatype directive = Literal u8 | Conversion u8 u8

fun parse :: "u8 list \<Rightarrow> directive list" and parse_conversion :: "u8 \<Rightarrow> u8 list \<Rightarrow> directive list" where
  "parse [] = []"
| "parse (c # cs) = (if c = FORMAT_SPECIFIER then parse_conversion NO_PREFIX cs else Literal c # parse cs)"
| "parse_conversion prefix [] = []"
| "parse_conversion prefix (c # cs) =
     (if c = FORMAT_PREFIX_PLUS \<or> c = FORMAT_PREFIX_SPACE then parse_conversion c cs
      else Conversion prefix c # parse cs)"

definition takes_argument :: "u8 \<Rightarrow> bool" where
  "takes_argument c \<longleftrightarrow> c \<in> {FORMAT_CHAR, FORMAT_STRING, FORMAT_INT1, FORMAT_INT2, FORMAT_UINT, FORMAT_OCTAL,
     FORMAT_HEX, FORMAT_POINTER}"

text \<open>
  The text of a conversion with an argument; \<open>None\<close> if the argument is not of the kind the conversion
  asks for. The prefix of \<open>%u\<close> is always written, a \<open>NUL\<close> if there is no flag.
\<close>

fun conversion_text :: "u8 \<Rightarrow> u8 \<Rightarrow> format_arg \<Rightarrow> u8 list option" where
  "conversion_text prefix c (Word w) =
     (let n = ucast w :: u32 in
      if c = FORMAT_CHAR then Some [ucast w]
      else if c = FORMAT_INT1 \<or> c = FORMAT_INT2
      then Some ((if prefix \<noteq> NO_PREFIX \<and> 0 \<le> sint n then [prefix] else []) @ signed_chars 10 (sint n))
      else if c = FORMAT_UINT then Some (prefix # numeral_chars 10 (unat n))
      else if c = FORMAT_OCTAL then Some (numeral_chars 8 (unat n))
      else if c = FORMAT_HEX then Some (numeral_chars 16 (unat n))
      else if c = FORMAT_POINTER then Some ([48, 120] @ numeral_chars 16 (unat w))
      else None)"
| "conversion_text prefix c (Str s) =
     (if c = FORMAT_STRING \<and> 0 \<in> set s \<and> length s < 2 ^ 63 then Some (takeWhile (\<lambda>b. b \<noteq> 0) s) else None)"
| "conversion_text prefix c Out_ptr = None"

section \<open>Conversions of numbers\<close>

lemma unat_ucast_u32 [simp]: "unat (ucast (w :: u32) :: u64) = unat w"
  by (simp add: unsigned_ucast_eq take_bit_nat_eq_self less_trans [OF unsigned_less])

lemma sint_scast_u32: "sint (scast (w :: u32) :: u64) = sint w"
proof -
  have "sint (scast w :: u64) = signed_take_bit 63 (sint w)" by (simp add: signed_scast_eq)
  also have "\<dots> = sint w"
    using sint_greater_eq [of w] sint_less [of w] by (intro signed_take_bit_int_eq_self) simp_all
  finally show ?thesis .
qed

section \<open>Writing characters one by one\<close>

fun puts :: "(u8 \<Rightarrow> 'w \<Rightarrow> 'w option) \<Rightarrow> u8 list \<Rightarrow> 'w \<Rightarrow> 'w option" where
  "puts put [] w = Some w"
| "puts put (c # cs) w = Option.bind (put c w) (puts put cs)"

lemma puts_append: "puts put (xs @ ys) w = Option.bind (puts put xs w) (puts put ys)"
  by (induction xs arbitrary: w) (auto split: bind_splits)

lemma puts_nothing [simp]: "Option.bind m (puts put []) = m"
  by (cases m) simp_all

text \<open>The loops of the code that write \<open>n\<close> characters of an array from an index on.\<close>

lemma loop_puts:
  assumes "\<And>i w. loop 0 i w = Some w"
    and "\<And>n i w. loop (Suc n) i w = Option.bind (arr_get str i) (\<lambda>c. Option.bind (put c w) (loop n (i + 1)))"
    and "unat i + n \<le> length str" "length str < 2 ^ 64"
  shows "loop n i w = puts put (take n (drop (unat i) str)) w"
  using assms(3,4)
proof (induction n arbitrary: i w)
  case (Suc n)
  have i: "unat (i + 1) = Suc (unat i)" using Suc.prems unat_add_u64 [of i 1] by simp
  have "take (Suc n) (drop (unat i) str) = str ! unat i # take n (drop (Suc (unat i)) str)"
    using Suc.prems by (simp add: Cons_nth_drop_Suc [symmetric])
  moreover have "loop n (i + 1) = puts put (take n (drop (Suc (unat i)) str))"
    by (rule ext) (use Suc.IH [of "i + 1"] Suc.prems i in simp)
  ultimately show ?case using Suc.prems by (simp add: assms(2) array_simps)
qed (simp add: assms(1))

section \<open>The buffer\<close>

lemma is_stringI: "0 \<notin> set xs \<Longrightarrow> length xs < 2 ^ 63 \<Longrightarrow> is_string xs"
  by (simp add: is_string_def)

lemma numeral_chars_string:
  assumes "2 \<le> b" "b \<le> 36" "n < 2 ^ 64"
  shows "0 \<notin> set (numeral_chars b n)" "length (numeral_chars b n) \<le> 64"
  using digit_chars_string [OF assms] by (auto simp: numeral_chars_def is_string_def digit_chars_def digit_char_def)

lemma measured:
  assumes "0 \<notin> set xs" "length xs \<le> 65"
  shows "strlen (xs @ 0 # rest) = Some (of_nat (length xs))" "unat (of_nat (length xs) :: u64) = length xs"
  using strlen_string [OF is_stringI [OF assms(1)]] assms(2) unat_of_nat_u64 [of "length xs"] by simp_all

lemma format_unsigned_text:
  assumes "2 \<le> unat base" "unat base \<le> 36" "length buf = MAX_FORMAT_STRING_LENGTH"
  shows "\<exists>buf' len. format_unsigned number base buf = Some (buf', len) \<and> length buf' = MAX_FORMAT_STRING_LENGTH \<and>
    take (unat len) buf' = numeral_chars (unat base) (unat number) \<and> unat len \<le> 65"
proof -
  let ?xs = "numeral_chars (unat base) (unat number)"
  have xs: "0 \<notin> set ?xs" "length ?xs \<le> 65"
    using numeral_chars_string [OF assms(1,2) unat_u64 [of number]] by simp_all
  have w: "utoa number buf base = Some (?xs @ 0 # drop (Suc (length ?xs)) buf)"
    by (rule utoa_writes) (use assms in simp_all)
  show ?thesis using measured [OF xs] xs(2) assms(3) by (simp add: format_unsigned_def w)
qed

lemma format_signed_text:
  assumes "2 \<le> unat base" "unat base \<le> 36" "length buf = MAX_FORMAT_STRING_LENGTH"
  shows "\<exists>buf' len. format_signed number base buf = Some (buf', len) \<and> length buf' = MAX_FORMAT_STRING_LENGTH \<and>
    take (unat len) buf' = signed_chars (unat base) (sint number) \<and> unat len \<le> 65"
proof -
  let ?xs = "signed_chars (unat base) (sint number)"
  have n: "\<bar>sint number\<bar> < 2 ^ 64" using sint_greater_eq [of number] sint_less [of number] by simp
  then have "nat \<bar>sint number\<bar> < 2 ^ 64" by simp
  from numeral_chars_string(1) [OF assms(1,2) this] have "0 \<notin> set ?xs" by (simp add: signed_chars_def)
  note xs = this length_signed_chars [OF assms(1,2) n]
  have w: "itoa number buf base = Some (?xs @ 0 # drop (Suc (length ?xs)) buf)"
    by (rule itoa_writes) (use assms in simp_all)
  show ?thesis using measured [OF xs] xs(2) assms(3) by (simp add: format_signed_def w)
qed

lemma strlen_array:
  assumes "0 \<in> set s" "length s < 2 ^ 63"
  shows "\<exists>len. strlen s = Some len \<and> take (unat len) s = takeWhile (\<lambda>b. b \<noteq> 0) s \<and>
    unat len = length (takeWhile (\<lambda>b. b \<noteq> 0) s) \<and> unat len \<le> length s"
proof -
  let ?xs = "takeWhile (\<lambda>b. b \<noteq> 0) s"
  obtain rest where s: "s = ?xs @ 0 # rest"
    using assms(1) by (metis (mono_tags, lifting) dropWhile_eq_Cons_conv dropWhile_eq_Nil_conv hd_dropWhile list.exhaust_sel takeWhile_dropWhile_id)
  have l: "length ?xs \<le> length s" by (rule length_takeWhile_le)
  then have "strlen (?xs @ 0 # rest) = Some (of_nat (length ?xs))"
    by (intro strlen_string is_stringI) (use assms(2) set_takeWhileD in fastforce)+
  moreover have "unat (of_nat (length ?xs) :: u64) = length ?xs" using l assms(2) by (intro unat_of_nat_u64) simp
  moreover have "take (length ?xs) s = ?xs" by (rule takeWhile_eq_take [symmetric])
  ultimately show ?thesis using s l by metis
qed

end
