(* ===== verification/Framebuffer.thy ===== *)
theory Framebuffer
  imports Charset
begin

text \<open>
  Drawing into the framebuffer (kernel/src/framebuffer.c). The framebuffer is a copy of the fields of
  \<open>struct limine_framebuffer\<close> that the code reads, with the pixels behind \<open>address\<close> as a list of 32-bit
  cells whose accesses are checked. Shows that clearing and drawing change exactly the intended cells.
\<close>

section \<open>Operations\<close>

record limine_framebuffer =
  fb_pixels :: "u32 list"
  fb_width :: u64
  fb_height :: u64
  fb_pitch :: u64
  fb_bpp :: u16

text \<open>\<open>pitch / (bpp / 8)\<close>; the division by 0 is undefined.\<close>

definition fb_stride :: "limine_framebuffer \<Rightarrow> u64 option" where
  "fb_stride fb =
     (if fb_bpp fb div 8 = 0 then None else Some (fb_pitch fb div ucast (fb_bpp fb div 8)))"

definition put_pixel :: "u64 \<Rightarrow> u32 \<Rightarrow> limine_framebuffer \<Rightarrow> limine_framebuffer option" where
  "put_pixel i color fb =
     do {
       pixels \<leftarrow> arr_set (fb_pixels fb) i color;
       Some (fb\<lparr>fb_pixels := pixels\<rparr>)
     }"

text \<open>The loops over \<open>x\<close> and \<open>y\<close>, with \<open>n\<close> iterations left.\<close>

fun clear_row :: "u32 \<Rightarrow> u64 \<Rightarrow> nat \<Rightarrow> u64 \<Rightarrow> limine_framebuffer \<Rightarrow> limine_framebuffer option" where
  "clear_row color y 0 x fb = Some fb"
| "clear_row color y (Suc n) x fb =
     do {
       stride \<leftarrow> fb_stride fb;
       fb \<leftarrow> put_pixel (y * stride + x) color fb;
       clear_row color y n (x + 1) fb
     }"

fun clear_rows :: "u32 \<Rightarrow> nat \<Rightarrow> u64 \<Rightarrow> limine_framebuffer \<Rightarrow> limine_framebuffer option" where
  "clear_rows color 0 y fb = Some fb"
| "clear_rows color (Suc n) y fb =
     do {
       fb \<leftarrow> clear_row color y (unat (fb_width fb)) 0 fb;
       clear_rows color n (y + 1) fb
     }"

definition framebuffer_clear :: "limine_framebuffer \<Rightarrow> u32 \<Rightarrow> limine_framebuffer option" where
  "framebuffer_clear fb color = clear_rows color (unat (fb_height fb)) 0 fb"

text \<open>\<open>CHARSET(c)\<close>; a \<open>char\<close> is signed, so the index may be negative.\<close>

definition CHARSET :: "u8 \<Rightarrow> u8 list option" where
  "CHARSET c = arr_get charset (scast c - 32)"

fun draw_row ::
    "u8 \<Rightarrow> u16 \<Rightarrow> u16 \<Rightarrow> u32 \<Rightarrow> u64 \<Rightarrow> nat \<Rightarrow> u64 \<Rightarrow> limine_framebuffer \<Rightarrow> limine_framebuffer option" where
  "draw_row c start_x start_y color y 0 x fb = Some fb"
| "draw_row c start_x start_y color y (Suc n) x fb =
     do {
       glyph \<leftarrow> CHARSET c;
       b \<leftarrow> arr_get glyph (x div 2 + (y div 2) * of_nat CHARACTER_WIDTH);
       fb \<leftarrow>
         (if b = 1 then
            do {
              stride \<leftarrow> fb_stride fb;
              put_pixel ((ucast start_y + y) * stride + ucast start_x + x) color fb
            }
          else Some fb);
       draw_row c start_x start_y color y n (x + 1) fb
     }"

fun draw_rows ::
    "u8 \<Rightarrow> u16 \<Rightarrow> u16 \<Rightarrow> u32 \<Rightarrow> nat \<Rightarrow> u64 \<Rightarrow> limine_framebuffer \<Rightarrow> limine_framebuffer option" where
  "draw_rows c start_x start_y color 0 y fb = Some fb"
| "draw_rows c start_x start_y color (Suc n) y fb =
     do {
       fb \<leftarrow> draw_row c start_x start_y color y (CHARACTER_WIDTH * 2) 0 fb;
       draw_rows c start_x start_y color n (y + 1) fb
     }"

definition framebuffer_draw_char ::
    "limine_framebuffer \<Rightarrow> u8 \<Rightarrow> u16 \<Rightarrow> u16 \<Rightarrow> u32 \<Rightarrow> limine_framebuffer option" where
  "framebuffer_draw_char fb c start_x start_y color =
     draw_rows c start_x start_y color (CHARACTER_HEIGHT * 2) 0 fb"

section \<open>Painting sets of cells\<close>

definition paint :: "nat set \<Rightarrow> u32 \<Rightarrow> limine_framebuffer \<Rightarrow> limine_framebuffer" where
  "paint A color fb =
     fb\<lparr>fb_pixels := map (\<lambda>i. if i \<in> A then color else fb_pixels fb ! i) [0..<length (fb_pixels fb)]\<rparr>"

lemma paint_fields [simp]:
  "fb_width (paint A color fb) = fb_width fb" "fb_height (paint A color fb) = fb_height fb"
  "fb_pitch (paint A color fb) = fb_pitch fb" "fb_bpp (paint A color fb) = fb_bpp fb"
  "length (fb_pixels (paint A color fb)) = length (fb_pixels fb)" "fb_stride (paint A color fb) = fb_stride fb"
  by (simp_all add: paint_def fb_stride_def)

lemma paint_nth: "i < length (fb_pixels fb) \<Longrightarrow>
    fb_pixels (paint A color fb) ! i = (if i \<in> A then color else fb_pixels fb ! i)"
  by (simp add: paint_def)

lemma paint_empty [simp]: "paint {} color fb = fb"
  by (simp add: paint_def map_nth)

lemma paint_paint [simp]: "paint A color (paint B color fb) = paint (B \<union> A) color fb"
  by (auto simp: paint_def)

lemma put_pixel_paint:
  "unat i < length (fb_pixels fb) \<Longrightarrow> put_pixel i color fb = Some (paint {unat i} color fb)"
  by (auto simp: put_pixel_def paint_def array_simps intro!: limine_framebuffer.fold_congs nth_equalityI)

section \<open>Clearing\<close>

lemma cell_index: "(of_nat a :: u64) * s + of_nat b = of_nat (a * unat s + b)"
  by simp

lemma clear_row_paint:
  assumes "fb_stride fb = Some s" "Y * unat s + X + n \<le> length (fb_pixels fb)" "length (fb_pixels fb) < 2 ^ 63"
  shows "clear_row color (of_nat Y) n (of_nat X) fb =
    Some (paint {Y * unat s + X ..< Y * unat s + X + n} color fb)"
  using assms
proof (induction n arbitrary: X fb)
  case (Suc n)
  let ?i = "Y * unat s + X"
  have i: "unat (of_nat Y * s + of_nat X :: u64) = ?i"
    unfolding cell_index by (rule unat_of_nat_u64) (use Suc.prems in simp)
  have put: "put_pixel (of_nat Y * s + of_nat X) color fb = Some (paint {?i} color fb)"
    using put_pixel_paint [of "of_nat Y * s + of_nat X" fb color] Suc.prems unfolding i by simp
  have step: "(of_nat X + 1 :: u64) = of_nat (Suc X)" by (simp add: add.commute)
  have cells: "{?i} \<union> {Y * unat s + Suc X ..< Y * unat s + Suc X + n} = {?i ..< ?i + Suc n}" by auto
  have "clear_row color (of_nat Y) n (of_nat (Suc X)) (paint {?i} color fb) =
      Some (paint {Y * unat s + Suc X ..< Y * unat s + Suc X + n} color (paint {?i} color fb))"
    by (rule Suc.IH) (use Suc.prems in simp_all)
  then show ?case
    unfolding clear_row.simps Suc.prems(1) bind.bind_lunit put step paint_paint cells .
qed simp

text \<open>The cells of \<open>n\<close> rows of \<open>w\<close> cells from row \<open>Y\<close> on.\<close>

definition row_cells :: "nat \<Rightarrow> nat \<Rightarrow> nat \<Rightarrow> nat \<Rightarrow> nat set" where
  "row_cells s w Y n = {i. \<exists>y x. Y \<le> y \<and> y < Y + n \<and> x < w \<and> i = y * s + x}"

lemma row_cells_Suc: "row_cells s w Y (Suc n) = {Y * s ..< Y * s + w} \<union> row_cells s w (Suc Y) n"
proof (intro equalityI subsetI)
  fix i assume "i \<in> row_cells s w Y (Suc n)"
  then obtain y x where yx: "Y \<le> y" "y < Y + Suc n" "x < w" "i = y * s + x" by (auto simp: row_cells_def)
  then show "i \<in> {Y * s ..< Y * s + w} \<union> row_cells s w (Suc Y) n"
  proof (cases "y = Y")
    case False
    then have "Suc Y \<le> y" "y < Suc Y + n" using yx by simp_all
    then have "i \<in> row_cells s w (Suc Y) n" using yx(3,4) unfolding row_cells_def by blast
    then show ?thesis by simp
  qed (use yx in simp)
next
  fix i assume "i \<in> {Y * s ..< Y * s + w} \<union> row_cells s w (Suc Y) n"
  then show "i \<in> row_cells s w Y (Suc n)"
  proof
    assume "i \<in> {Y * s ..< Y * s + w}"
    then have "i = Y * s + (i - Y * s)" "i - Y * s < w" by auto
    then have "Y \<le> Y \<and> Y < Y + Suc n \<and> i - Y * s < w \<and> i = Y * s + (i - Y * s)" by simp
    then show ?thesis unfolding row_cells_def by blast
  next
    assume "i \<in> row_cells s w (Suc Y) n"
    then obtain y x where "Suc Y \<le> y" "y < Suc Y + n" "x < w" "i = y * s + x" by (auto simp: row_cells_def)
    then have "Y \<le> y \<and> y < Y + Suc n \<and> x < w \<and> i = y * s + x" by simp
    then show ?thesis unfolding row_cells_def by blast
  qed
qed

definition fb_ok :: "limine_framebuffer \<Rightarrow> bool" where
  "fb_ok fb \<longleftrightarrow> (case fb_stride fb of None \<Rightarrow> False | Some s \<Rightarrow>
     fb_width fb \<le> s \<and> unat s * unat (fb_height fb) \<le> length (fb_pixels fb) \<and> length (fb_pixels fb) < 2 ^ 63)"

lemma fb_ok_paint [simp]: "fb_ok (paint A color fb) = fb_ok fb"
  by (cases "fb_stride fb") (simp_all add: fb_ok_def)

lemma clear_rows_paint:
  assumes "fb_stride fb = Some s" "fb_width fb \<le> s" "(Y + n) * unat s \<le> length (fb_pixels fb)"
    "length (fb_pixels fb) < 2 ^ 63"
  shows "clear_rows color n (of_nat Y) fb = Some (paint (row_cells (unat s) (unat (fb_width fb)) Y n) color fb)"
  using assms
proof (induction n arbitrary: Y fb)
  case 0
  have "row_cells (unat s) (unat (fb_width fb)) Y 0 = {}" by (auto simp: row_cells_def)
  then show ?case by simp
next
  case (Suc n)
  let ?w = "unat (fb_width fb)"
  have "Y * unat s + ?w \<le> Suc Y * unat s" using Suc.prems(2) by (simp add: word_le_nat_alt)
  also have "\<dots> \<le> (Y + Suc n) * unat s" by (rule mult_right_mono) simp_all
  finally have fits: "Y * unat s + 0 + ?w \<le> length (fb_pixels fb)" using Suc.prems(3) by simp
  have row: "clear_row color (of_nat Y) ?w 0 fb = Some (paint {Y * unat s ..< Y * unat s + ?w} color fb)"
    using clear_row_paint [OF Suc.prems(1) fits Suc.prems(4)] by simp
  have step: "(of_nat Y + 1 :: u64) = of_nat (Suc Y)" by (simp add: add.commute)
  have "clear_rows color n (of_nat (Suc Y)) (paint {Y * unat s ..< Y * unat s + ?w} color fb) =
      Some (paint (row_cells (unat s) ?w (Suc Y) n) color (paint {Y * unat s ..< Y * unat s + ?w} color fb))"
    using Suc.IH [of "paint {Y * unat s ..< Y * unat s + ?w} color fb" "Suc Y"] Suc.prems by simp
  then show ?case
    unfolding clear_rows.simps row bind.bind_lunit step paint_paint row_cells_Suc .
qed

lemma clear_paint:
  assumes "fb_ok fb"
  shows "framebuffer_clear fb color =
    Some (paint (row_cells (unat (the (fb_stride fb))) (unat (fb_width fb)) 0 (unat (fb_height fb))) color fb)"
proof -
  obtain s where s: "fb_stride fb = Some s" "fb_width fb \<le> s" "unat s * unat (fb_height fb) \<le> length (fb_pixels fb)"
    "length (fb_pixels fb) < 2 ^ 63"
    using assms by (auto simp: fb_ok_def split: option.splits)
  then show ?thesis
    using clear_rows_paint [OF s(1,2), of 0 "unat (fb_height fb)" color]
    by (simp add: framebuffer_clear_def mult.commute)
qed

section \<open>Drawing\<close>

text \<open>Whether a pixel of the doubled glyph is set, and the cells of the set pixels.\<close>

definition lit :: "u8 \<Rightarrow> nat \<Rightarrow> nat \<Rightarrow> bool" where
  "lit c x y \<longleftrightarrow> charset ! (unat c - 32) ! (x div 2 + (y div 2) * CHARACTER_WIDTH) = 1"

definition glyph_cells :: "u8 \<Rightarrow> nat \<Rightarrow> nat \<Rightarrow> nat \<Rightarrow> nat set" where
  "glyph_cells c s sx sy =
     {i. \<exists>x y. x < CHARACTER_WIDTH * 2 \<and> y < CHARACTER_HEIGHT * 2 \<and> lit c x y \<and> i = (sy + y) * s + sx + x}"

definition printable :: "u8 \<Rightarrow> bool" where
  "printable c \<longleftrightarrow> 32 \<le> unat c \<and> unat c \<le> 126"

lemma CHARSET_printable:
  assumes "printable c"
  shows "CHARSET c = Some (charset ! (unat c - 32))" "length (charset ! (unat c - 32)) = 100"
proof -
  have c: "unat c < 128" "32 \<le> unat c" "unat c - 32 < 95" using assms by (auto simp: printable_def)
  have "sint c = int (unat c)" using c(1) by (intro sint_nonneg) simp
  then have "(scast c :: u64) = of_nat (unat c)" by (simp add: scast_eq)
  then have e: "(scast c - 32 :: u64) = of_nat (unat c - 32)" using c(2) by (simp add: of_nat_diff)
  have "unat (scast c - 32 :: u64) = unat c - 32"
    unfolding e by (rule unat_of_nat_u64) (use c in simp)
  then show "CHARSET c = Some (charset ! (unat c - 32))"
    using c(3) by (simp only: CHARSET_def arr_get_def length_charset) simp
  show "length (charset ! (unat c - 32)) = 100" by (rule glyph_length [OF c(3)])
qed

text \<open>The cells of row \<open>Y\<close> of the glyph from column \<open>X\<close> on, \<open>n\<close> columns.\<close>

definition glyph_row :: "u8 \<Rightarrow> nat \<Rightarrow> nat \<Rightarrow> nat \<Rightarrow> nat \<Rightarrow> nat \<Rightarrow> nat \<Rightarrow> nat set" where
  "glyph_row c s sx sy Y X n = {i. \<exists>x. X \<le> x \<and> x < X + n \<and> lit c x Y \<and> i = (sy + Y) * s + sx + x}"

lemma glyph_row_Suc:
  "glyph_row c s sx sy Y X (Suc n) =
     (if lit c X Y then {(sy + Y) * s + sx + X} else {}) \<union> glyph_row c s sx sy Y (Suc X) n"
  unfolding glyph_row_def by (auto simp: le_less Suc_le_eq)

lemma half_index: "(of_nat a :: u64) div 2 + of_nat b div 2 * 10 = of_nat (a div 2 + b div 2 * 10)"
  if "a < 20" "b < 20"
proof -
  have h: "(of_nat k :: u64) div 2 = of_nat (k div 2)" if "k < 20" for k
    using that by (intro word_unat_eq_iff [THEN iffD2]) (simp add: unat_simps unat_div_word unat_of_nat)
  show ?thesis using that by (simp add: h)
qed

lemma draw_row_paint:
  assumes "printable c" "fb_stride fb = Some s" "Y < 20" "X + n \<le> 20"
    "\<forall>x<20. lit c x Y \<longrightarrow> (unat sy + Y) * unat s + unat sx + x < length (fb_pixels fb)"
    "length (fb_pixels fb) < 2 ^ 63"
  shows "draw_row c sx sy color (of_nat Y) n (of_nat X) fb =
    Some (paint (glyph_row c (unat s) (unat sx) (unat sy) Y X n) color fb)"
  using assms
proof (induction n arbitrary: X fb)
  case 0
  have "glyph_row c (unat s) (unat sx) (unat sy) Y X 0 = {}" by (auto simp: glyph_row_def)
  then show ?case by simp
next
  case (Suc n)
  let ?g = "charset ! (unat c - 32)" and ?k = "X div 2 + Y div 2 * 10"
  let ?i = "(unat sy + Y) * unat s + unat sx + X"
  let ?fb = "paint (if lit c X Y then {?i} else {}) color fb"
  have XY: "X < 20" "Y < 20" using Suc.prems by simp_all
  have k: "?k < 100"
  proof -
    have "X div 2 \<le> 9" "Y div 2 \<le> 9" using XY by simp_all
    then show ?thesis by linarith
  qed
  have get: "arr_get ?g (of_nat X div 2 + of_nat Y div 2 * 10) = Some (?g ! ?k)"
    unfolding half_index [OF XY] arr_get_def CHARSET_printable(2) [OF Suc.prems(1)]
    using k unat_of_nat_u64 [of ?k] by simp
  have index: "(ucast sy + of_nat Y) * s + ucast sx + of_nat X = (of_nat ?i :: u64)" by simp
  have put: "(if ?g ! ?k = 1 then put_pixel ((ucast sy + of_nat Y) * s + ucast sx + of_nat X) color fb else Some fb) =
      Some ?fb"
  proof (cases "lit c X Y")
    case True
    then have in_fb: "?i < length (fb_pixels fb)" using Suc.prems(5) XY by blast
    have "unat (of_nat ?i :: u64) = ?i" by (rule unat_of_nat_u64, rule less_trans [OF in_fb], rule less_trans [OF Suc.prems(6)]) simp
    then show ?thesis using put_pixel_paint [of "of_nat ?i" fb color] in_fb True
      unfolding index by (simp add: lit_def del: of_nat_add of_nat_mult)
  qed (simp add: lit_def)
  have step: "(of_nat X + 1 :: u64) = of_nat (Suc X)" by (simp add: add.commute)
  have "draw_row c sx sy color (of_nat Y) n (of_nat (Suc X)) ?fb =
      Some (paint (glyph_row c (unat s) (unat sx) (unat sy) Y (Suc X) n) color ?fb)"
    by (rule Suc.IH) (use Suc.prems in simp_all)
  then show ?case
    using get put
    by (simp only: draw_row.simps CHARSET_printable(1) [OF Suc.prems(1)] bind.bind_lunit Suc.prems(2)
        of_nat_numeral step paint_paint glyph_row_Suc)
qed

lemma draw_rows_paint:
  assumes "printable c" "fb_stride fb = Some s" "Y + n \<le> 20"
    "glyph_cells c (unat s) (unat sx) (unat sy) \<subseteq> {..<length (fb_pixels fb)}" "length (fb_pixels fb) < 2 ^ 63"
  shows "draw_rows c sx sy color n (of_nat Y) fb =
    Some (paint (\<Union>y\<in>{Y..<Y + n}. glyph_row c (unat s) (unat sx) (unat sy) y 0 20) color fb)"
  using assms
proof (induction n arbitrary: Y fb)
  case (Suc n)
  let ?r = "\<lambda>y. glyph_row c (unat s) (unat sx) (unat sy) y 0 20"
  have Y: "Y < 20" using Suc.prems(3) by simp
  have cells: "\<forall>x<20. lit c x Y \<longrightarrow> (unat sy + Y) * unat s + unat sx + x < length (fb_pixels fb)"
    using Suc.prems(4) Y unfolding glyph_cells_def by auto
  have row: "draw_row c sx sy color (of_nat Y) (CHARACTER_WIDTH * 2) 0 fb = Some (paint (?r Y) color fb)"
    using draw_row_paint [OF Suc.prems(1,2) Y _ cells Suc.prems(5), of 0 20] by simp
  have step: "(of_nat Y + 1 :: u64) = of_nat (Suc Y)" by (simp add: add.commute)
  have rows: "?r Y \<union> (\<Union>y\<in>{Suc Y..<Suc Y + n}. ?r y) = (\<Union>y\<in>{Y..<Y + Suc n}. ?r y)"
  proof -
    have "{Y..<Y + Suc n} = insert Y {Suc Y..<Suc Y + n}" by auto
    then show ?thesis by simp
  qed
  have "draw_rows c sx sy color n (of_nat (Suc Y)) (paint (?r Y) color fb) =
      Some (paint (\<Union>y\<in>{Suc Y..<Suc Y + n}. ?r y) color (paint (?r Y) color fb))"
    by (rule Suc.IH) (use Suc.prems in simp_all)
  then show ?case unfolding draw_rows.simps row bind.bind_lunit step paint_paint rows .
qed simp

lemma draw_paint:
  assumes "printable c" "fb_stride fb = Some s"
    "glyph_cells c (unat s) (unat sx) (unat sy) \<subseteq> {..<length (fb_pixels fb)}" "length (fb_pixels fb) < 2 ^ 63"
  shows "framebuffer_draw_char fb c sx sy color =
    Some (paint (glyph_cells c (unat s) (unat sx) (unat sy)) color fb)"
proof -
  have "(\<Union>y\<in>{0..<0 + 20}. glyph_row c (unat s) (unat sx) (unat sy) y 0 20) =
      glyph_cells c (unat s) (unat sx) (unat sy)"
    unfolding glyph_row_def glyph_cells_def by auto blast+
  with draw_rows_paint [OF assms(1,2), of 0 20 sx sy color] assms(3,4) show ?thesis
    by (simp add: framebuffer_draw_char_def)
qed

end
