(* ===== verification/ByteSink.thy ===== *)
theory ByteSink
  imports Format
begin

text \<open>
  The contract between the two format interpreters and what they write to, the terminal or a logging
  backend: writing a byte returns and keeps the sink usable. Where the bytes can be read back from the
  state, a written text is appended to them. A sink that is a field of a larger state is a sink of that
  state, and writing to it changes nothing but the field.
\<close>

section \<open>The contract\<close>

locale byte_sink =
  fixes ok :: "'w \<Rightarrow> bool"
    and put :: "u8 \<Rightarrow> 'w \<Rightarrow> 'w option"
  assumes put_ok: "ok w \<Longrightarrow> \<exists>w'. put c w = Some w' \<and> ok w'"
begin

lemma puts_ok: "ok w \<Longrightarrow> \<exists>w'. puts put cs w = Some w' \<and> ok w'"
proof (induction cs arbitrary: w)
  case (Cons c cs)
  then obtain w1 where "put c w = Some w1" "ok w1" using put_ok by blast
  with Cons.IH [of w1] show ?case by simp
qed simp

lemma puts_keeps: "ok w \<Longrightarrow> puts put cs w = Some w' \<Longrightarrow> ok w'"
  using puts_ok [of w cs] by auto

end

section \<open>Sinks that can be read back\<close>

locale recorded_sink = byte_sink ok put
  for ok :: "'w \<Rightarrow> bool" and put :: "u8 \<Rightarrow> 'w \<Rightarrow> 'w option" +
  fixes record_of :: "'w \<Rightarrow> u8 list"
  assumes put_recorded: "ok w \<Longrightarrow> put c w = Some w' \<Longrightarrow> record_of w' = record_of w @ [c]"
begin

lemma puts_recorded: "ok w \<Longrightarrow> puts put cs w = Some w' \<Longrightarrow> record_of w' = record_of w @ cs"
proof (induction cs arbitrary: w)
  case (Cons c cs)
  obtain w1 where w1: "put c w = Some w1" "ok w1" using put_ok [OF Cons.prems(1)] by blast
  then have "puts put cs w1 = Some w'" using Cons.prems(2) by simp
  with Cons.IH [OF w1(2)] put_recorded [OF Cons.prems(1) w1(1)] show ?case by simp
qed simp

end

section \<open>Sinks that are fields\<close>

locale sink_field = byte_sink ok put
  for ok :: "'w \<Rightarrow> bool" and put :: "u8 \<Rightarrow> 'w \<Rightarrow> 'w option" +
  fixes field :: "'s \<Rightarrow> 'w"
    and update :: "'w \<Rightarrow> 's \<Rightarrow> 's"
  assumes field_update: "field (update w s) = w"
    and update_field: "update (field s) s = s"
    and update_update: "update w (update w' s) = update w s"
begin

lemma puts_field:
  "puts (\<lambda>c s. map_option (\<lambda>w. update w s) (put c (field s))) cs s =
     map_option (\<lambda>w. update w s) (puts put cs (field s))"
proof (induction cs arbitrary: s)
  case (Cons c cs)
  show ?case
    by (cases "put c (field s)") (simp_all add: Cons.IH field_update update_update)
qed (simp add: update_field)

sublocale whole: byte_sink "\<lambda>s. ok (field s)" "\<lambda>c s. map_option (\<lambda>w. update w s) (put c (field s))"
proof
  fix c s assume "ok (field s)"
  then obtain w where "put c (field s) = Some w" "ok w" using put_ok by blast
  then show "\<exists>s'. map_option (\<lambda>w. update w s) (put c (field s)) = Some s' \<and> ok (field s')"
    by (simp add: field_update)
qed

end

end
