(* ===== verification/Terminal.thy ===== *)
theory Terminal
  imports Framebuffer ByteSink
begin

text \<open>
  The terminal (kernel/src/terminal.c, terminal.h): a cursor of 8-bit columns and rows over the
  framebuffer. Shows that no byte makes it draw outside the framebuffer or lose the cursor, and that
  the cursor walks through the cells in reading order while a line has at most 255 of them.
\<close>

section \<open>Operations\<close>

record terminal =
  cursor_x :: u8
  cursor_y :: u8
  char_w :: u8
  char_h :: u8
  fg_color :: u32
  framebuffer :: limine_framebuffer

definition terminal_init :: "limine_framebuffer \<Rightarrow> u8 \<Rightarrow> u8 \<Rightarrow> terminal" where
  "terminal_init fb w h =
     \<lparr>cursor_x = 0, cursor_y = 0, char_w = w, char_h = h, fg_color = 0xffffff, framebuffer = fb\<rparr>"

definition terminal_set_color :: "u32 \<Rightarrow> terminal \<Rightarrow> terminal" where
  "terminal_set_color color t = t\<lparr>fg_color := color\<rparr>"

lemma unat_mod_4: "unat ((x :: u8) mod 4) = unat x mod 4"
  by (simp add: unat_mod)

lemma Suc_mod_4: "unat ((x :: u8) + 1) mod 4 = Suc (unat x) mod 4"
proof -
  have "unat (x + 1) = Suc (unat x) mod 2 ^ 8" by (simp add: unat_word_ariths)
  then show ?thesis by (simp add: mod_mod_cancel)
qed

text \<open>The \<open>do .. while\<close> loop of a tab.\<close>

function next_tab :: "u8 \<Rightarrow> u8" where
  "next_tab x = (let x = x + 1 in if x mod TAB_WIDTH \<noteq> 0 then next_tab x else x)"
  by pat_completeness auto
termination
proof (relation "measure (\<lambda>x. (3 - unat (x mod 4)))")
  fix x y :: u8
  assume "y = x + 1" and y: "y mod TAB_WIDTH \<noteq> 0"
  then have s: "unat y mod 4 = Suc (unat x) mod 4" by (simp add: Suc_mod_4)
  have "unat (y mod 4) \<noteq> 0" using y by (simp only: unat_eq_0) simp
  then have "unat y mod 4 \<noteq> 0" by (simp only: unat_mod_4) simp
  then have "unat x mod 4 < 3 \<and> unat y mod 4 = Suc (unat x mod 4)"
    using s by (simp add: mod_Suc split: if_splits)
  then show "(y, x) \<in> measure (\<lambda>x. 3 - unat (x mod 4))"
    unfolding in_measure unat_mod_4 by arith
qed simp

declare next_tab.simps [simp del]

text \<open>The two checks after the cursor has moved; the comparisons are in \<open>int\<close>, which does not overflow.\<close>

definition terminal_wrap :: "terminal \<Rightarrow> terminal option" where
  "terminal_wrap t =
     (let t = (if (ucast (cursor_x t) + 1) * ucast (char_w t) > fb_width (framebuffer t)
               then t\<lparr>cursor_x := 0, cursor_y := cursor_y t + 1\<rparr> else t)
      in if (ucast (cursor_y t) + 1) * ucast (char_h t) > fb_height (framebuffer t)
         then do {
           fb \<leftarrow> framebuffer_clear (framebuffer t) 0;
           Some (t\<lparr>cursor_x := 0, cursor_y := 0, framebuffer := fb\<rparr>)
         }
         else Some t)"

definition terminal_put_char :: "u8 \<Rightarrow> terminal \<Rightarrow> terminal option" where
  "terminal_put_char c t =
     (if c = 32 then terminal_wrap (t\<lparr>cursor_x := cursor_x t + 1\<rparr>)
      else if c = 10 then terminal_wrap (t\<lparr>cursor_x := 0, cursor_y := cursor_y t + 1\<rparr>)
      else if c = 9 then terminal_wrap (t\<lparr>cursor_x := next_tab (cursor_x t)\<rparr>)
      else if c < 32 \<or> c > 126 then Some t
      else do {
        fb \<leftarrow> framebuffer_draw_char (framebuffer t) c
               (ucast (cursor_x t) * ucast (char_w t)) (ucast (cursor_y t) * ucast (char_h t)) (fg_color t);
        terminal_wrap (t\<lparr>framebuffer := fb, cursor_x := cursor_x t + 1\<rparr>)
      })"

text \<open>\<open>for (i = 0; i < len; i++)\<close>, with \<open>n\<close> iterations left.\<close>

fun terminal_write_from :: "u8 list \<Rightarrow> nat \<Rightarrow> u64 \<Rightarrow> terminal \<Rightarrow> terminal option" where
  "terminal_write_from str 0 i t = Some t"
| "terminal_write_from str (Suc n) i t =
     do {
       c \<leftarrow> arr_get str i;
       t \<leftarrow> terminal_put_char c t;
       terminal_write_from str n (i + 1) t
     }"

definition terminal_write_string :: "u8 list \<Rightarrow> u64 \<Rightarrow> terminal \<Rightarrow> terminal option" where
  "terminal_write_string str len t = terminal_write_from str (unat len) 0 t"

definition terminal_log_write :: "u8 \<Rightarrow> 'a \<Rightarrow> terminal \<Rightarrow> terminal option" where
  "terminal_log_write c context t = terminal_put_char c t"

section \<open>Staying inside the framebuffer\<close>

text \<open>
  The cell at the cursor is on the screen. A glyph is 20 pixels wide and high, so it may reach into
  the next cells of its line, and at the end of a line into the next row of the framebuffer; from
  a cell height of 21 on this row exists.
\<close>

definition terminal_ok :: "terminal \<Rightarrow> bool" where
  "terminal_ok t \<longleftrightarrow> fb_ok (framebuffer t) \<and>
     (unat (cursor_x t) + 1) * unat (char_w t) \<le> unat (fb_width (framebuffer t)) \<and>
     (unat (cursor_y t) + 1) * unat (char_h t) \<le> unat (fb_height (framebuffer t)) \<and>
     21 \<le> unat (char_h t) \<and> 20 \<le> unat (fb_width (framebuffer t))"

text \<open>The cursor may have left the screen, before the checks.\<close>

definition moved :: "terminal \<Rightarrow> bool" where
  "moved t \<longleftrightarrow> fb_ok (framebuffer t) \<and> unat (char_w t) \<le> unat (fb_width (framebuffer t)) \<and>
     unat (char_h t) \<le> unat (fb_height (framebuffer t)) \<and>
     21 \<le> unat (char_h t) \<and> 20 \<le> unat (fb_width (framebuffer t))"

lemma unat_u8_less: "unat (a :: u8) < 256"
  using unsigned_less [of a] by simp

lemma unat_u8_ucast [simp]: "unat (ucast (a :: u8) :: u64) = unat a" "unat (ucast a :: u16) = unat a"
  using unat_u8_less [of a] by (simp_all add: unsigned_ucast_eq take_bit_nat_eq_self)

text \<open>The checks compare without overflow.\<close>

lemma cell_end: "unat ((ucast (a :: u8) + 1) * ucast (b :: u8) :: u64) = (unat a + 1) * unat b"
proof -
  have "(unat a + 1) * unat b \<le> 256 * 255"
    using unat_u8_less [of a] unat_u8_less [of b] by (intro mult_le_mono) simp_all
  moreover have "unat (ucast a + 1 :: u64) = unat a + 1"
    using unat_u8_less [of a] unat_add_u64 [of "ucast a" 1] by simp
  ultimately show ?thesis using unat_mult_u64 [of "ucast a + 1" "ucast b"] by simp
qed

lemma cell_fits: "(ucast (a :: u8) + 1) * ucast (b :: u8) > (w :: u64) \<longleftrightarrow> (unat a + 1) * unat b > unat w"
  unfolding word_less_nat_alt cell_end ..

lemma cell_start: "unat (ucast (a :: u8) * ucast (b :: u8) :: u16) = unat a * unat b"
proof -
  have "unat a * unat b \<le> 255 * 255"
    using unat_u8_less [of a] unat_u8_less [of b] by (intro mult_le_mono) simp_all
  then show ?thesis using unat_mult_lem [of "ucast a :: u16" "ucast b"] by simp
qed

lemma ok_moved: "terminal_ok t \<Longrightarrow> moved t"
  unfolding terminal_ok_def moved_def by (auto intro: order_trans [rotated])

lemma moved_update [simp]:
  "moved (t\<lparr>cursor_x := a\<rparr>) = moved t" "moved (t\<lparr>cursor_y := b\<rparr>) = moved t"
  "moved (t\<lparr>framebuffer := paint A color (framebuffer t)\<rparr>) = moved t"
  by (simp_all add: moved_def)

text \<open>What the checks leave behind.\<close>

lemma wrap_cases:
  assumes "moved t"
  obtains (stays) "terminal_wrap t = Some t" "terminal_ok t"
  | (next_line) "(unat (cursor_x t) + 1) * unat (char_w t) > unat (fb_width (framebuffer t))"
      "terminal_wrap t = Some (t\<lparr>cursor_x := 0, cursor_y := cursor_y t + 1\<rparr>)"
      "terminal_ok (t\<lparr>cursor_x := 0, cursor_y := cursor_y t + 1\<rparr>)"
  | (cleared) y A where
      "(unat y + 1) * unat (char_h t) > unat (fb_height (framebuffer t))"
      "y = (if (unat (cursor_x t) + 1) * unat (char_w t) > unat (fb_width (framebuffer t))
            then cursor_y t + 1 else cursor_y t)"
      "terminal_wrap t = Some (t\<lparr>cursor_x := 0, cursor_y := 0, framebuffer := paint A 0 (framebuffer t)\<rparr>)"
      "terminal_ok (t\<lparr>cursor_x := 0, cursor_y := 0, framebuffer := paint A 0 (framebuffer t)\<rparr>)"
proof -
  have fb: "fb_ok (framebuffer t)" using assms by (simp add: moved_def)
  note clear = clear_paint [OF fb, of 0]
  show thesis
  proof (cases "(unat (cursor_x t) + 1) * unat (char_w t) > unat (fb_width (framebuffer t))")
    case True
    note x = this
    show thesis
    proof (cases "(unat (cursor_y t + 1) + 1) * unat (char_h t) > unat (fb_height (framebuffer t))")
      case True
      then show thesis
        using x assms clear
        by (intro cleared) (auto simp: terminal_wrap_def cell_fits Let_def terminal_ok_def moved_def)
    next
      case False
      then show thesis
        using x assms by (intro next_line) (auto simp: terminal_wrap_def cell_fits Let_def terminal_ok_def moved_def)
    qed
  next
    case False
    note x = this
    show thesis
    proof (cases "(unat (cursor_y t) + 1) * unat (char_h t) > unat (fb_height (framebuffer t))")
      case True
      then show thesis
        using x assms clear
        by (intro cleared) (auto simp: terminal_wrap_def cell_fits Let_def terminal_ok_def moved_def)
    next
      case False
      then show thesis
        using x assms by (intro stays) (auto simp: terminal_wrap_def cell_fits Let_def terminal_ok_def moved_def)
    qed
  qed
qed

lemma wrap_ok:
  assumes "moved t"
  shows "\<exists>t'. terminal_wrap t = Some t' \<and> terminal_ok t'"
  using assms by (cases rule: wrap_cases) auto

text \<open>The glyph at the cursor lies in the framebuffer.\<close>

lemma glyph_cells_inside:
  assumes "terminal_ok t" "fb_stride (framebuffer t) = Some s"
  shows "glyph_cells c (unat s) (unat (cursor_x t) * unat (char_w t)) (unat (cursor_y t) * unat (char_h t))
    \<subseteq> {..<length (fb_pixels (framebuffer t))}"
proof
  let ?x = "unat (cursor_x t) * unat (char_w t)" and ?y = "unat (cursor_y t) * unat (char_h t)"
  let ?w = "unat (fb_width (framebuffer t))" and ?h = "unat (fb_height (framebuffer t))"
  fix i assume "i \<in> glyph_cells c (unat s) ?x ?y"
  then obtain x y where xy: "x < 20" "y < 20" "i = (?y + y) * unat s + ?x + x" by (auto simp: glyph_cells_def)
  have ok: "?x + unat (char_w t) \<le> ?w" "?y + unat (char_h t) \<le> ?h" "21 \<le> unat (char_h t)" "20 \<le> ?w"
    "?w \<le> unat s" "unat s * ?h \<le> length (fb_pixels (framebuffer t))"
    using assms by (simp_all add: terminal_ok_def fb_ok_def algebra_simps word_le_nat_alt)
  have "i < (?y + y) * unat s + 2 * unat s" using xy ok by linarith
  also have "\<dots> = (?y + y + 2) * unat s" by (simp add: algebra_simps)
  also have "\<dots> \<le> ?h * unat s" using xy ok by (intro mult_right_mono) linarith+
  also have "\<dots> \<le> length (fb_pixels (framebuffer t))" using ok(6) by (simp add: mult.commute)
  finally show "i \<in> {..<length (fb_pixels (framebuffer t))}" by simp
qed

lemma not_printable: "c < 32 \<or> c > 126 \<longleftrightarrow> \<not> printable c"
  by (auto simp: printable_def word_less_nat_alt)

lemma put_printable:
  assumes "terminal_ok t" "printable c" "c \<noteq> 32"
  shows "\<exists>s. fb_stride (framebuffer t) = Some s \<and>
    terminal_put_char c t = terminal_wrap (t\<lparr>framebuffer :=
      paint (glyph_cells c (unat s) (unat (cursor_x t) * unat (char_w t)) (unat (cursor_y t) * unat (char_h t)))
        (fg_color t) (framebuffer t), cursor_x := cursor_x t + 1\<rparr>)"
proof -
  obtain s where s: "fb_stride (framebuffer t) = Some s" "length (fb_pixels (framebuffer t)) < 2 ^ 63"
    using assms(1) by (auto simp: terminal_ok_def fb_ok_def split: option.splits)
  have c: "c \<noteq> 10" "c \<noteq> 9" "\<not> (c < 32 \<or> c > 126)"
    using assms(2) by (auto simp: printable_def word_less_nat_alt)
  have "framebuffer_draw_char (framebuffer t) c (ucast (cursor_x t) * ucast (char_w t))
      (ucast (cursor_y t) * ucast (char_h t)) (fg_color t) =
    Some (paint (glyph_cells c (unat s) (unat (cursor_x t) * unat (char_w t)) (unat (cursor_y t) * unat (char_h t)))
      (fg_color t) (framebuffer t))"
    using draw_paint [OF assms(2) s(1) _ s(2),
        of "ucast (cursor_x t) * ucast (char_w t)" "ucast (cursor_y t) * ucast (char_h t)" "fg_color t"]
      glyph_cells_inside [OF assms(1) s(1)]
    by (simp only: cell_start)
  with s(1) c assms(3) show ?thesis by (simp add: terminal_put_char_def)
qed

lemma put_char_ok:
  assumes "terminal_ok t"
  shows "\<exists>t'. terminal_put_char c t = Some t' \<and> terminal_ok t'"
proof -
  have m: "moved t" by (rule ok_moved [OF assms])
  consider "c = 32" | "c = 10" | "c = 9" | "c \<noteq> 32" "c \<noteq> 10" "c \<noteq> 9" "c < 32 \<or> c > 126" | "c \<noteq> 32" "printable c"
    unfolding not_printable by blast
  then show ?thesis
  proof cases
    case 5
    then obtain A where
      "terminal_put_char c t = terminal_wrap (t\<lparr>framebuffer := paint A (fg_color t) (framebuffer t), cursor_x := cursor_x t + 1\<rparr>)"
      using put_printable [OF assms] by blast
    then show ?thesis using wrap_ok m by simp
  qed (use assms m wrap_ok in \<open>simp_all add: terminal_put_char_def\<close>)
qed

interpretation terminal_sink: byte_sink terminal_ok terminal_put_char
  by unfold_locales (rule put_char_ok)

lemma write_from_puts:
  assumes "unat i + n \<le> length str" "length str < 2 ^ 63"
  shows "terminal_write_from str n i t = puts terminal_put_char (take n (drop (unat i) str)) t"
  by (rule loop_puts [of "terminal_write_from str"]) (use assms in simp_all)

lemma write_from_ok:
  assumes "terminal_ok t" "unat i + n \<le> length str" "length str < 2 ^ 63"
  shows "\<exists>t'. terminal_write_from str n i t = Some t' \<and> terminal_ok t'"
  unfolding write_from_puts [OF assms(2,3)] by (rule terminal_sink.puts_ok [OF assms(1)])

section \<open>The walk of the cursor\<close>

definition columns :: "terminal \<Rightarrow> nat" where
  "columns t = unat (fb_width (framebuffer t)) div unat (char_w t)"

definition rows :: "terminal \<Rightarrow> nat" where
  "rows t = unat (fb_height (framebuffer t)) div unat (char_h t)"

text \<open>The number of the cell at the cursor, in reading order.\<close>

definition cell :: "terminal \<Rightarrow> nat" where
  "cell t = unat (cursor_y t) * columns t + unat (cursor_x t)"

lemma beyond_iff: "0 < w \<Longrightarrow> (k + 1) * w > n \<longleftrightarrow> n div w \<le> (k :: nat)"
  by (metis Suc_eq_plus1 div_less_iff_less_mult less_Suc_eq_le)

lemma unat_inc: "unat (a :: u8) < 255 \<Longrightarrow> unat (a + 1) = unat a + 1"
  by (simp add: unat_word_ariths)

lemma wrap_cell:
  assumes m: "moved t" and w: "0 < unat (char_w t)" and "columns t \<le> 255" "rows t \<le> 255"
    and x: "unat (cursor_x t) \<le> columns t" and y: "unat (cursor_y t) < rows t"
  shows "\<exists>t'. terminal_wrap t = Some t' \<and> cell t' = cell t mod (columns t * rows t) \<and>
    (cell t < columns t * rows t \<longrightarrow> framebuffer t' = framebuffer t)"
proof -
  have h: "0 < unat (char_h t)" using m by (simp add: moved_def)
  note beyond_x = beyond_iff [OF w, of "unat (fb_width (framebuffer t))", folded columns_def]
    and beyond_y = beyond_iff [OF h, of "unat (fb_height (framebuffer t))", folded rows_def]
  have c0: "0 < columns t" "0 < rows t"
    using m w h by (simp_all add: moved_def columns_def rows_def div_greater_zero_iff)
  have inc: "unat (cursor_y t + 1) = unat (cursor_y t) + 1" using y assms(4) by (intro unat_inc) simp
  have full: "unat (cursor_y t) * columns t + columns t \<le> columns t * rows t"
    using y by (metis Suc_leI add.commute mult.commute mult_Suc mult_le_mono2)
  from m show ?thesis
  proof (cases rule: wrap_cases)
    case stays
    then have "\<not> (unat (cursor_x t) + 1) * unat (char_w t) > unat (fb_width (framebuffer t))"
      by (simp add: terminal_ok_def)
    then have "unat (cursor_x t) < columns t" by (simp only: beyond_x not_le)
    then show ?thesis using stays full by (simp add: cell_def)
  next
    case next_line
    then have "columns t \<le> unat (cursor_x t)" by (simp only: beyond_x)
    then have at_end: "unat (cursor_x t) = columns t" using x by simp
    have "\<not> (unat (cursor_y t) + 1 + 1) * unat (char_h t) > unat (fb_height (framebuffer t))"
      using next_line(3) by (simp add: terminal_ok_def inc)
    then have "unat (cursor_y t) + 1 < rows t" by (simp only: beyond_y not_le)
    then have "(unat (cursor_y t) + 1) * columns t < rows t * columns t"
      by (rule mult_strict_right_mono) (use c0 in simp)
    then have "(unat (cursor_y t) + 1) * columns t < columns t * rows t" by (simp only: mult.commute)
    then show ?thesis using next_line(2) at_end by (simp add: cell_def columns_def inc)
  next
    case (cleared y A)
    then have "rows t \<le> unat y" by (simp only: beyond_y)
    then have past: "(unat (cursor_x t) + 1) * unat (char_w t) > unat (fb_width (framebuffer t))"
      "rows t \<le> unat (cursor_y t) + 1"
      using y cleared(2) inc by (auto split: if_splits)
    then have "columns t \<le> unat (cursor_x t)" by (simp only: beyond_x)
    then have "cell t = (unat (cursor_y t) + 1) * columns t" using x by (simp add: cell_def)
    also have "unat (cursor_y t) + 1 = rows t" using past(2) y by simp
    finally have "cell t = columns t * rows t" by (simp only: mult.commute)
    then show ?thesis using cleared(3) by (simp add: cell_def [of "t\<lparr>cursor_x := 0, cursor_y := 0, framebuffer := paint A 0 (framebuffer t)\<rparr>"])
  qed
qed

text \<open>The cells of the glyph of a character at the cursor.\<close>

definition glyph_at :: "u8 \<Rightarrow> u64 \<Rightarrow> terminal \<Rightarrow> nat set" where
  "glyph_at c s t =
     glyph_cells c (unat s) (unat (cursor_x t) * unat (char_w t)) (unat (cursor_y t) * unat (char_h t))"

lemma put_cell:
  assumes "terminal_ok t" "printable c" "0 < unat (char_w t)" "columns t \<le> 255" "rows t \<le> 255"
  shows "\<exists>t'. terminal_put_char c t = Some t' \<and> cell t' = (cell t + 1) mod (columns t * rows t) \<and>
    (c \<noteq> 32 \<and> cell t + 1 < columns t * rows t \<longrightarrow>
       framebuffer t' = paint (glyph_at c (the (fb_stride (framebuffer t))) t) (fg_color t) (framebuffer t))"
proof -
  have h: "0 < unat (char_h t)" using assms(1) by (simp add: terminal_ok_def)
  have "\<not> (unat (cursor_x t) + 1) * unat (char_w t) > unat (fb_width (framebuffer t))"
    "\<not> (unat (cursor_y t) + 1) * unat (char_h t) > unat (fb_height (framebuffer t))"
    using assms(1) by (simp_all add: terminal_ok_def)
  then have x: "unat (cursor_x t) < columns t" and y: "unat (cursor_y t) < rows t"
    unfolding beyond_iff [OF assms(3)] beyond_iff [OF h] columns_def rows_def by simp_all
  have inc: "unat (cursor_x t + 1) = unat (cursor_x t) + 1" using x assms(4) by (intro unat_inc) simp
  let ?s = "\<lambda>fb. t\<lparr>framebuffer := fb, cursor_x := cursor_x t + 1\<rparr>"
  have wrap: "\<exists>t'. terminal_wrap (?s (paint A (fg_color t) (framebuffer t))) = Some t' \<and>
      cell t' = (cell t + 1) mod (columns t * rows t) \<and>
      (cell t + 1 < columns t * rows t \<longrightarrow> framebuffer t' = paint A (fg_color t) (framebuffer t))" for A
  proof -
    let ?t = "?s (paint A (fg_color t) (framebuffer t))"
    have eqs: "columns ?t = columns t" "rows ?t = rows t" "cell ?t = cell t + 1"
      by (simp_all add: columns_def rows_def cell_def inc)
    have "\<exists>t'. terminal_wrap ?t = Some t' \<and> cell t' = cell ?t mod (columns ?t * rows ?t) \<and>
        (cell ?t < columns ?t * rows ?t \<longrightarrow> framebuffer t' = framebuffer ?t)"
    proof (rule wrap_cell)
      show "moved ?t" using ok_moved [OF assms(1)] by simp
    qed (use assms x y in \<open>simp_all add: eqs inc\<close>)
    then show ?thesis unfolding eqs by simp
  qed
  show ?thesis
  proof (cases "c = 32")
    case True
    then show ?thesis using wrap [of "{}"] by (auto simp: terminal_put_char_def)
  next
    case False
    then obtain s where s: "fb_stride (framebuffer t) = Some s"
      "terminal_put_char c t = terminal_wrap (?s (paint (glyph_at c s t) (fg_color t) (framebuffer t)))"
      using put_printable [OF assms(1,2)] unfolding glyph_at_def by blast
    show ?thesis using wrap [of "glyph_at c s t"] s False by auto
  qed
qed

definition same_screen :: "terminal \<Rightarrow> terminal \<Rightarrow> bool" where
  "same_screen t t' \<longleftrightarrow> columns t' = columns t \<and> rows t' = rows t \<and> char_w t' = char_w t"

lemma wrap_same:
  assumes "moved t" "terminal_wrap t = Some t'"
  shows "same_screen t t'"
  using assms(1) by (cases rule: wrap_cases) (use assms(2) in \<open>auto simp: same_screen_def columns_def rows_def\<close>)

lemma put_same:
  assumes "terminal_ok t" "printable c" "terminal_put_char c t = Some t'"
  shows "same_screen t t'"
proof (cases "c = 32")
  case True
  then have "terminal_wrap (t\<lparr>cursor_x := cursor_x t + 1\<rparr>) = Some t'" using assms(3) by (simp add: terminal_put_char_def)
  from wrap_same [OF _ this] show ?thesis using ok_moved [OF assms(1)] by (auto simp: same_screen_def columns_def rows_def)
next
  case False
  then obtain A where
    "terminal_wrap (t\<lparr>framebuffer := paint A (fg_color t) (framebuffer t), cursor_x := cursor_x t + 1\<rparr>) = Some t'"
    using put_printable [OF assms(1,2)] assms(3) by metis
  from wrap_same [OF _ this] show ?thesis using ok_moved [OF assms(1)] by (auto simp: same_screen_def columns_def rows_def)
qed

lemma write_cells:
  assumes "terminal_ok t" "0 < unat (char_w t)" "columns t \<le> 255" "rows t \<le> 255"
    "unat i + n \<le> length str" "length str < 2 ^ 63" "\<forall>c\<in>set str. printable c"
  shows "\<exists>t'. terminal_write_from str n i t = Some t' \<and> terminal_ok t' \<and>
    cell t' mod (columns t * rows t) = (cell t + n) mod (columns t * rows t)"
  using assms
proof (induction n arbitrary: i t)
  case (Suc n)
  have i: "unat (i + 1) = unat i + 1" using Suc.prems unat_add_u64 [of i 1] by simp
  have c: "printable (str ! unat i)" using Suc.prems(5,7) by simp
  obtain t1 where t1: "terminal_put_char (str ! unat i) t = Some t1"
    "cell t1 = (cell t + 1) mod (columns t * rows t)"
    using put_cell [OF Suc.prems(1) c Suc.prems(2-4)] by blast
  have ok: "terminal_ok t1" using put_char_ok [OF Suc.prems(1)] t1(1) by (metis option.inject)
  have same: "columns t1 = columns t" "rows t1 = rows t" "char_w t1 = char_w t"
    using put_same [OF Suc.prems(1) c t1(1)] by (simp_all add: same_screen_def)
  have "\<exists>t'. terminal_write_from str n (i + 1) t1 = Some t' \<and> terminal_ok t' \<and>
    cell t' mod (columns t1 * rows t1) = (cell t1 + n) mod (columns t1 * rows t1)"
    by (rule Suc.IH [OF ok]) (use Suc.prems i same in simp_all)
  then show ?case using t1 Suc.prems same by (simp add: array_simps mod_add_left_eq)
qed simp

section \<open>Properties\<close>

text \<open>
  C25: on a terminal whose cell is on the screen, any byte is handled without an access outside the
  framebuffer, and the cell of the cursor is on the screen afterwards.
\<close>

theorem terminal_put_char_safe:
  assumes "terminal_ok t"
  shows "\<exists>t'. terminal_put_char c t = Some t' \<and> terminal_ok t'"
  by (rule put_char_ok [OF assms])


text \<open>
  C40: a printable character other than the space is drawn in the color of the terminal: if the cursor
  is not in the last cell, exactly the cells of its glyph change.
\<close>

theorem terminal_put_char_draws:
  assumes "terminal_ok t" "printable c" "c \<noteq> 32" "0 < unat (char_w t)" "columns t \<le> 255" "rows t \<le> 255"
    "cell t + 1 < columns t * rows t"
  shows "\<exists>t'. terminal_put_char c t = Some t' \<and>
    framebuffer t' = paint (glyph_at c (the (fb_stride (framebuffer t))) t) (fg_color t) (framebuffer t)"
  using put_cell [OF assms(1,2,4-6)] assms(3,7) by blast

text \<open>
  On a screen with 256 columns or more a line never ends: the 8-bit column wraps to 0 in the same
  line, so printable characters overwrite it and never reach the next one.
\<close>

theorem terminal_wide_line_repeats:
  assumes "terminal_ok t" "printable c" "256 * unat (char_w t) \<le> unat (fb_width (framebuffer t))"
  shows "\<exists>t'. terminal_put_char c t = Some t' \<and> cursor_y t' = cursor_y t \<and> cursor_x t' = cursor_x t + 1"
proof -
  have x: "\<not> (unat (a :: u8) + 1) * unat (char_w t) > unat (fb_width (framebuffer t))" for a
  proof -
    have "(unat a + 1) * unat (char_w t) \<le> 256 * unat (char_w t)"
      using unat_u8_less [of a] by (intro mult_right_mono) simp_all
    then show ?thesis using assms(3) by linarith
  qed
  have y: "\<not> (unat (cursor_y t) + 1) * unat (char_h t) > unat (fb_height (framebuffer t))"
    using assms(1) by (simp add: terminal_ok_def)
  have wrap: "terminal_wrap (t\<lparr>framebuffer := paint A (fg_color t) (framebuffer t), cursor_x := cursor_x t + 1\<rparr>) =
      Some (t\<lparr>framebuffer := paint A (fg_color t) (framebuffer t), cursor_x := cursor_x t + 1\<rparr>)" for A
    using x [of "cursor_x t + 1"] y by (simp add: terminal_wrap_def cell_fits)
  show ?thesis
  proof (cases "c = 32")
    case True
    then show ?thesis using wrap [of "{}"] by (simp add: terminal_put_char_def)
  next
    case False
    then show ?thesis using put_printable [OF assms(1,2)] wrap by auto
  qed
qed

section \<open>Sample screens\<close>

definition demo_screen :: "u64 \<Rightarrow> u64 \<Rightarrow> terminal" where
  "demo_screen w h = terminal_init
     \<lparr>fb_pixels = replicate (unat w * unat h) 0, fb_width = w, fb_height = h, fb_pitch = 4 * w, fb_bpp = 32\<rparr> 13 22"

lemma demo_screen_fields:
  "cursor_x (demo_screen w h) = 0" "cursor_y (demo_screen w h) = 0" "char_w (demo_screen w h) = 13"
  "char_h (demo_screen w h) = 22" "fb_width (framebuffer (demo_screen w h)) = w"
  "fb_height (framebuffer (demo_screen w h)) = h"
  by (simp_all add: demo_screen_def terminal_init_def)

lemma demo_screen_ok: "terminal_ok (demo_screen 40 44)" "terminal_ok (demo_screen 3840 2160)"
  by (simp_all add: terminal_ok_def demo_screen_fields fb_ok_def)
    (simp_all add: demo_screen_def terminal_init_def fb_stride_def)

lemma demo_screen_size: "columns (demo_screen 40 44) = 3" "rows (demo_screen 40 44) = 2" "cell (demo_screen 40 44) = 0"
  by (simp_all add: columns_def rows_def cell_def demo_screen_fields)

lemma terminal_put_char_safe_witness:
  "\<exists>t'. terminal_put_char 9 (demo_screen 40 44) = Some t' \<and> terminal_ok t'"
  by (rule terminal_put_char_safe [OF demo_screen_ok(1)])


lemma terminal_put_char_draws_witness:
  "\<exists>t'. terminal_put_char 65 (demo_screen 40 44) = Some t' \<and>
    framebuffer t' = paint (glyph_at 65 40 (demo_screen 40 44)) 0xffffff (framebuffer (demo_screen 40 44))"
proof -
  have "fg_color (demo_screen 40 44) = 0xffffff" "fb_stride (framebuffer (demo_screen 40 44)) = Some 40"
    by (simp_all add: demo_screen_def terminal_init_def fb_stride_def)
  with terminal_put_char_draws [OF demo_screen_ok(1), of 65] show ?thesis
    by (simp add: demo_screen_size demo_screen_fields printable_def)
qed

lemma terminal_wide_line_repeats_witness:
  "\<exists>t'. terminal_put_char 65 (demo_screen 3840 2160) = Some t' \<and> cursor_y t' = 0 \<and> cursor_x t' = 1"
  using terminal_wide_line_repeats [OF demo_screen_ok(2), of 65]
  by (simp add: demo_screen_fields printable_def)

end
