(* ===== verification/Printf.thy ===== *)
theory Printf
  imports Format Terminal
begin

text \<open>
  \<open>printf\<close> (libc/stdio/printf.c), a state machine over the characters of the format string that
  prints to the terminal. The buffer \<open>format_string\<close> is an array of 256 bytes with any contents at
  the start. Shows that it follows the reference of Format.
\<close>

section \<open>Operations\<close>

text \<open>The variables of the function; \<open>pf_outs\<close> are the numbers written through \<open>%n\<close>, latest last.\<close>

record printf_state =
  pf_written :: u64
  pf_in_format :: bool
  pos_number_prefix :: u8
  format_string :: "u8 list"
  pf_list :: "format_arg list"
  pf_outs :: "u32 list"
  pf_terminal :: terminal

definition printf_put :: "u8 \<Rightarrow> printf_state \<Rightarrow> printf_state option" where
  "printf_put c st =
     do {
       t \<leftarrow> terminal_put_char c (pf_terminal st);
       Some (st\<lparr>pf_terminal := t, pf_written := pf_written st + 1\<rparr>)
     }"

text \<open>Writes a string and counts the given number of characters.\<close>

definition printf_write :: "u8 list \<Rightarrow> u64 \<Rightarrow> u64 \<Rightarrow> printf_state \<Rightarrow> printf_state option" where
  "printf_write str len counted st =
     do {
       t \<leftarrow> terminal_write_string str len (pf_terminal st);
       Some (st\<lparr>pf_terminal := t, pf_written := pf_written st + counted\<rparr>)
     }"

text \<open>The conversions that end the format mode.\<close>

definition printf_conversion :: "u8 \<Rightarrow> printf_state \<Rightarrow> printf_state option" where
  "printf_conversion c st =
     (if c = FORMAT_CHAR then
        do {
          (w, list) \<leftarrow> va_arg_word (pf_list st);
          printf_put (ucast w) (st\<lparr>pf_list := list\<rparr>)
        }
      else if c = FORMAT_STRING then
        do {
          (s, list) \<leftarrow> va_arg_str (pf_list st);
          s_len \<leftarrow> strlen s;
          printf_write s s_len s_len (st\<lparr>pf_list := list\<rparr>)
        }
      else if c = FORMAT_SPECIFIER then printf_put FORMAT_SPECIFIER st
      else if c = FORMAT_INT1 \<or> c = FORMAT_INT2 then
        do {
          (w, list) \<leftarrow> va_arg_word (pf_list st);
          let format_number = (ucast w :: u32);
          (buf, len) \<leftarrow> format_signed (scast format_number) 10 (format_string st);
          let st = st\<lparr>pf_list := list, format_string := buf\<rparr>;
          st \<leftarrow> (if pos_number_prefix st \<noteq> 0 \<and> sint format_number \<ge> 0
                 then printf_put (pos_number_prefix st) st else Some st);
          printf_write buf len len st
        }
      else if c = FORMAT_UINT then
        do {
          (w, list) \<leftarrow> va_arg_word (pf_list st);
          (buf, len) \<leftarrow> format_unsigned (ucast (ucast w :: u32)) 10 (format_string st);
          t \<leftarrow> terminal_put_char (pos_number_prefix st) (pf_terminal st);
          printf_write buf len (len + 1) (st\<lparr>pf_list := list, format_string := buf, pf_terminal := t\<rparr>)
        }
      else if c = FORMAT_OCTAL then
        do {
          (w, list) \<leftarrow> va_arg_word (pf_list st);
          (buf, len) \<leftarrow> format_unsigned (ucast (ucast w :: u32)) 8 (format_string st);
          printf_write buf len len (st\<lparr>pf_list := list, format_string := buf\<rparr>)
        }
      else if c = FORMAT_HEX then
        do {
          (w, list) \<leftarrow> va_arg_word (pf_list st);
          (buf, len) \<leftarrow> format_unsigned (ucast (ucast w :: u32)) 16 (format_string st);
          printf_write buf len len (st\<lparr>pf_list := list, format_string := buf\<rparr>)
        }
      else if c = FORMAT_POINTER then
        do {
          (w, list) \<leftarrow> va_arg_word (pf_list st);
          (buf, len) \<leftarrow> format_unsigned w 16 (format_string st);
          st \<leftarrow> printf_write [48, 120, 0] 2 0 (st\<lparr>pf_list := list, format_string := buf\<rparr>);
          printf_write buf len len st
        }
      else
        do {
          list \<leftarrow> va_arg_out (pf_list st);
          Some (st\<lparr>pf_list := list, pf_outs := pf_outs st @ [ucast (pf_written st)]\<rparr>)
        })"

text \<open>One round of the loop; \<open>False\<close> is the early return.\<close>

definition printf_round :: "u8 \<Rightarrow> printf_state \<Rightarrow> (bool \<times> printf_state) option" where
  "printf_round c st =
     (if \<not> pf_in_format st then
        if c = FORMAT_SPECIFIER then Some (True, st\<lparr>pf_in_format := True, pos_number_prefix := NO_PREFIX\<rparr>)
        else map_option (Pair True) (printf_put c st)
      else if takes_argument c \<or> c = FORMAT_SPECIFIER \<or> c = FORMAT_NO_OUTPUT then
        do {
          st \<leftarrow> printf_conversion c st;
          Some (True, st\<lparr>pf_in_format := False\<rparr>)
        }
      else if c = FORMAT_PREFIX_PLUS then Some (True, st\<lparr>pos_number_prefix := 43\<rparr>)
      else if c = FORMAT_PREFIX_SPACE then Some (True, st\<lparr>pos_number_prefix := 32\<rparr>)
      else Some (False, st))"

text \<open>The loop over the format string, with \<open>n\<close> rounds left.\<close>

fun printf_loop :: "u8 list \<Rightarrow> nat \<Rightarrow> u64 \<Rightarrow> printf_state \<Rightarrow> (bool \<times> printf_state) option" where
  "printf_loop str 0 i st = Some (True, st)"
| "printf_loop str (Suc n) i st =
     do {
       c \<leftarrow> arr_get str i;
       (continue, st) \<leftarrow> printf_round c st;
       if continue then printf_loop str n (i + 1) st else Some (False, st)
     }"

text \<open>The result: the number returned, the numbers written through \<open>%n\<close> and the terminal.\<close>

definition printf ::
    "u8 list \<Rightarrow> format_arg list \<Rightarrow> u8 list \<Rightarrow> terminal \<Rightarrow> (u64 \<times> u32 list \<times> terminal) option" where
  "printf str list buf t =
     do {
       len \<leftarrow> strlen str;
       (returned, st) \<leftarrow> printf_loop str (unat len) 0
         \<lparr>pf_written = 0, pf_in_format = False, pos_number_prefix = NO_PREFIX, format_string = buf,
          pf_list = list, pf_outs = [], pf_terminal = t\<rparr>;
       Some (if returned then pf_written st else - 1, pf_outs st, pf_terminal st)
     }"

section \<open>The reference\<close>

text \<open>
  What a parsed format string prints, returns and stores: \<open>%p\<close> is counted without its \<open>0x\<close>, an
  unknown conversion returns -1 and prints nothing more.
\<close>

definition counted :: "u8 \<Rightarrow> u8 list \<Rightarrow> u64" where
  "counted c text = of_nat (if c = FORMAT_POINTER then length text - 2 else length text)"

fun printed :: "directive list \<Rightarrow> format_arg list \<Rightarrow> u64 \<Rightarrow> (u8 list \<times> u64 \<times> u32 list) option" where
  "printed [] list n = Some ([], n, [])"
| "printed (Literal c # ds) list n =
     map_option (\<lambda>(text, r, outs). (c # text, r, outs)) (printed ds list (n + 1))"
| "printed (Conversion prefix c # ds) list n =
     (if c = FORMAT_SPECIFIER
      then map_option (\<lambda>(text, r, outs). (c # text, r, outs)) (printed ds list (n + 1))
      else if c = FORMAT_NO_OUTPUT then
        (case list of
           Out_ptr # list \<Rightarrow> map_option (\<lambda>(text, r, outs). (text, r, ucast n # outs)) (printed ds list n)
         | _ \<Rightarrow> None)
      else if \<not> takes_argument c then Some ([], - 1, [])
      else (case list of
          [] \<Rightarrow> None
        | a # list \<Rightarrow>
            (case conversion_text prefix c a of
               None \<Rightarrow> None
             | Some t \<Rightarrow>
                 map_option (\<lambda>(text, r, outs). (t @ text, r, outs)) (printed ds list (n + counted c t)))))"

section \<open>The loop over the characters\<close>

fun printf_chars :: "u8 list \<Rightarrow> printf_state \<Rightarrow> (bool \<times> printf_state) option" where
  "printf_chars [] st = Some (True, st)"
| "printf_chars (c # cs) st =
     do {
       (continue, st) \<leftarrow> printf_round c st;
       if continue then printf_chars cs st else Some (False, st)
     }"

lemma printf_loop_chars:
  assumes "unat i + n \<le> length str" "length str < 2 ^ 63"
  shows "printf_loop str n i st = printf_chars (take n (drop (unat i) str)) st"
  using assms
proof (induction n arbitrary: i st)
  case (Suc n)
  have i: "unat (i + 1) = Suc (unat i)" using Suc.prems unat_add_u64 [of i 1] by simp
  have "take (Suc n) (drop (unat i) str) = str ! unat i # take n (drop (Suc (unat i)) str)"
    using Suc.prems by (simp add: Cons_nth_drop_Suc [symmetric])
  moreover have "printf_loop str n (i + 1) st' = printf_chars (take n (drop (Suc (unat i)) str)) st'" for st'
    using Suc.IH [of "i + 1" st'] Suc.prems i by simp
  ultimately show ?case using Suc.prems by (simp add: array_simps cong: if_cong)
qed simp

lemma write_string_puts:
  "unat len \<le> length str \<Longrightarrow> length str < 2 ^ 63 \<Longrightarrow>
     terminal_write_string str len t = puts terminal_put_char (take (unat len) str) t"
  using write_from_puts [of 0 "unat len" str t] by (simp add: terminal_write_string_def)

text \<open>
  What a step adds to the state: text on the terminal, the count, the arguments left. The terminal
  only ever gets text.
\<close>

definition advanced ::
    "u8 list \<Rightarrow> u64 \<Rightarrow> format_arg list \<Rightarrow> u8 list \<Rightarrow> printf_state \<Rightarrow> printf_state option" where
  "advanced text k list buf st =
     map_option (\<lambda>t. st\<lparr>pf_terminal := t, pf_written := pf_written st + k, pf_list := list, format_string := buf\<rparr>)
       (puts terminal_put_char text (pf_terminal st))"

lemma printf_put_advanced: "printf_put c st = advanced [c] 1 (pf_list st) (format_string st) st"
  by (cases "terminal_put_char c (pf_terminal st)") (simp_all add: printf_put_def advanced_def)

lemma printf_write_advanced:
  assumes "unat len \<le> length str" "length str < 2 ^ 63"
  shows "printf_write str len k st = advanced (take (unat len) str) k (pf_list st) (format_string st) st"
  by (cases "puts terminal_put_char (take (unat len) str) (pf_terminal st)")
    (simp_all add: printf_write_def advanced_def write_string_puts [OF assms])

lemma advanced_twice:
  "Option.bind (advanced xs j list buf st) (advanced ys k list' buf') = advanced (xs @ ys) (j + k) list' buf' st"
  by (cases "puts terminal_put_char xs (pf_terminal st)") (simp_all add: advanced_def puts_append add.assoc)

section \<open>Following the reference\<close>

lemma of_nat_length: "unat (len :: u64) = length xs \<Longrightarrow> of_nat (length xs) = len"
proof -
  assume l: "unat len = length xs"
  have "of_nat (unat len) = len" by simp
  then show "of_nat (length xs) = len" unfolding l .
qed

text \<open>Writing the number that is in the buffer.\<close>

lemma number_write:
  assumes "take (unat len) buf = xs" "unat len \<le> 65" "length buf = MAX_FORMAT_STRING_LENGTH"
  shows "printf_write buf len k (st\<lparr>pf_list := list, format_string := buf\<rparr>) = advanced xs k list buf st"
    "of_nat (length xs) = len"
proof -
  have l: "unat len \<le> length buf" "length buf < 2 ^ 63" using assms(2,3) by simp_all
  show "printf_write buf len k (st\<lparr>pf_list := list, format_string := buf\<rparr>) = advanced xs k list buf st"
    unfolding printf_write_advanced [OF l] assms(1) by (simp add: advanced_def)
  show "of_nat (length xs) = len" using assms by (intro of_nat_length) auto
qed

lemma unsigned_advances:
  assumes "2 \<le> unat base" "unat base \<le> 36" "length (format_string st) = MAX_FORMAT_STRING_LENGTH"
    "xs = numeral_chars (unat base) (unat number)"
  shows "\<exists>buf. do {
      (buf, len) \<leftarrow> format_unsigned number base (format_string st);
      printf_write buf len len (st\<lparr>pf_list := list, format_string := buf\<rparr>)
    } = advanced xs (of_nat (length xs)) list buf st \<and> length buf = MAX_FORMAT_STRING_LENGTH"
proof -
  obtain buf len where b: "format_unsigned number base (format_string st) = Some (buf, len)"
    "length buf = MAX_FORMAT_STRING_LENGTH" "take (unat len) buf = xs" "unat len \<le> 65"
    using format_unsigned_text [OF assms(1-3)] assms(4) by blast
  then show ?thesis using number_write [OF b(3,4,2)] by auto
qed

lemma conversion_advances:
  assumes "conversion_text (pos_number_prefix st) c a = Some text" "takes_argument c" "pf_list st = a # list"
    "length (format_string st) = MAX_FORMAT_STRING_LENGTH"
  shows "\<exists>buf. printf_conversion c st = advanced text (counted c text) list buf st \<and>
    length buf = MAX_FORMAT_STRING_LENGTH"
proof (cases a)
  case (Str s)
  then have c: "c = FORMAT_STRING" "0 \<in> set s" "length s < 2 ^ 63" "text = takeWhile (\<lambda>b. b \<noteq> 0) s"
    using assms(1) by (simp_all split: if_splits)
  obtain len where len: "strlen s = Some len" "take (unat len) s = text" "unat len = length text" "unat len \<le> length s"
    using strlen_array [OF c(2,3)] c(4) by blast
  have "printf_write s len len (st\<lparr>pf_list := list\<rparr>) = advanced text (counted c text) list (format_string st) st"
    unfolding printf_write_advanced [OF len(4) c(3)] using len(2) of_nat_length [OF len(3)] c(1)
    by (simp add: counted_def advanced_def)
  then show ?thesis using Str assms(3,4) c(1) len(1) by (auto simp: printf_conversion_def)
next
  case Out_ptr
  then show ?thesis using assms(1) by simp
next
  case (Word w)
  let ?n = "ucast w :: u32"
  note arg = assms(3) [unfolded Word]
  consider "c = FORMAT_CHAR" | "c = FORMAT_INT1 \<or> c = FORMAT_INT2" | "c = FORMAT_UINT" | "c = FORMAT_OCTAL"
    | "c = FORMAT_HEX" | "c = FORMAT_POINTER"
    using assms(1) Word by (auto simp: Let_def split: if_splits)
  then show ?thesis
  proof cases
    case 1
    then show ?thesis
      using assms(1,4) Word arg
      by (auto simp: printf_conversion_def printf_put_advanced counted_def advanced_def intro!: exI [of _ "format_string st"])
  next
    case 2
    let ?xs = "signed_chars 10 (sint ?n)"
    let ?pre = "if pos_number_prefix st \<noteq> 0 \<and> 0 \<le> sint ?n then [pos_number_prefix st] else []"
    obtain buf len where b: "format_signed (scast ?n) 10 (format_string st) = Some (buf, len)"
      "length buf = MAX_FORMAT_STRING_LENGTH" "take (unat len) buf = ?xs" "unat len \<le> 65"
      using format_signed_text [of 10 "format_string st" "scast ?n"] assms(4) by (auto simp: sint_scast_u32)
    let ?st = "st\<lparr>pf_list := list, format_string := buf\<rparr>"
    have l: "unat len \<le> length buf" "length buf < 2 ^ 63" using b(2,4) by simp_all
    have pre: "(if pos_number_prefix ?st \<noteq> 0 \<and> sint ?n \<ge> 0 then printf_put (pos_number_prefix ?st) ?st else Some ?st) =
        advanced ?pre (of_nat (length ?pre)) list buf st"
      by (auto simp: printf_put_advanced advanced_def)
    have "printf_write buf len len st' = advanced ?xs len (pf_list st') (format_string st') st'" for st'
      by (simp only: printf_write_advanced [OF l] b(3))
    then have "Option.bind (advanced ?pre (of_nat (length ?pre)) list buf st) (printf_write buf len len) =
        Option.bind (advanced ?pre (of_nat (length ?pre)) list buf st) (advanced ?xs len list buf)"
      by (cases st) (auto simp: advanced_def split: bind_splits)
    also have "\<dots> = advanced (?pre @ ?xs) (of_nat (length ?pre) + len) list buf st" by (rule advanced_twice)
    also have "of_nat (length ?pre) + len = of_nat (length (?pre @ ?xs))"
      using number_write(2) [OF b(3,4,2)] by (simp only: length_append of_nat_add)
    finally have "printf_conversion c st = advanced (?pre @ ?xs) (of_nat (length (?pre @ ?xs))) list buf st"
      using 2 arg pre by (auto simp: printf_conversion_def b(1) Let_def)
    moreover have "text = ?pre @ ?xs" "c \<noteq> FORMAT_POINTER" using 2 assms(1) Word by (auto simp: Let_def)
    ultimately show ?thesis using b(2) by (auto simp: counted_def)
  next
    case 3
    let ?xs = "numeral_chars 10 (unat ?n)" and ?p = "pos_number_prefix st"
    obtain buf len where b: "format_unsigned (ucast ?n) 10 (format_string st) = Some (buf, len)"
      "length buf = MAX_FORMAT_STRING_LENGTH" "take (unat len) buf = ?xs" "unat len \<le> 65"
      using format_unsigned_text [of 10 "format_string st" "ucast ?n"] assms(4) by auto
    have l: "unat len \<le> length buf" "length buf < 2 ^ 63" using b(2,4) by simp_all
    have "printf_conversion c st = advanced (?p # ?xs) (len + 1) list buf st"
      using 3 arg b(1)
      by (cases st) (auto simp: printf_conversion_def printf_write_advanced [OF l] advanced_def b(3) split: bind_splits)
    moreover have "text = ?p # ?xs" "c \<noteq> FORMAT_POINTER" using 3 assms(1) Word by simp_all
    ultimately show ?thesis using b(2) number_write(2) [OF b(3,4,2)] by (auto simp: counted_def add.commute)
  next
    case 4
    then show ?thesis
      using unsigned_advances [of 8 st "text" "ucast ?n" list] assms(1,4) Word arg
      by (simp add: printf_conversion_def counted_def Let_def)
  next
    case 5
    then show ?thesis
      using unsigned_advances [of 16 st "text" "ucast ?n" list] assms(1,4) Word arg
      by (simp add: printf_conversion_def counted_def Let_def)
  next
    case 6
    let ?xs = "numeral_chars 16 (unat w)"
    obtain buf len where b: "format_unsigned w 16 (format_string st) = Some (buf, len)"
      "length buf = MAX_FORMAT_STRING_LENGTH" "take (unat len) buf = ?xs" "unat len \<le> 65"
      using format_unsigned_text [of 16 "format_string st" w] assms(4) by auto
    have l: "unat len \<le> length buf" "length buf < 2 ^ 63" using b(2,4) by simp_all
    have hex: "printf_write [48, 120, 0] 2 0 st' = advanced [48, 120] 0 (pf_list st') (format_string st') st'" for st'
      using printf_write_advanced [of 2 "[48, 120, 0]" 0 st'] by simp
    have "printf_conversion c st = advanced ([48, 120] @ ?xs) len list buf st"
      using 6 arg b(1)
      by (cases st) (auto simp: printf_conversion_def hex printf_write_advanced [OF l] advanced_def b(3) split: bind_splits)
    moreover have "text = [48, 120] @ ?xs" using 6 assms(1) Word by simp
    ultimately show ?thesis using b(2) 6 number_write(2) [OF b(3,4,2)] by (auto simp: counted_def)
  qed
qed

text \<open>The result of the loop, and of the reference on the rest of the format string.\<close>

definition result :: "bool \<times> printf_state \<Rightarrow> u64 \<times> u32 list \<times> terminal" where
  "result = (\<lambda>(returned, st). (if returned then pf_written st else - 1, pf_outs st, pf_terminal st))"

definition rest :: "u8 list \<Rightarrow> printf_state \<Rightarrow> (u8 list \<times> u64 \<times> u32 list) option" where
  "rest cs st = printed (if pf_in_format st then parse_conversion (pos_number_prefix st) cs else parse cs)
     (pf_list st) (pf_written st)"

lemma loop_advanced:
  assumes "advanced text k list buf st = m" "length buf = MAX_FORMAT_STRING_LENGTH"
    and "\<And>st'. length (format_string st') = MAX_FORMAT_STRING_LENGTH \<Longrightarrow> \<not> pf_in_format st' \<Longrightarrow>
        pf_list st' = list \<Longrightarrow> pf_written st' = pf_written st + k \<Longrightarrow> pf_outs st' = pf_outs st \<Longrightarrow>
        map_option result (printf_chars cs st') =
        map_option (\<lambda>t. (r, pf_outs st' @ outs, t)) (puts terminal_put_char text' (pf_terminal st'))"
  shows "map_option result (Option.bind m (\<lambda>st. printf_chars cs (st\<lparr>pf_in_format := False\<rparr>))) =
    map_option (\<lambda>t. (r, pf_outs st @ outs, t)) (puts terminal_put_char (text @ text') (pf_terminal st))"
  using assms(2,3) unfolding assms(1) [symmetric] advanced_def
  by (cases "puts terminal_put_char text (pf_terminal st)") (simp_all add: puts_append)

lemma printf_chars_printed:
  assumes "rest cs st = Some (text, r, outs)" "length (format_string st) = MAX_FORMAT_STRING_LENGTH"
  shows "map_option result (printf_chars cs st) =
    map_option (\<lambda>t. (r, pf_outs st @ outs, t)) (puts terminal_put_char text (pf_terminal st))"
  using assms
proof (induction cs arbitrary: st "text" r outs)
  case Nil
  then show ?case by (simp add: rest_def result_def split: if_splits)
next
  case (Cons c cs)
  show ?case
  proof (cases "pf_in_format st")
    case False
    show ?thesis
    proof (cases "c = FORMAT_SPECIFIER")
      case True
      then show ?thesis
        using Cons.IH [of "st\<lparr>pf_in_format := True, pos_number_prefix := NO_PREFIX\<rparr>"] Cons.prems False
        by (simp add: printf_round_def rest_def)
    next
      case c: False
      then obtain text' where t: "text = [c] @ text'"
        "printed (parse cs) (pf_list st) (pf_written st + 1) = Some (text', r, outs)"
        using Cons.prems(1) False by (auto simp: rest_def)
      have "map_option result (Option.bind (advanced [c] 1 (pf_list st) (format_string st) st)
          (\<lambda>st. printf_chars cs (st\<lparr>pf_in_format := False\<rparr>))) =
        map_option (\<lambda>t. (r, pf_outs st @ outs, t)) (puts terminal_put_char ([c] @ text') (pf_terminal st))"
        by (rule loop_advanced [OF refl]) (use Cons.IH Cons.prems(2) t in \<open>simp_all add: rest_def\<close>)
      moreover have "printf_chars (c # cs) st =
          Option.bind (advanced [c] 1 (pf_list st) (format_string st) st) (\<lambda>st. printf_chars cs (st\<lparr>pf_in_format := False\<rparr>))"
        using c False by (cases st) (auto simp: printf_round_def printf_put_advanced advanced_def split: bind_splits)
      ultimately show ?thesis unfolding t(1) by simp
    qed
  next
    case True
    note ref = Cons.prems(1) [unfolded rest_def if_P [OF True] parse_conversion.simps]
    consider (flag) "c = FORMAT_PREFIX_PLUS \<or> c = FORMAT_PREFIX_SPACE"
      | (percent) "c = FORMAT_SPECIFIER" | (store) "c = FORMAT_NO_OUTPUT" | (arg) "takes_argument c"
      | (bad) "\<not> takes_argument c" "c \<noteq> FORMAT_PREFIX_PLUS" "c \<noteq> FORMAT_PREFIX_SPACE"
          "c \<noteq> FORMAT_SPECIFIER" "c \<noteq> FORMAT_NO_OUTPUT"
      by blast
    then show ?thesis
    proof cases
      case flag
      then show ?thesis
        using Cons.IH [of "st\<lparr>pos_number_prefix := c\<rparr>"] Cons.prems(2) ref True
        by (auto simp: printf_round_def rest_def takes_argument_def)
    next
      case percent
      then obtain text' where t: "text = [c] @ text'"
        "printed (parse cs) (pf_list st) (pf_written st + 1) = Some (text', r, outs)"
        using ref by (auto split: if_splits)
      have "map_option result (Option.bind (advanced [c] 1 (pf_list st) (format_string st) st)
          (\<lambda>st. printf_chars cs (st\<lparr>pf_in_format := False\<rparr>))) =
        map_option (\<lambda>t. (r, pf_outs st @ outs, t)) (puts terminal_put_char ([c] @ text') (pf_terminal st))"
        by (rule loop_advanced [OF refl]) (use Cons.IH Cons.prems(2) t in \<open>simp_all add: rest_def\<close>)
      moreover have "printf_chars (c # cs) st =
          Option.bind (advanced [c] 1 (pf_list st) (format_string st) st) (\<lambda>st. printf_chars cs (st\<lparr>pf_in_format := False\<rparr>))"
        using percent True
        by (simp add: printf_round_def printf_conversion_def printf_put_advanced takes_argument_def)
      ultimately show ?thesis unfolding t(1) by simp
    next
      case store
      then obtain list outs' where t: "pf_list st = Out_ptr # list" "outs = ucast (pf_written st) # outs'"
        "printed (parse cs) list (pf_written st) = Some (text, r, outs')"
        using ref by (auto split: if_splits list.splits format_arg.splits)
      then show ?thesis
        using Cons.IH [of "st\<lparr>pf_list := list, pf_outs := pf_outs st @ [ucast (pf_written st)], pf_in_format := False\<rparr>"]
          Cons.prems(2) store True
        by (simp add: printf_round_def printf_conversion_def takes_argument_def rest_def)
    next
      case arg
      then have c: "c \<noteq> FORMAT_SPECIFIER" "c \<noteq> FORMAT_NO_OUTPUT" "c \<noteq> FORMAT_PREFIX_PLUS" "c \<noteq> FORMAT_PREFIX_SPACE"
        by (auto simp: takes_argument_def)
      then obtain a list t text' where t: "pf_list st = a # list" "conversion_text (pos_number_prefix st) c a = Some t"
        "text = t @ text'" "printed (parse cs) list (pf_written st + counted c t) = Some (text', r, outs)"
        using ref arg by (auto split: list.splits option.splits)
      obtain buf where b: "printf_conversion c st = advanced t (counted c t) list buf st"
        "length buf = MAX_FORMAT_STRING_LENGTH"
        using conversion_advances [OF t(2) arg t(1) Cons.prems(2)] by blast
      have "map_option result (Option.bind (advanced t (counted c t) list buf st)
          (\<lambda>st. printf_chars cs (st\<lparr>pf_in_format := False\<rparr>))) =
        map_option (\<lambda>w. (r, pf_outs st @ outs, w)) (puts terminal_put_char (t @ text') (pf_terminal st))"
        by (rule loop_advanced [OF refl b(2)]) (use Cons.IH t in \<open>simp_all add: rest_def\<close>)
      moreover have "printf_chars (c # cs) st =
          Option.bind (advanced t (counted c t) list buf st) (\<lambda>st. printf_chars cs (st\<lparr>pf_in_format := False\<rparr>))"
        using arg True by (simp add: printf_round_def b(1))
      ultimately show ?thesis unfolding t(3) by simp
    next
      case bad
      then show ?thesis using ref True by (auto simp: printf_round_def result_def)
    qed
  qed
qed

lemma printf_printed:
  assumes "printed (parse fmt) list 0 = Some (xs, r, outs)" "terminal_ok t"
    "0 \<notin> set fmt" "length (fmt @ 0 # behind) < 2 ^ 63" "length buf = MAX_FORMAT_STRING_LENGTH"
  shows "\<exists>t'. printf (fmt @ 0 # behind) list buf t = Some (r, outs, t') \<and>
    puts terminal_put_char xs t = Some t' \<and> terminal_ok t'"
proof -
  let ?st = "\<lparr>pf_written = 0, pf_in_format = False, pos_number_prefix = NO_PREFIX, format_string = buf,
    pf_list = list, pf_outs = [], pf_terminal = t\<rparr>"
  have len: "strlen (fmt @ 0 # behind) = Some (of_nat (length fmt))"
    by (rule strlen_string, rule is_stringI) (use assms(3,4) in simp_all)
  have n: "unat (of_nat (length fmt) :: u64) = length fmt"
    by (rule unat_of_nat_u64) (use assms(4) in simp)
  have loop: "printf_loop (fmt @ 0 # behind) (length fmt) 0 ?st = printf_chars fmt ?st"
    using printf_loop_chars [of 0 "length fmt" "fmt @ 0 # behind" ?st] assms(4) by simp
  have run: "map_option result (printf_chars fmt ?st) =
      map_option (\<lambda>t. (r, outs, t)) (puts terminal_put_char xs t)"
    using printf_chars_printed [of fmt ?st] assms(1,5) by (simp add: rest_def)
  obtain t' where t': "puts terminal_put_char xs t = Some t'" "terminal_ok t'"
    using terminal_sink.puts_ok [OF assms(2)] by blast
  then obtain x where x: "printf_chars fmt ?st = Some x" "result x = (r, outs, t')"
    using run by auto
  obtain returned st where "x = (returned, st)" by (cases x)
  with x have "printf (fmt @ 0 # behind) list buf t = Some (r, outs, t')"
    by (simp add: printf_def len n loop result_def)
  with t' show ?thesis by blast
qed

section \<open>Properties\<close>



text \<open>
  \<open>%u\<close> without a flag prints a \<open>NUL\<close> before the number, and counts it; \<open>%p\<close> prints \<open>0x\<close> before the
  number, and does not count it.
\<close>

theorem printf_counts:
  assumes "terminal_ok t" "length buf = MAX_FORMAT_STRING_LENGTH"
  shows "\<exists>t1 t2. printf [37, 117, 0] [Word w] buf t =
      Some (1 + of_nat (length (numeral_chars 10 (unat (ucast w :: u32)))), [], t1) \<and>
    puts terminal_put_char (0 # numeral_chars 10 (unat (ucast w :: u32))) t = Some t1 \<and>
    printf [37, 112, 0] [Word w] buf t = Some (of_nat (length (numeral_chars 16 (unat w))), [], t2) \<and>
    puts terminal_put_char (48 # 120 # numeral_chars 16 (unat w)) t = Some t2"
proof -
  have "printed (parse [37, 117]) [Word w] 0 =
      Some (0 # numeral_chars 10 (unat (ucast w :: u32)), 1 + of_nat (length (numeral_chars 10 (unat (ucast w :: u32)))), [])"
    "printed (parse [37, 112]) [Word w] 0 =
      Some (48 # 120 # numeral_chars 16 (unat w), of_nat (length (numeral_chars 16 (unat w))), [])"
    by (simp_all add: takes_argument_def counted_def)
  from printf_printed [OF this(1) assms(1), of "[]" buf] printf_printed [OF this(2) assms(1), of "[]" buf] assms(2)
  show ?thesis by auto
qed

lemma printf_counts_witness:
  "\<exists>t1. printf [37, 117, 0] [Word 7] (replicate 256 0) (demo_screen 40 44) = Some (2, [], t1)"
proof -
  have "numeral_chars 10 7 = [55]" by (simp add: numeral_chars_def digits.simps digit_chars_def digit_char_def)
  then show ?thesis using printf_counts [OF demo_screen_ok(1), of "replicate 256 0" 7] by auto
qed

end
