(* ===== verification/Logging.thy ===== *)
theory Logging
  imports ByteSink
begin

text \<open>
  The logging module (kernel/src/logging.c, logging.h). A backend is a function that writes one byte
  to a world of any type, such as the terminal or the history of a serial port; \<open>None\<close> is a write that
  never returns. Shows which bytes a message is made of and when it is suppressed.
\<close>

section \<open>Operations\<close>

datatype logging_level_t = LOGGING_LEVEL_DEBUG | LOGGING_LEVEL_INFO | LOGGING_LEVEL_WARNING | LOGGING_LEVEL_ERROR

fun level_number :: "logging_level_t \<Rightarrow> nat" where
  "level_number LOGGING_LEVEL_DEBUG = 0"
| "level_number LOGGING_LEVEL_INFO = 1"
| "level_number LOGGING_LEVEL_WARNING = 2"
| "level_number LOGGING_LEVEL_ERROR = 3"

text \<open>The function with its context; \<open>None\<close> is the null pointer.\<close>

record 'w logging_backend =
  backend_write :: "(u8 \<Rightarrow> 'w \<Rightarrow> 'w option) option"
  backend_level :: logging_level_t

definition logging_boot :: "'w logging_backend" where
  "logging_boot = \<lparr>backend_write = None, backend_level = LOGGING_LEVEL_DEBUG\<rparr>"

definition logging_set_backend :: "(u8 \<Rightarrow> 'w \<Rightarrow> 'w option) option \<Rightarrow> 'w logging_backend \<Rightarrow> 'w logging_backend" where
  "logging_set_backend log_func backend = backend\<lparr>backend_write := log_func\<rparr>"

definition logging_set_level :: "logging_level_t \<Rightarrow> 'w logging_backend \<Rightarrow> 'w logging_backend" where
  "logging_set_level l backend = backend\<lparr>backend_level := l\<rparr>"

definition log_put :: "'w logging_backend \<Rightarrow> u8 \<Rightarrow> 'w \<Rightarrow> 'w option" where
  "log_put backend c w = (case backend_write backend of None \<Rightarrow> None | Some write \<Rightarrow> write c w)"

fun log_str_from :: "'w logging_backend \<Rightarrow> u8 list \<Rightarrow> nat \<Rightarrow> u64 \<Rightarrow> 'w \<Rightarrow> 'w option" where
  "log_str_from backend str 0 i w = Some w"
| "log_str_from backend str (Suc n) i w =
     do {
       c \<leftarrow> arr_get str i;
       w \<leftarrow> log_put backend c w;
       log_str_from backend str n (i + 1) w
     }"

definition log_str :: "'w logging_backend \<Rightarrow> u8 list \<Rightarrow> u64 \<Rightarrow> 'w \<Rightarrow> 'w option" where
  "log_str backend str len w = log_str_from backend str (unat len) 0 w"

text \<open>The variables of \<open>log_formated_str\<close>.\<close>

record log_state =
  log_in_format :: bool
  log_prefix :: u8
  log_string :: "u8 list"
  log_list :: "format_arg list"

definition log_conversion ::
    "'w logging_backend \<Rightarrow> u8 \<Rightarrow> log_state \<Rightarrow> 'w \<Rightarrow> (log_state \<times> 'w) option" where
  "log_conversion backend c st w =
     (if c = FORMAT_CHAR then
        do {
          (a, list) \<leftarrow> va_arg_word (log_list st);
          w \<leftarrow> log_put backend (ucast a) w;
          Some (st\<lparr>log_list := list\<rparr>, w)
        }
      else if c = FORMAT_STRING then
        do {
          (s, list) \<leftarrow> va_arg_str (log_list st);
          s_len \<leftarrow> strlen s;
          w \<leftarrow> log_str backend s s_len w;
          Some (st\<lparr>log_list := list\<rparr>, w)
        }
      else if c = FORMAT_SPECIFIER then map_option (Pair st) (log_put backend FORMAT_SPECIFIER w)
      else if c = FORMAT_INT1 \<or> c = FORMAT_INT2 then
        do {
          (a, list) \<leftarrow> va_arg_word (log_list st);
          let format_number = (ucast a :: u32);
          (buf, len) \<leftarrow> format_signed (scast format_number) 10 (log_string st);
          w \<leftarrow> (if log_prefix st \<noteq> 0 \<and> sint format_number \<ge> 0 then log_put backend (log_prefix st) w else Some w);
          w \<leftarrow> log_str backend buf len w;
          Some (st\<lparr>log_list := list, log_string := buf\<rparr>, w)
        }
      else if c = FORMAT_UINT then
        do {
          (a, list) \<leftarrow> va_arg_word (log_list st);
          (buf, len) \<leftarrow> format_unsigned (ucast (ucast a :: u32)) 10 (log_string st);
          w \<leftarrow> log_put backend (log_prefix st) w;
          w \<leftarrow> log_str backend buf len w;
          Some (st\<lparr>log_list := list, log_string := buf\<rparr>, w)
        }
      else if c = FORMAT_OCTAL then
        do {
          (a, list) \<leftarrow> va_arg_word (log_list st);
          (buf, len) \<leftarrow> format_unsigned (ucast (ucast a :: u32)) 8 (log_string st);
          w \<leftarrow> log_str backend buf len w;
          Some (st\<lparr>log_list := list, log_string := buf\<rparr>, w)
        }
      else if c = FORMAT_HEX then
        do {
          (a, list) \<leftarrow> va_arg_word (log_list st);
          (buf, len) \<leftarrow> format_unsigned (ucast (ucast a :: u32)) 16 (log_string st);
          w \<leftarrow> log_str backend buf len w;
          Some (st\<lparr>log_list := list, log_string := buf\<rparr>, w)
        }
      else
        do {
          (a, list) \<leftarrow> va_arg_word (log_list st);
          (buf, len) \<leftarrow> format_unsigned a 16 (log_string st);
          w \<leftarrow> log_put backend 48 w;
          w \<leftarrow> log_put backend 120 w;
          w \<leftarrow> log_str backend buf len w;
          Some (st\<lparr>log_list := list, log_string := buf\<rparr>, w)
        })"

text \<open>
  The loop of \<open>log_formated_str\<close>, with \<open>n\<close> rounds left. An unknown conversion is reported by a message
  of its own, \<open>unknown\<close>, and ends the loop.
\<close>

fun log_format_loop ::
    "(u8 \<Rightarrow> 'w \<Rightarrow> 'w option) \<Rightarrow> 'w logging_backend \<Rightarrow> u8 list \<Rightarrow> nat \<Rightarrow> u64 \<Rightarrow> log_state \<Rightarrow> 'w \<Rightarrow> 'w option" where
  "log_format_loop unknown backend str 0 i st w = Some w"
| "log_format_loop unknown backend str (Suc n) i st w =
     do {
       c \<leftarrow> arr_get str i;
       if \<not> log_in_format st then
         if c = FORMAT_SPECIFIER
         then log_format_loop unknown backend str n (i + 1) (st\<lparr>log_in_format := True, log_prefix := NO_PREFIX\<rparr>) w
         else do {
           w \<leftarrow> log_put backend c w;
           log_format_loop unknown backend str n (i + 1) st w
         }
       else if takes_argument c \<or> c = FORMAT_SPECIFIER then
         do {
           (st, w) \<leftarrow> log_conversion backend c st w;
           log_format_loop unknown backend str n (i + 1) (st\<lparr>log_in_format := False\<rparr>) w
         }
       else if c = FORMAT_PREFIX_PLUS
       then log_format_loop unknown backend str n (i + 1) (st\<lparr>log_prefix := 43\<rparr>) w
       else if c = FORMAT_PREFIX_SPACE
       then log_format_loop unknown backend str n (i + 1) (st\<lparr>log_prefix := 32\<rparr>) w
       else unknown c w
     }"

definition log_formated_str ::
    "(u8 \<Rightarrow> 'w \<Rightarrow> 'w option) \<Rightarrow> 'w logging_backend \<Rightarrow> u8 list \<Rightarrow> format_arg list \<Rightarrow> u8 list \<Rightarrow> 'w \<Rightarrow> 'w option" where
  "log_formated_str unknown backend str list buf w =
     do {
       len \<leftarrow> strlen str;
       log_format_loop unknown backend str (unat len) 0
         \<lparr>log_in_format = False, log_prefix = NO_PREFIX, log_string = buf, log_list = list\<rparr> w
     }"

text \<open>String literals, with the \<open>NUL\<close> behind them.\<close>

definition bytes :: "string \<Rightarrow> u8 list" where
  "bytes s = map of_char s"

definition literal :: "string \<Rightarrow> u8 list" where
  "literal s = bytes s @ [0]"

definition log_level_str :: "'w logging_backend \<Rightarrow> logging_level_t \<Rightarrow> 'w \<Rightarrow> 'w option" where
  "log_level_str backend level w =
     (case level of
        LOGGING_LEVEL_DEBUG \<Rightarrow> log_str backend (literal ''[DEBUG] '') 8 w
      | LOGGING_LEVEL_INFO \<Rightarrow> log_str backend (literal ''[INFO] '') 8 w
      | LOGGING_LEVEL_WARNING \<Rightarrow> log_str backend (literal ''[WARNING] '') 10 w
      | LOGGING_LEVEL_ERROR \<Rightarrow> log_str backend (literal ''[ERROR] '') 8 w)"

definition log_msg_with ::
    "(u8 \<Rightarrow> 'w \<Rightarrow> 'w option) \<Rightarrow> 'w logging_backend \<Rightarrow> logging_level_t \<Rightarrow> u8 list \<Rightarrow> u8 list \<Rightarrow> format_arg list \<Rightarrow>
     u8 list \<Rightarrow> 'w \<Rightarrow> 'w option" where
  "log_msg_with unknown backend level file msg list buf w =
     (if level_number level < level_number (backend_level backend) then Some w
      else do {
        w \<leftarrow> log_level_str backend level w;
        w \<leftarrow> (if level \<noteq> LOGGING_LEVEL_INFO then
                do {
                  len \<leftarrow> strlen file;
                  w \<leftarrow> log_str backend file len w;
                  w \<leftarrow> log_put backend 58 w;
                  log_put backend 32 w
                }
              else Some w);
        w \<leftarrow> log_formated_str unknown backend msg list buf w;
        log_put backend 10 w
      })"

text \<open>
  \<open>LOG_ERROR("Unknown format specifier: %c", str[i])\<close> in logging.c itself, \<open>this_file\<close> being its
  \<open>__FILE__\<close>. Its own format string has no unknown conversion, so the nested call does not recur.
\<close>

definition log_unknown_specifier :: "u8 list \<Rightarrow> u8 list \<Rightarrow> 'w logging_backend \<Rightarrow> u8 \<Rightarrow> 'w \<Rightarrow> 'w option" where
  "log_unknown_specifier this_file buf backend c w =
     log_msg_with (\<lambda>_ _. None) backend LOGGING_LEVEL_ERROR this_file
       (literal ''Unknown format specifier: %c'') [Word (scast c)] buf w"

definition logging_log_msg ::
    "u8 list \<Rightarrow> u8 list \<Rightarrow> 'w logging_backend \<Rightarrow> logging_level_t \<Rightarrow> u8 list \<Rightarrow> u8 list \<Rightarrow> format_arg list \<Rightarrow>
     'w \<Rightarrow> 'w option" where
  "logging_log_msg this_file buf backend level file msg list w =
     log_msg_with (log_unknown_specifier this_file buf backend) backend level file msg list buf w"

section \<open>The text of a message\<close>

text \<open>What a format string is logged as, and the unknown conversion at which it stops, if any.\<close>

fun logged :: "directive list \<Rightarrow> format_arg list \<Rightarrow> (u8 list \<times> u8 option) option" where
  "logged [] list = Some ([], None)"
| "logged (Literal c # ds) list = map_option (\<lambda>(xs, e). (c # xs, e)) (logged ds list)"
| "logged (Conversion prefix c # ds) list =
     (if c = FORMAT_SPECIFIER then map_option (\<lambda>(xs, e). (c # xs, e)) (logged ds list)
      else if \<not> takes_argument c then Some ([], Some c)
      else (case list of
          [] \<Rightarrow> None
        | a # list \<Rightarrow>
            (case conversion_text prefix c a of
               None \<Rightarrow> None
             | Some t \<Rightarrow> map_option (\<lambda>(xs, e). (t @ xs, e)) (logged ds list))))"

definition level_text :: "logging_level_t \<Rightarrow> u8 list" where
  "level_text level =
     (case level of
        LOGGING_LEVEL_DEBUG \<Rightarrow> bytes ''[DEBUG] '' | LOGGING_LEVEL_INFO \<Rightarrow> bytes ''[INFO] '' @ [0]
      | LOGGING_LEVEL_WARNING \<Rightarrow> bytes ''[WARNING] '' | LOGGING_LEVEL_ERROR \<Rightarrow> bytes ''[ERROR] '')"

definition line_text :: "logging_level_t \<Rightarrow> u8 list \<Rightarrow> u8 list \<Rightarrow> u8 list" where
  "line_text level file xs =
     level_text level @ (if level \<noteq> LOGGING_LEVEL_INFO then file @ [58, 32] else []) @ xs @ [10]"

text \<open>The text with the report of an unknown conversion after it, a line inside the line.\<close>

definition reported_text :: "u8 list \<Rightarrow> u8 list \<Rightarrow> u8 option \<Rightarrow> u8 list" where
  "reported_text this_file xs e =
     xs @ (case e of None \<Rightarrow> []
       | Some c \<Rightarrow> line_text LOGGING_LEVEL_ERROR this_file (bytes ''Unknown format specifier: '' @ [c]))"

section \<open>The loop follows the reference\<close>

lemma log_str_puts_from:
  assumes "unat i + n \<le> length str" "length str < 2 ^ 63"
  shows "log_str_from backend str n i w = puts (log_put backend) (take n (drop (unat i) str)) w"
  by (rule loop_puts [of "log_str_from backend str"]) (use assms in simp_all)

lemma log_str_puts:
  "unat len \<le> length str \<Longrightarrow> length str < 2 ^ 63 \<Longrightarrow>
     log_str backend str len w = puts (log_put backend) (take (unat len) str) w"
  using log_str_puts_from [of 0 "unat len" str backend w] by (simp add: log_str_def)

lemma log_unsigned:
  assumes "2 \<le> unat base" "unat base \<le> 36" "length buf = MAX_FORMAT_STRING_LENGTH"
  shows "\<exists>buf' len. format_unsigned number base buf = Some (buf', len) \<and> length buf' = MAX_FORMAT_STRING_LENGTH \<and>
    (\<forall>w. log_str backend buf' len w = puts (log_put backend) (numeral_chars (unat base) (unat number)) w)"
proof -
  obtain buf' len where b: "format_unsigned number base buf = Some (buf', len)"
    "length buf' = MAX_FORMAT_STRING_LENGTH" "take (unat len) buf' = numeral_chars (unat base) (unat number)"
    "unat len \<le> 65"
    using format_unsigned_text [OF assms] by blast
  then have l: "unat len \<le> length buf'" "length buf' < 2 ^ 63" by simp_all
  show ?thesis using b log_str_puts [OF l, of backend] by auto
qed

lemma log_signed:
  assumes "length buf = MAX_FORMAT_STRING_LENGTH"
  shows "\<exists>buf' len. format_signed (scast (n :: u32)) 10 buf = Some (buf', len) \<and> length buf' = MAX_FORMAT_STRING_LENGTH \<and>
    (\<forall>w. log_str backend buf' len w = puts (log_put backend) (signed_chars 10 (sint n)) w)"
proof -
  obtain buf' len where b: "format_signed (scast n) 10 buf = Some (buf', len)"
    "length buf' = MAX_FORMAT_STRING_LENGTH" "take (unat len) buf' = signed_chars 10 (sint n)" "unat len \<le> 65"
    using format_signed_text [of 10 buf "scast n"] assms by (auto simp: sint_scast_u32)
  then have l: "unat len \<le> length buf'" "length buf' < 2 ^ 63" by simp_all
  show ?thesis using b log_str_puts [OF l, of backend] by auto
qed

lemma log_conversion_text:
  assumes "conversion_text (log_prefix st) c a = Some xs" "takes_argument c" "log_list st = a # list"
    "length (log_string st) = MAX_FORMAT_STRING_LENGTH"
  shows "\<exists>buf. length buf = MAX_FORMAT_STRING_LENGTH \<and> log_conversion backend c st w =
    map_option (Pair (st\<lparr>log_list := list, log_string := buf\<rparr>)) (puts (log_put backend) xs w)"
proof (cases a)
  case Out_ptr
  then show ?thesis using assms(1) by simp
next
  case (Str s)
  then have c: "c = FORMAT_STRING" "0 \<in> set s" "length s < 2 ^ 63" "xs = takeWhile (\<lambda>b. b \<noteq> 0) s"
    using assms(1) by (simp_all split: if_splits)
  obtain len where len: "strlen s = Some len" "take (unat len) s = xs" "unat len \<le> length s"
    using strlen_array [OF c(2,3)] c(4) by blast
  have "log_str backend s len w = puts (log_put backend) xs w" using log_str_puts [OF len(3) c(3)] len(2) by simp
  then show ?thesis using Str assms(3,4) c(1) len(1)
    by (intro exI [of _ "log_string st"]) (auto simp: log_conversion_def split: bind_splits)
next
  case (Word v)
  let ?n = "ucast v :: u32"
  note arg = assms(3) [unfolded Word]
  consider "c = FORMAT_CHAR" | "c = FORMAT_INT1 \<or> c = FORMAT_INT2" | "c = FORMAT_UINT" | "c = FORMAT_OCTAL"
    | "c = FORMAT_HEX" | "c = FORMAT_POINTER"
    using assms(1) Word by (auto simp: Let_def split: if_splits)
  then show ?thesis
  proof cases
    case 1
    then show ?thesis using assms(1,4) Word arg
      by (intro exI [of _ "log_string st"]) (auto simp: log_conversion_def split: bind_splits)
  next
    case 2
    obtain buf len where b: "format_signed (scast ?n) 10 (log_string st) = Some (buf, len)"
      "length buf = MAX_FORMAT_STRING_LENGTH"
      "\<And>w. log_str backend buf len w = puts (log_put backend) (signed_chars 10 (sint ?n)) w"
      using log_signed [OF assms(4)] by blast
    show ?thesis using 2 assms(1) Word arg b
      by (intro exI [of _ buf]) (auto simp: log_conversion_def Let_def puts_append split: bind_splits)
  next
    case 3
    obtain buf len where b: "format_unsigned (ucast ?n) 10 (log_string st) = Some (buf, len)"
      "length buf = MAX_FORMAT_STRING_LENGTH"
      "\<And>w. log_str backend buf len w = puts (log_put backend) (numeral_chars 10 (unat ?n)) w"
      using log_unsigned [of 10 "log_string st" "ucast ?n" backend] assms(4) by auto
    show ?thesis using 3 assms(1) Word arg b
      by (intro exI [of _ buf]) (auto simp: log_conversion_def split: bind_splits)
  next
    case 4
    obtain buf len where b: "format_unsigned (ucast ?n) 8 (log_string st) = Some (buf, len)"
      "length buf = MAX_FORMAT_STRING_LENGTH"
      "\<And>w. log_str backend buf len w = puts (log_put backend) (numeral_chars 8 (unat ?n)) w"
      using log_unsigned [of 8 "log_string st" "ucast ?n" backend] assms(4) by auto
    show ?thesis using 4 assms(1) Word arg b
      by (intro exI [of _ buf]) (auto simp: log_conversion_def split: bind_splits)
  next
    case 5
    obtain buf len where b: "format_unsigned (ucast ?n) 16 (log_string st) = Some (buf, len)"
      "length buf = MAX_FORMAT_STRING_LENGTH"
      "\<And>w. log_str backend buf len w = puts (log_put backend) (numeral_chars 16 (unat ?n)) w"
      using log_unsigned [of 16 "log_string st" "ucast ?n" backend] assms(4) by auto
    show ?thesis using 5 assms(1) Word arg b
      by (intro exI [of _ buf]) (auto simp: log_conversion_def split: bind_splits)
  next
    case 6
    obtain buf len where b: "format_unsigned v 16 (log_string st) = Some (buf, len)"
      "length buf = MAX_FORMAT_STRING_LENGTH"
      "\<And>w. log_str backend buf len w = puts (log_put backend) (numeral_chars 16 (unat v)) w"
      using log_unsigned [of 16 "log_string st" v backend] assms(4) by auto
    show ?thesis using 6 assms(1) Word arg b
      by (intro exI [of _ buf]) (auto simp: log_conversion_def split: bind_splits)
  qed
qed

fun log_format_chars ::
    "(u8 \<Rightarrow> 'w \<Rightarrow> 'w option) \<Rightarrow> 'w logging_backend \<Rightarrow> u8 list \<Rightarrow> log_state \<Rightarrow> 'w \<Rightarrow> 'w option" where
  "log_format_chars unknown backend [] st w = Some w"
| "log_format_chars unknown backend (c # cs) st w =
     (if \<not> log_in_format st then
        if c = FORMAT_SPECIFIER
        then log_format_chars unknown backend cs (st\<lparr>log_in_format := True, log_prefix := NO_PREFIX\<rparr>) w
        else Option.bind (log_put backend c w) (log_format_chars unknown backend cs st)
      else if takes_argument c \<or> c = FORMAT_SPECIFIER then
        do {
          (st, w) \<leftarrow> log_conversion backend c st w;
          log_format_chars unknown backend cs (st\<lparr>log_in_format := False\<rparr>) w
        }
      else if c = FORMAT_PREFIX_PLUS then log_format_chars unknown backend cs (st\<lparr>log_prefix := 43\<rparr>) w
      else if c = FORMAT_PREFIX_SPACE then log_format_chars unknown backend cs (st\<lparr>log_prefix := 32\<rparr>) w
      else unknown c w)"

lemma log_loop_chars:
  assumes "unat i + n \<le> length str" "length str < 2 ^ 63"
  shows "log_format_loop unknown backend str n i st w =
    log_format_chars unknown backend (take n (drop (unat i) str)) st w"
  using assms
proof (induction n arbitrary: i st w)
  case (Suc n)
  have i: "unat (i + 1) = Suc (unat i)" using Suc.prems unat_add_u64 [of i 1] by simp
  have cs: "take (Suc n) (drop (unat i) str) = str ! unat i # take n (drop (Suc (unat i)) str)"
    using Suc.prems by (simp add: Cons_nth_drop_Suc [symmetric])
  have "log_format_loop unknown backend str n (i + 1) =
      log_format_chars unknown backend (take n (drop (Suc (unat i)) str))"
    by (intro ext) (use Suc.IH [of "i + 1"] Suc.prems i in simp)
  then show ?case using Suc.prems unfolding cs by (simp add: array_simps)
qed simp

text \<open>Running the unknown conversion after the text.\<close>

definition finish :: "(u8 \<Rightarrow> 'w \<Rightarrow> 'w option) \<Rightarrow> u8 option \<Rightarrow> 'w \<Rightarrow> 'w option" where
  "finish unknown e w = (case e of None \<Rightarrow> Some w | Some c \<Rightarrow> unknown c w)"

lemma finish_None [simp]: "Option.bind m (finish unknown None) = m"
  by (cases m) (simp_all add: finish_def)

lemma log_chars_logged:
  assumes "logged (if log_in_format st then parse_conversion (log_prefix st) cs else parse cs) (log_list st) =
      Some (xs, e)"
    "length (log_string st) = MAX_FORMAT_STRING_LENGTH"
  shows "log_format_chars unknown backend cs st w =
    Option.bind (puts (log_put backend) xs w) (finish unknown e)"
  using assms
proof (induction cs arbitrary: st w xs e)
  case Nil
  then show ?case by (simp add: finish_def split: if_splits)
next
  case (Cons c cs)
  show ?case
  proof (cases "log_in_format st")
    case False
    then show ?thesis
      using Cons.prems Cons.IH [of "st\<lparr>log_in_format := True, log_prefix := NO_PREFIX\<rparr>"] Cons.IH [of st]
      by (auto split: if_splits bind_splits)
  next
    case True
    note ref = Cons.prems(1) [unfolded if_P [OF True] parse_conversion.simps]
    consider (flag) "c = FORMAT_PREFIX_PLUS \<or> c = FORMAT_PREFIX_SPACE" | (percent) "c = FORMAT_SPECIFIER"
      | (arg) "takes_argument c"
      | (bad) "\<not> takes_argument c" "c \<noteq> FORMAT_PREFIX_PLUS" "c \<noteq> FORMAT_PREFIX_SPACE" "c \<noteq> FORMAT_SPECIFIER"
      by blast
    then show ?thesis
    proof cases
      case flag
      then show ?thesis
        using Cons.IH [of "st\<lparr>log_prefix := c\<rparr>"] Cons.prems(2) ref True by (auto simp: takes_argument_def)
    next
      case percent
      then obtain ys where "xs = FORMAT_SPECIFIER # ys" "logged (parse cs) (log_list st) = Some (ys, e)"
        using ref by (auto split: if_splits)
      then show ?thesis
        using Cons.IH [of "st\<lparr>log_in_format := False\<rparr>"] Cons.prems(2) percent True
        by (auto simp: log_conversion_def takes_argument_def split: bind_splits)
    next
      case arg
      then have c: "c \<noteq> FORMAT_SPECIFIER" "c \<noteq> FORMAT_PREFIX_PLUS" "c \<noteq> FORMAT_PREFIX_SPACE"
        by (auto simp: takes_argument_def)
      then obtain a list t ys where t: "log_list st = a # list" "conversion_text (log_prefix st) c a = Some t"
        "xs = t @ ys" "logged (parse cs) list = Some (ys, e)"
        using ref arg by (auto split: list.splits option.splits)
      obtain buf where b: "length buf = MAX_FORMAT_STRING_LENGTH"
        "log_conversion backend c st w = map_option (Pair (st\<lparr>log_list := list, log_string := buf\<rparr>)) (puts (log_put backend) t w)"
        using log_conversion_text [OF t(2) arg t(1) Cons.prems(2), of backend w] by (elim exE conjE) (rule that)
      have "log_format_chars unknown backend cs (st\<lparr>log_list := list, log_string := buf, log_in_format := False\<rparr>) w' =
          Option.bind (puts (log_put backend) ys w') (finish unknown e)" for w'
        by (rule Cons.IH) (use t(4) b(1) in simp_all)
      then show ?thesis
        using arg True by (cases "puts (log_put backend) t w") (simp_all add: b(2) t(3) puts_append)
    next
      case bad
      then show ?thesis using ref True by (auto simp: finish_def)
    qed
  qed
qed

text \<open>Without arguments, a format string that asks for one is undefined.\<close>

lemma log_chars_missing:
  assumes "logged (if log_in_format st then parse_conversion (log_prefix st) cs else parse cs) [] = None"
    "log_list st = []"
  shows "log_format_chars unknown backend cs st w = None"
  using assms
proof (induction cs arbitrary: st w)
  case (Cons c cs)
  show ?case
  proof (cases "log_in_format st")
    case False
    then show ?thesis
      using Cons.prems Cons.IH [of "st\<lparr>log_in_format := True, log_prefix := NO_PREFIX\<rparr>"] Cons.IH [of st]
      by (auto split: if_splits bind_splits)
  next
    case True
    show ?thesis
    proof (cases "takes_argument c")
      case arg: True
      then have "log_conversion backend c st w = None"
        using Cons.prems(2) by (auto simp: log_conversion_def takes_argument_def)
      then show ?thesis using True arg by simp
    next
      case False
      then show ?thesis
        using Cons.prems True Cons.IH [of "st\<lparr>log_prefix := c\<rparr>"] Cons.IH [of "st\<lparr>log_in_format := False\<rparr>"]
        by (auto simp: log_conversion_def split: if_splits bind_splits)
    qed
  qed
qed (simp split: if_splits)

lemma log_formated_str_logged:
  assumes "logged (parse msg) list = Some (xs, e)" "0 \<notin> set msg" "length (msg @ 0 # behind) < 2 ^ 63"
    "length buf = MAX_FORMAT_STRING_LENGTH"
  shows "log_formated_str unknown backend (msg @ 0 # behind) list buf w =
    Option.bind (puts (log_put backend) xs w) (finish unknown e)"
proof -
  have len: "strlen (msg @ 0 # behind) = Some (of_nat (length msg))"
    by (rule strlen_string, rule is_stringI) (use assms(2,3) in simp_all)
  have n: "unat (of_nat (length msg) :: u64) = length msg" by (rule unat_of_nat_u64) (use assms(3) in simp)
  let ?st = "\<lparr>log_in_format = False, log_prefix = NO_PREFIX, log_string = buf, log_list = list\<rparr>"
  have "log_format_loop unknown backend (msg @ 0 # behind) (length msg) 0 ?st w = log_format_chars unknown backend msg ?st w"
    using log_loop_chars [of 0 "length msg" "msg @ 0 # behind" unknown backend ?st w] assms(3) by simp
  also have "\<dots> = Option.bind (puts (log_put backend) xs w) (finish unknown e)"
    by (rule log_chars_logged) (use assms(1,4) in simp_all)
  finally show ?thesis by (simp add: log_formated_str_def len n)
qed

lemma log_msg_missing:
  assumes "logged (parse msg) [] = None" "0 \<notin> set msg" "length (msg @ 0 # behind) < 2 ^ 63"
    "level_number (backend_level backend) \<le> level_number level"
  shows "logging_log_msg this_file buf backend level fname (msg @ 0 # behind) [] w = None"
proof -
  have len: "strlen (msg @ 0 # behind) = Some (of_nat (length msg))"
    by (rule strlen_string, rule is_stringI) (use assms(2,3) in simp_all)
  have n: "unat (of_nat (length msg) :: u64) = length msg" by (rule unat_of_nat_u64) (use assms(3) in simp)
  let ?st = "\<lparr>log_in_format = False, log_prefix = NO_PREFIX, log_string = buf, log_list = []\<rparr>"
  have "log_format_loop unknown backend (msg @ 0 # behind) (length msg) 0 ?st w = None" for unknown w
    using log_loop_chars [of 0 "length msg" "msg @ 0 # behind" unknown backend ?st w] assms(1,3)
      log_chars_missing [of ?st msg unknown backend w] by simp
  then have "log_formated_str unknown backend (msg @ 0 # behind) [] buf w = None" for unknown w
    by (simp add: log_formated_str_def len n)
  then show ?thesis
    using assms(4) by (simp add: logging_log_msg_def log_msg_with_def)
qed

lemma literal_bytes:
  "literal ''[DEBUG] '' = [91, 68, 69, 66, 85, 71, 93, 32, 0]"
  "literal ''[INFO] '' = [91, 73, 78, 70, 79, 93, 32, 0]"
  "literal ''[WARNING] '' = [91, 87, 65, 82, 78, 73, 78, 71, 93, 32, 0]"
  "literal ''[ERROR] '' = [91, 69, 82, 82, 79, 82, 93, 32, 0]"
  by (simp_all add: literal_def bytes_def)

lemma log_level_str_text: "log_level_str backend level w = puts (log_put backend) (level_text level) w"
  by (cases level) (simp_all add: log_level_str_def level_text_def log_str_puts literal_bytes,
    simp_all add: bytes_def)

lemma log_msg_with_text:
  assumes "logged (parse msg) list = Some (xs, e)" "0 \<notin> set msg" "length (msg @ 0 # behind) < 2 ^ 63"
    "length buf = MAX_FORMAT_STRING_LENGTH" "0 \<notin> set file" "length (file @ 0 # fbehind) < 2 ^ 63"
    "level_number (backend_level backend) \<le> level_number level"
    and unknown: "\<And>c w. e = Some c \<Longrightarrow> unknown c w = puts (log_put backend) (report c) w"
  shows "log_msg_with unknown backend level (file @ 0 # fbehind) (msg @ 0 # behind) list buf w =
    puts (log_put backend) (line_text level file (xs @ (case e of None \<Rightarrow> [] | Some c \<Rightarrow> report c))) w"
proof -
  have len: "strlen (file @ 0 # fbehind) = Some (of_nat (length file))"
    by (rule strlen_string, rule is_stringI) (use assms(5,6) in simp_all)
  have n: "unat (of_nat (length file) :: u64) = length file" by (rule unat_of_nat_u64) (use assms(6) in simp)
  have file_str: "log_str backend (file @ 0 # fbehind) (of_nat (length file)) w = puts (log_put backend) file w" for w
    by (subst log_str_puts) (use assms(6) in \<open>simp_all add: n\<close>)
  have fmt: "log_formated_str unknown backend (msg @ 0 # behind) list buf w =
      puts (log_put backend) (xs @ (case e of None \<Rightarrow> [] | Some c \<Rightarrow> report c)) w" for w
    unfolding log_formated_str_logged [OF assms(1-4)] puts_append
    by (cases e) (auto simp: finish_def unknown intro!: Option.bind_cong)
  show ?thesis
    using assms(7)
    by (auto simp: log_msg_with_def line_text_def log_level_str_text len file_str fmt puts_append intro!: Option.bind_cong)
qed

lemma parse_unknown_message:
  "parse (bytes ''Unknown format specifier: %c'') = map Literal (bytes ''Unknown format specifier: '') @ [Conversion 0 99]"
  by (simp add: bytes_def)

lemma logged_literals: "logged (map Literal xs @ ds) list = map_option (\<lambda>(ys, e). (xs @ ys, e)) (logged ds list)"
  by (induction xs) (simp_all add: option.map_comp comp_def case_prod_unfold map_option.id [unfolded id_def])

lemma ucast_scast_u8: "ucast (scast (c :: u8) :: u64) = c"
  by (rule bit_word_eqI) (auto simp: bit_simps)

lemma log_unknown_text:
  assumes "length buf = MAX_FORMAT_STRING_LENGTH" "0 \<notin> set this_file" "length (this_file @ 0 # tbehind) < 2 ^ 63"
  shows "log_unknown_specifier (this_file @ 0 # tbehind) buf backend c w = puts (log_put backend)
    (line_text LOGGING_LEVEL_ERROR this_file (bytes ''Unknown format specifier: '' @ [c])) w"
proof -
  have l: "logged (parse (bytes ''Unknown format specifier: %c'')) [Word (scast c)] =
      Some (bytes ''Unknown format specifier: '' @ [c], None)"
    unfolding parse_unknown_message logged_literals by (simp add: takes_argument_def ucast_scast_u8)
  have z: "0 \<notin> set (bytes ''Unknown format specifier: %c'')" by (simp add: bytes_def)
  have lv: "level_number (backend_level backend) \<le> level_number LOGGING_LEVEL_ERROR"
    by (cases "backend_level backend") simp_all
  have short: "length (bytes ''Unknown format specifier: %c'' @ 0 # []) < 2 ^ 63" by (simp add: bytes_def)
  from log_msg_with_text [OF l z short assms(1,2,3) lv, of "\<lambda>_ _. None" "\<lambda>_. []"] show ?thesis
    by (simp add: log_unknown_specifier_def literal_def)
qed

lemma logging_log_msg_text:
  assumes "logged (parse msg) list = Some (xs, e)" "0 \<notin> set msg" "length (msg @ 0 # behind) < 2 ^ 63"
    "length buf = MAX_FORMAT_STRING_LENGTH" "0 \<notin> set fname" "length (fname @ 0 # fbehind) < 2 ^ 63"
    "0 \<notin> set this_file" "length (this_file @ 0 # tbehind) < 2 ^ 63"
  shows "logging_log_msg (this_file @ 0 # tbehind) buf backend level (fname @ 0 # fbehind) (msg @ 0 # behind) list w =
    (if level_number level < level_number (backend_level backend) then Some w
     else puts (log_put backend) (line_text level fname (reported_text this_file xs e)) w)"
proof (cases "level_number level < level_number (backend_level backend)")
  case False
  let ?report = "\<lambda>c. line_text LOGGING_LEVEL_ERROR this_file (bytes ''Unknown format specifier: '' @ [c])"
  have "logging_log_msg (this_file @ 0 # tbehind) buf backend level (fname @ 0 # fbehind) (msg @ 0 # behind) list w =
      puts (log_put backend) (line_text level fname (xs @ (case e of None \<Rightarrow> [] | Some c \<Rightarrow> ?report c))) w"
    unfolding logging_log_msg_def
    by (rule log_msg_with_text [OF assms(1-6)]) (use False log_unknown_text [OF assms(4,7,8)] in simp_all)
  then show ?thesis using False by (simp add: reported_text_def)
qed (simp add: logging_log_msg_def log_msg_with_def)

section \<open>Logging to a sink\<close>

definition name_ok :: "u8 list \<Rightarrow> bool" where
  "name_ok s \<longleftrightarrow> (\<exists>n. s = n @ [0] \<and> 0 \<notin> set n \<and> length n < 2 ^ 32)"

lemma length_bytes [simp]: "length (bytes s) = length s"
  by (simp add: bytes_def)

lemma parse_plain: "37 \<notin> set msg \<Longrightarrow> logged (parse msg) list = Some (msg, None)"
  by (induction msg) auto

lemma log_msg_named:
  assumes "logged (parse msg) list = Some (xs, e)" "0 \<notin> set msg" "length msg < 2 ^ 32"
    "length buf = MAX_FORMAT_STRING_LENGTH" "name_ok file" "name_ok this_file"
  shows "logging_log_msg this_file buf backend level file (msg @ [0]) list w =
    (if level_number level < level_number (backend_level backend) then Some w
     else puts (log_put backend) (line_text level (butlast file) (reported_text (butlast this_file) xs e)) w)"
proof -
  obtain n t where n: "file = n @ [0]" "0 \<notin> set n" "length (n @ 0 # []) < 2 ^ 63"
      "this_file = t @ [0]" "0 \<notin> set t" "length (t @ 0 # []) < 2 ^ 63"
    using assms(5,6) by (auto simp: name_ok_def)
  have m: "length (msg @ 0 # []) < 2 ^ 63" using assms(3) by simp
  show ?thesis
    unfolding n(1,4) logging_log_msg_text [OF assms(1,2) m assms(4) n(2,3) n(5,6)] by simp
qed

text \<open>Logging to a sink returns and keeps the sink usable.\<close>

context byte_sink
begin

lemma log_returns:
  assumes "log_put backend = put" "ok w" "logged (parse msg) list = Some (xs, e)" "0 \<notin> set msg" "length msg < 2 ^ 32"
    "length buf = MAX_FORMAT_STRING_LENGTH" "name_ok file" "name_ok this_file"
  shows "\<exists>w'. logging_log_msg this_file buf backend level file (msg @ [0]) list w = Some w' \<and> ok w'"
  unfolding log_msg_named [OF assms(3-8)] assms(1) using puts_ok assms(2) by simp

end

section \<open>Properties\<close>

text \<open>
  C24: a message below the level of the backend is not logged at all; any other is logged as one line:
  the name of its level, except for INFO the file, the text of the format string with its arguments,
  and, where an unknown conversion stops it, a complete error line inside the line. After the name
  of INFO a \<open>NUL\<close> is logged, as the length given there counts the terminator.
\<close>

theorem logging_log_msg_correct:
  assumes "logged (parse msg) list = Some (xs, e)" "0 \<notin> set msg" "length (msg @ 0 # behind) < 2 ^ 63"
    "length buf = MAX_FORMAT_STRING_LENGTH" "0 \<notin> set fname" "length (fname @ 0 # fbehind) < 2 ^ 63"
    "0 \<notin> set this_file" "length (this_file @ 0 # tbehind) < 2 ^ 63"
  shows "logging_log_msg (this_file @ 0 # tbehind) buf backend level (fname @ 0 # fbehind) (msg @ 0 # behind) list w =
    (if level_number level < level_number (backend_level backend) then Some w
     else puts (log_put backend) (line_text level fname (reported_text this_file xs e)) w)"
  by (rule logging_log_msg_text [OF assms])

text \<open>\<open>LOG_INFO("%s!", "on")\<close> with a backend that collects the bytes.\<close>

definition collect :: "u8 list logging_backend" where
  "collect = \<lparr>backend_write = Some (\<lambda>c w. Some (w @ [c])), backend_level = LOGGING_LEVEL_INFO\<rparr>"

lemma logging_log_msg_correct_witness:
  "logging_log_msg [108, 0] (replicate 256 0) collect LOGGING_LEVEL_INFO [109, 0] [37, 115, 33, 0]
     [Str [111, 110, 0]] [] = Some [91, 73, 78, 70, 79, 93, 32, 0, 111, 110, 33, 10]"
  using logging_log_msg_correct [of "[37, 115, 33]" "[Str [111, 110, 0]]" "[111, 110, 33]" None "[]"
      "replicate 256 0" "[109]" "[]" "[108]" "[]" collect LOGGING_LEVEL_INFO "[]"]
  by (simp add: takes_argument_def collect_def line_text_def level_text_def reported_text_def bytes_def log_put_def)

end
