(* ===== verification/Serial.thy ===== *)
theory Serial
  imports PortIO ByteSink
begin

text \<open>
  The serial port driver (kernel/src/drivers/serial.c, serial.h). A program is a function on the history
  of PortIO; \<open>None\<close> is a busy wait that never ends or a write outside the caller's buffer.
\<close>

section \<open>Registers and constants\<close>

definition SERIAL_INT_ENABLE_REG :: "u16 \<Rightarrow> u16" where "SERIAL_INT_ENABLE_REG p = p + 1"
definition SERIAL_FIFO_CONTROL_REG :: "u16 \<Rightarrow> u16" where "SERIAL_FIFO_CONTROL_REG p = p + 2"
definition SERIAL_LINE_CONTROL_REG :: "u16 \<Rightarrow> u16" where "SERIAL_LINE_CONTROL_REG p = p + 3"
definition SERIAL_MODEM_CONTROL_REG :: "u16 \<Rightarrow> u16" where "SERIAL_MODEM_CONTROL_REG p = p + 4"
definition SERIAL_LINE_STATUS_REG :: "u16 \<Rightarrow> u16" where "SERIAL_LINE_STATUS_REG p = p + 5"
definition SERIAL_BR_LOW_REG :: "u16 \<Rightarrow> u16" where "SERIAL_BR_LOW_REG p = p"
definition SERIAL_BR_HIGH_REG :: "u16 \<Rightarrow> u16" where "SERIAL_BR_HIGH_REG p = p + 1"

lemmas serial_regs = SERIAL_INT_ENABLE_REG_def SERIAL_FIFO_CONTROL_REG_def SERIAL_LINE_CONTROL_REG_def
  SERIAL_MODEM_CONTROL_REG_def SERIAL_LINE_STATUS_REG_def SERIAL_BR_LOW_REG_def SERIAL_BR_HIGH_REG_def

abbreviation (input) SERIAL_LOOPBACK_MODE :: u8 where "SERIAL_LOOPBACK_MODE \<equiv> 0x1b"
abbreviation (input) SERIAL_NORMAL_MODE :: u8 where "SERIAL_NORMAL_MODE \<equiv> 0x0b"
abbreviation (input) SERIAL_BAUD_RATE_MAX :: u32 where "SERIAL_BAUD_RATE_MAX \<equiv> 115200"
abbreviation (input) SERIAL_TEST_BYTE :: u8 where "SERIAL_TEST_BYTE \<equiv> 0x69"

datatype serial_error_codes_t = SERIAL_OK | SERIAL_ERROR_BR_OUT_OF_BOUNDS | SERIAL_LOOPBACK_FAILED

section \<open>Bytes\<close>

definition serial_send_byte :: "device \<Rightarrow> u16 \<Rightarrow> u8 \<Rightarrow> io_trace \<Rightarrow> io_trace option" where
  "serial_send_byte dev port data tr =
     do {
       tr \<leftarrow> poll_until dev (SERIAL_LINE_STATUS_REG port) (\<lambda>b. b AND push_bit 5 1 \<noteq> 0) tr;
       Some (port_write_byte port data tr)
     }"

definition serial_read_byte :: "device \<Rightarrow> u16 \<Rightarrow> io_trace \<Rightarrow> (u8 \<times> io_trace) option" where
  "serial_read_byte dev port tr =
     do {
       tr \<leftarrow> poll_until dev (SERIAL_LINE_STATUS_REG port) (\<lambda>b. b AND 1 \<noteq> 0) tr;
       port_read_byte dev port tr
     }"

section \<open>Strings\<close>

text \<open>\<open>for (i = 0; i < len; i++)\<close>, with \<open>n\<close> iterations left.\<close>

fun serial_print_loop :: "device \<Rightarrow> u16 \<Rightarrow> u8 list \<Rightarrow> nat \<Rightarrow> u64 \<Rightarrow> io_trace \<Rightarrow> io_trace option" where
  "serial_print_loop dev port data 0 i tr = Some tr"
| "serial_print_loop dev port data (Suc n) i tr =
     do {
       c \<leftarrow> arr_get data i;
       tr \<leftarrow> serial_send_byte dev port c tr;
       serial_print_loop dev port data n (i + 1) tr
     }"

definition serial_print :: "device \<Rightarrow> u16 \<Rightarrow> u8 list \<Rightarrow> io_trace \<Rightarrow> io_trace option" where
  "serial_print dev port data tr =
     do {
       len \<leftarrow> strlen data;
       serial_print_loop dev port data (unat len) 0 tr
     }"

definition serial_print_line :: "device \<Rightarrow> u16 \<Rightarrow> u8 list \<Rightarrow> io_trace \<Rightarrow> io_trace option" where
  "serial_print_line dev port data tr =
     do {
       tr \<leftarrow> serial_print dev port data tr;
       serial_send_byte dev port 10 tr
     }"

text \<open>
  \<open>while (i < buffer_size - 1)\<close>; a newline leaves the loop before \<open>i\<close> is incremented. The result
  holds the last \<open>i\<close> and the buffer.
\<close>

partial_function (option) serial_read_loop ::
    "device \<Rightarrow> u16 \<Rightarrow> u64 \<Rightarrow> u64 \<Rightarrow> u8 list \<Rightarrow> io_trace \<Rightarrow> (u64 \<times> u8 list \<times> io_trace) option" where
  [code]: "serial_read_loop dev port buffer_size i dest tr =
     (if i < buffer_size - 1 then
        do {
          (c, tr) \<leftarrow> serial_read_byte dev port tr;
          dest \<leftarrow> arr_set dest i c;
          if c = 10 then Some (i, dest, tr)
          else serial_read_loop dev port buffer_size (i + 1) dest tr
        }
      else Some (i, dest, tr))"

definition serial_read_line ::
    "device \<Rightarrow> u16 \<Rightarrow> u8 list \<Rightarrow> u64 \<Rightarrow> io_trace \<Rightarrow> (u8 list \<times> io_trace) option" where
  "serial_read_line dev port dest buffer_size tr =
     do {
       (c, tr) \<leftarrow> serial_read_byte dev port tr;
       dest \<leftarrow> arr_set dest 0 c;
       (i, dest, tr) \<leftarrow> serial_read_loop dev port buffer_size 1 dest tr;
       dest \<leftarrow> arr_set dest (i + 1) 0;
       Some (dest, tr)
     }"

section \<open>Initialization\<close>

definition serial_test :: "device \<Rightarrow> u16 \<Rightarrow> io_trace \<Rightarrow> (serial_error_codes_t \<times> io_trace) option" where
  "serial_test dev port tr =
     do {
       let tr = port_write_byte (SERIAL_MODEM_CONTROL_REG port) SERIAL_LOOPBACK_MODE tr;
       let tr = port_write_byte port SERIAL_TEST_BYTE tr;
       (b, tr) \<leftarrow> port_read_byte dev port tr;
       let tr = port_write_byte (SERIAL_MODEM_CONTROL_REG port) SERIAL_NORMAL_MODE tr;
       Some (if b = SERIAL_TEST_BYTE then SERIAL_OK else SERIAL_LOOPBACK_FAILED, tr)
     }"

definition serial_init ::
    "device \<Rightarrow> u16 \<Rightarrow> u32 \<Rightarrow> u8 \<Rightarrow> io_trace \<Rightarrow> (serial_error_codes_t \<times> io_trace) option" where
  "serial_init dev port baud_rate mode tr =
     (if baud_rate > SERIAL_BAUD_RATE_MAX \<or> baud_rate < 1 then Some (SERIAL_ERROR_BR_OUT_OF_BOUNDS, tr)
      else
        let tr = port_write_byte (SERIAL_INT_ENABLE_REG port) 0 tr;
            divisor = ucast (SERIAL_BAUD_RATE_MAX div baud_rate) :: u16;
            tr = port_write_byte (SERIAL_LINE_CONTROL_REG port) (push_bit 7 1) tr;
            tr = port_write_byte (SERIAL_BR_LOW_REG port) (ucast (divisor AND 0x00ff)) tr;
            tr = port_write_byte (SERIAL_BR_HIGH_REG port) (ucast (drop_bit 8 (divisor AND 0xff00))) tr;
            tr = port_write_byte (SERIAL_LINE_CONTROL_REG port) mode tr;
            tr = port_write_byte (SERIAL_FIFO_CONTROL_REG port) (push_bit 2 1 OR push_bit 1 1 OR 1) tr
        in do {
             (r, tr) \<leftarrow> serial_test dev port tr;
             Some (if r = SERIAL_LOOPBACK_FAILED then SERIAL_LOOPBACK_FAILED else SERIAL_OK, tr)
           })"

text \<open>The logging backend: \<open>context\<close> points to an \<open>int\<close> that holds the port.\<close>

definition serial_log_write :: "device \<Rightarrow> u8 \<Rightarrow> u32 \<Rightarrow> io_trace \<Rightarrow> io_trace option" where
  "serial_log_write dev c context tr = serial_send_byte dev (ucast context) c tr"

section \<open>Correctness\<close>

lemma serial_send_byte_correct:
  assumes "gets_ready dev (port + 5) (\<lambda>b. b AND 32 \<noteq> 0)"
  shows "\<exists>tr'. serial_send_byte dev port c tr = Some tr' \<and> written port tr' = written port tr @ [c]"
proof -
  obtain n where "ready_after dev (port + 5) (\<lambda>b. b AND 32 \<noteq> 0) n tr"
    using assms by (auto simp: gets_ready_def)
  from poll_until_ready [OF this] show ?thesis
    by (simp add: serial_send_byte_def serial_regs port_write_byte_def push_bit_of_1)
qed

interpretation serial_sink: recorded_sink "\<lambda>tr. gets_ready dev (port + 5) (\<lambda>b. b AND 32 \<noteq> 0)"
    "serial_send_byte dev port" "written port" for dev port
proof
  fix c tr tr'
  assume r: "gets_ready dev (port + 5) (\<lambda>b. b AND 32 \<noteq> 0)"
  show "\<exists>tr'. serial_send_byte dev port c tr = Some tr' \<and> gets_ready dev (port + 5) (\<lambda>b. b AND 32 \<noteq> 0)"
    using serial_send_byte_correct [OF r] r by blast
  assume "serial_send_byte dev port c tr = Some tr'"
  then show "written port tr' = written port tr @ [c]" using serial_send_byte_correct [OF r, of c tr] by simp
qed

lemma serial_print_correct:
  assumes "gets_ready dev (port + 5) (\<lambda>b. b AND 32 \<noteq> 0)" "is_string xs" "length rest < 2 ^ 63"
  shows "\<exists>tr'. serial_print dev port (xs @ 0 # rest) tr = Some tr' \<and> written port tr' = written port tr @ xs"
proof -
  have l: "length (xs @ 0 # rest) < 2 ^ 64" and u: "unat (of_nat (length xs) :: u64) = length xs"
    using assms(2,3) by (simp_all add: is_string_def unat_of_nat_u64)
  have "serial_print_loop dev port (xs @ 0 # rest) (length xs) 0 tr =
      puts (serial_send_byte dev port) (take (length xs) (drop (unat (0 :: u64)) (xs @ 0 # rest))) tr"
    by (rule loop_puts [of "serial_print_loop dev port (xs @ 0 # rest)"]) (use l in simp_all)
  moreover obtain tr' where "puts (serial_send_byte dev port) xs tr = Some tr'"
    using serial_sink.puts_ok [OF assms(1)] by blast
  ultimately show ?thesis
    using serial_sink.puts_recorded [OF assms(1)] by (simp add: serial_print_def strlen_string [OF assms(2)] u)
qed

section \<open>Properties\<close>

text \<open>
  On a port that gets ready to send, \<open>serial_print_line\<close> returns and the line receives exactly the
  string and a newline, in order.
\<close>

theorem serial_print_line_correct:
  assumes "gets_ready dev (port + 5) (\<lambda>b. b AND 32 \<noteq> 0)" "is_string xs" "length rest < 2 ^ 63"
  shows "\<exists>tr'. serial_print_line dev port (xs @ 0 # rest) tr = Some tr' \<and>
    written port tr' = written port tr @ xs @ [10]"
proof -
  obtain tr1 where "serial_print dev port (xs @ 0 # rest) tr = Some tr1" "written port tr1 = written port tr @ xs"
    using serial_print_correct [OF assms] by blast
  moreover obtain tr2 where "serial_send_byte dev port 10 tr1 = Some tr2" "written port tr2 = written port tr1 @ [10]"
    using serial_send_byte_correct [OF assms(1)] by blast
  ultimately show ?thesis by (simp add: serial_print_line_def)
qed

text \<open>A device whose transmit buffer is always empty and that always has received an \<open>A\<close>.\<close>

definition demo_serial :: device where
  "demo_serial tr port = (if port = 0x3f8 + 5 then 0x21 else 65)"

lemma demo_serial_ready: "gets_ready demo_serial (0x3f8 + 5) (\<lambda>b. b AND 32 \<noteq> 0)"
  by (auto simp: gets_ready_def ready_after_def demo_serial_def intro!: exI [of _ 0])

lemma serial_print_line_correct_witness:
  "\<exists>tr'. serial_print_line demo_serial 0x3f8 [72, 105, 0] [] = Some tr' \<and> written 0x3f8 tr' = [72, 105, 10]"
  using serial_print_line_correct [of demo_serial "0x3f8" "[72, 105]" "[]" "[]"] demo_serial_ready
  by (simp add: is_string_def)

text \<open>
  \<open>serial_read_line\<close> overruns its buffer: when the line does not end early, the terminating zero is
  written one behind the end of a buffer of the given size.
\<close>

theorem serial_read_line_overruns:
  "serial_read_line demo_serial 0x3f8 (replicate 4 0) 4 [] = None \<and>
   map_option fst (serial_read_line demo_serial 0x3f8 (replicate 5 0) 4 []) = Some [65, 65, 65, 0, 0]"
  by code_simp

text \<open>
  The lowest baud rate that is accepted does not fit: for 1 baud the divisor 115200 is truncated to
  16 bits, to 49664.
\<close>

lemma serial_divisor_truncated:
  "(ucast (SERIAL_BAUD_RATE_MAX div (1 :: u32)) :: u16) = 49664"
  by simp

text \<open>The divisor is exact for every other rate: it is the quotient, and fits.\<close>

lemma serial_divisor_fits:
  assumes "2 \<le> unat baud_rate" "unat baud_rate \<le> 115200"
  shows "unat (ucast (SERIAL_BAUD_RATE_MAX div (baud_rate :: u32)) :: u16) = 115200 div unat baud_rate"
proof -
  have "115200 div unat baud_rate \<le> 115200 div 2" using assms(1) by (intro div_le_mono2) simp_all
  then have lt: "unat (SERIAL_BAUD_RATE_MAX div baud_rate) < 2 ^ 16" by (simp add: unat_div_word)
  then show ?thesis by (simp add: unat_div_word unsigned_ucast_eq take_bit_nat_eq_self)
qed

end
