(* ===== verification/Timers.thy ===== *)
theory Timers
  imports PortIO
begin

text \<open>
  The interrupt controllers and the interval timer (kernel/src/drivers/pic.c, pit.c and their
  headers), as functions on the history of PortIO. \<open>None\<close> is a shift beyond the width of \<open>int\<close>, which
  C leaves undefined.
\<close>

section \<open>The interrupt controllers\<close>

abbreviation (input) PIC1_COMMAND :: u16 where "PIC1_COMMAND \<equiv> 0x20"
abbreviation (input) PIC1_DATA :: u16 where "PIC1_DATA \<equiv> 0x21"
abbreviation (input) PIC2_COMMAND :: u16 where "PIC2_COMMAND \<equiv> 0xa0"
abbreviation (input) PIC2_DATA :: u16 where "PIC2_DATA \<equiv> 0xa1"
abbreviation (input) PIC_EOI :: u8 where "PIC_EOI \<equiv> 0x20"
abbreviation (input) PIC_ICW1_INIT :: u8 where "PIC_ICW1_INIT \<equiv> 0x10"
abbreviation (input) PIC_ICW1_ICW4_NEEDED :: u8 where "PIC_ICW1_ICW4_NEEDED \<equiv> 1"
abbreviation (input) PIC_ICW4_MODE_8086 :: u8 where "PIC_ICW4_MODE_8086 \<equiv> 1"
abbreviation (input) PIC_CASCADE_IRQ :: u8 where "PIC_CASCADE_IRQ \<equiv> 2"

definition pic_send_eoi :: "u8 \<Rightarrow> io_trace \<Rightarrow> io_trace" where
  "pic_send_eoi irq tr =
     (let tr = (if irq > 7 then port_write_byte PIC2_COMMAND PIC_EOI tr else tr)
      in port_write_byte PIC1_COMMAND PIC_EOI tr)"

text \<open>Port and bit of an IRQ in the mask registers.\<close>

definition pic_line :: "u8 \<Rightarrow> u16 \<times> u8" where
  "pic_line irq = (if irq > 7 then (PIC2_DATA, irq - 8) else (PIC1_DATA, irq))"

definition pic_enable_irq :: "device \<Rightarrow> u8 \<Rightarrow> io_trace \<Rightarrow> io_trace option" where
  "pic_enable_irq dev irq tr =
     (let (port, irq) = pic_line irq in
      if irq > 30 then None
      else do {
        (b, tr) \<leftarrow> port_read_byte dev port tr;
        let mask = b AND NOT (push_bit (unat irq) 1);
        Some (port_write_byte port mask tr)
      })"

definition pic_disable_irq :: "device \<Rightarrow> u8 \<Rightarrow> io_trace \<Rightarrow> io_trace option" where
  "pic_disable_irq dev irq tr =
     (let (port, irq) = pic_line irq in
      if irq > 30 then None
      else do {
        (b, tr) \<leftarrow> port_read_byte dev port tr;
        let mask = b OR push_bit (unat irq) 1;
        Some (port_write_byte port mask tr)
      })"

definition pic_init :: "u32 \<Rightarrow> u32 \<Rightarrow> io_trace \<Rightarrow> io_trace" where
  "pic_init offset_pic1 offset_pic2 tr =
     (let tr = port_write_byte PIC1_COMMAND (PIC_ICW1_INIT OR 0 OR PIC_ICW1_ICW4_NEEDED) tr;
          tr = port_write_byte PIC2_COMMAND (PIC_ICW1_INIT OR 0 OR PIC_ICW1_ICW4_NEEDED) tr;
          tr = port_write_byte PIC1_DATA (ucast offset_pic1) tr;
          tr = port_write_byte PIC2_DATA (ucast offset_pic2) tr;
          tr = port_write_byte PIC1_DATA (push_bit (unat PIC_CASCADE_IRQ) 1) tr;
          tr = port_write_byte PIC2_DATA PIC_CASCADE_IRQ tr;
          tr = port_write_byte PIC1_DATA PIC_ICW4_MODE_8086 tr;
          tr = port_write_byte PIC1_DATA PIC_ICW4_MODE_8086 tr;
          tr = port_write_byte PIC1_DATA 255 tr
      in port_write_byte PIC2_DATA 255 tr)"

text \<open>The mask register of each controller reads back what was last written to it.\<close>

fun last_written :: "u16 \<Rightarrow> io_trace \<Rightarrow> u8" where
  "last_written port [] = 0"
| "last_written port (Out p b # tr) = (if p = port then b else last_written port tr)"
| "last_written port (In p b # tr) = last_written port tr"

definition reads_back :: "device \<Rightarrow> u16 \<Rightarrow> bool" where
  "reads_back dev port \<longleftrightarrow> (\<forall>tr. dev tr port = last_written port tr)"

text \<open>Whether an IRQ from 0 to 15 is masked.\<close>

definition irq_masked :: "io_trace \<Rightarrow> nat \<Rightarrow> bool" where
  "irq_masked tr k = (if k < 8 then bit (last_written PIC1_DATA tr) k else bit (last_written PIC2_DATA tr) (k - 8))"

lemma pic_line_of_nat:
  "k < 16 \<Longrightarrow> pic_line (of_nat k) = (if 7 < k then (PIC2_DATA, of_nat (k - 8)) else (PIC1_DATA, of_nat k))"
  by (simp add: pic_line_def word_less_nat_alt unat_of_nat of_nat_diff)

lemma pic_enable_step:
  assumes "reads_back dev PIC1_DATA" "reads_back dev PIC2_DATA" "k < 16"
  shows "\<exists>tr'. pic_enable_irq dev (of_nat k) tr = Some tr' \<and>
    (\<forall>j<16. irq_masked tr' j \<longleftrightarrow> irq_masked tr j \<and> j \<noteq> k)"
proof -
  have n: "\<not> (of_nat j > (30 :: u8))" "unat (of_nat j :: u8) = j" if "j < 8" for j
    using that by (simp_all add: word_less_nat_alt unat_of_nat)
  show ?thesis
    using assms n [of k] n [of "k - 8"]
    by (cases "7 < k")
      (auto simp: pic_enable_irq_def pic_line_of_nat port_read_byte_def port_write_byte_def irq_masked_def
        reads_back_def bit_one_simps Let_def simp del: push_bit_of_1)
qed

lemma pic_disable_step:
  assumes "reads_back dev PIC1_DATA" "reads_back dev PIC2_DATA" "k < 16"
  shows "\<exists>tr'. pic_disable_irq dev (of_nat k) tr = Some tr' \<and>
    (\<forall>j<16. irq_masked tr' j \<longleftrightarrow> irq_masked tr j \<or> j = k)"
proof -
  have n: "\<not> (of_nat j > (30 :: u8))" "unat (of_nat j :: u8) = j" if "j < 8" for j
    using that by (simp_all add: word_less_nat_alt unat_of_nat)
  show ?thesis
    using assms n [of k] n [of "k - 8"]
    by (cases "7 < k")
      (auto simp: pic_disable_irq_def pic_line_of_nat port_read_byte_def port_write_byte_def irq_masked_def
        reads_back_def bit_one_simps Let_def simp del: push_bit_of_1)
qed

section \<open>The interval timer\<close>

abbreviation (input) PIT_COMMAND :: u16 where "PIT_COMMAND \<equiv> 0x43"
abbreviation (input) PIT_F_REF :: u64 where "PIT_F_REF \<equiv> 1193182"
abbreviation (input) PIT_MAX_FREQUENCY :: u64 where "PIT_MAX_FREQUENCY \<equiv> PIT_F_REF"
abbreviation (input) PIT_MIN_FREQUENCY :: u64 where "PIT_MIN_FREQUENCY \<equiv> PIT_F_REF div 65535"
abbreviation (input) PIT_CHANNEL_0 :: u8 where "PIT_CHANNEL_0 \<equiv> 0x40"
abbreviation (input) PIT_SC_COUNTER_0 :: u8 where "PIT_SC_COUNTER_0 \<equiv> 0"
abbreviation (input) PIT_SC_COUNTER_2 :: u8 where "PIT_SC_COUNTER_2 \<equiv> 0x80"
abbreviation (input) PIT_RW_LOW_HIGH :: u8 where "PIT_RW_LOW_HIGH \<equiv> 0x30"
abbreviation (input) PIT_BCD_BINARY :: u8 where "PIT_BCD_BINARY \<equiv> 0"

datatype pit_error_codes = PIT_OK | PIT_ERROR_FREQUENCY_OUT_OF_BOUNDS

text \<open>The second component is the interrupt flag, which \<open>cli\<close> clears and \<open>sti\<close> sets.\<close>

definition pit_init_channel :: "u8 \<Rightarrow> u64 \<Rightarrow> u8 \<Rightarrow> io_trace \<Rightarrow> pit_error_codes \<times> bool \<times> io_trace" where
  "pit_init_channel channel frequency mode tr =
     (if frequency < PIT_MIN_FREQUENCY \<or> frequency > PIT_MAX_FREQUENCY
      then (PIT_ERROR_FREQUENCY_OUT_OF_BOUNDS, False, tr)
      else
        let divisor = ucast (PIT_F_REF div frequency) :: u32;
            divisor = (if divisor > UINT16_MAX then UINT16_MAX else divisor);
            select_counter = (if channel = PIT_CHANNEL_0 then PIT_SC_COUNTER_0 else PIT_SC_COUNTER_2);
            tr = port_write_byte PIT_COMMAND (select_counter OR PIT_RW_LOW_HIGH OR mode OR PIT_BCD_BINARY) tr;
            tr = port_write_byte (ucast channel) (ucast (divisor AND 0x00ff)) tr;
            tr = port_write_byte (ucast channel) (ucast (drop_bit 8 (divisor AND 0xff00))) tr
        in (PIT_OK, True, tr))"

section \<open>Properties\<close>

text \<open>
  On controllers whose mask registers read back what was written, enabling an IRQ from 0 to 15
  unmasks exactly this IRQ, and disabling it again restores which of the 16 are masked if it was.
\<close>

theorem pic_enable_disable:
  assumes "reads_back dev PIC1_DATA" "reads_back dev PIC2_DATA" "k < 16"
  shows "\<exists>tr1 tr2. pic_enable_irq dev (of_nat k) tr = Some tr1 \<and> pic_disable_irq dev (of_nat k) tr1 = Some tr2 \<and>
    (\<forall>j<16. (irq_masked tr1 j \<longleftrightarrow> irq_masked tr j \<and> j \<noteq> k) \<and> (irq_masked tr2 j \<longleftrightarrow> irq_masked tr j \<or> j = k))"
proof -
  obtain tr1 where tr1: "pic_enable_irq dev (of_nat k) tr = Some tr1"
    "\<forall>j<16. irq_masked tr1 j \<longleftrightarrow> irq_masked tr j \<and> j \<noteq> k"
    using pic_enable_step [OF assms] by blast
  obtain tr2 where "pic_disable_irq dev (of_nat k) tr1 = Some tr2"
    "\<forall>j<16. irq_masked tr2 j \<longleftrightarrow> irq_masked tr1 j \<or> j = k"
    using pic_disable_step [OF assms] by blast
  with tr1 show ?thesis by auto
qed

lemma pic_enable_disable_witness:
  "\<exists>tr1. pic_enable_irq (\<lambda>tr port. last_written port tr) 12 (pic_init 0x20 0x28 []) = Some tr1 \<and> \<not> irq_masked tr1 12"
  using pic_enable_disable [of "\<lambda>tr port. last_written port tr" 12 "pic_init 0x20 0x28 []"]
  by (auto simp: reads_back_def)

text \<open>
  The second controller is not given its fourth initialization word: \<open>pic_init\<close> writes it twice
  to the first one, so that the second takes the mask 255 in its place.
\<close>

theorem pic_init_words:
  "written PIC1_DATA (pic_init off1 off2 []) = [ucast off1, 4, PIC_ICW4_MODE_8086, PIC_ICW4_MODE_8086, 255] \<and>
   written PIC2_DATA (pic_init off1 off2 []) = [ucast off2, 2, 255]"
  by (simp add: pic_init_def Let_def)

text \<open>
  The timer is given a frequency's rounded divisor, low byte first, limited to 65535, and then
  interrupts are on; a frequency out of bounds is rejected without a write to the timer, but returns
  with interrupts turned off.
\<close>

theorem pit_init_correct:
  "if 18 \<le> unat frequency \<and> unat frequency \<le> 1193182
    then \<exists>lo hi c tr'. pit_init_channel channel frequency mode tr = (PIT_OK, True, tr') \<and>
      tr' = [Out (ucast channel) hi, Out (ucast channel) lo, Out PIT_COMMAND c] @ tr \<and>
      unat lo + 256 * unat hi = min 65535 (1193182 div unat frequency)
    else pit_init_channel channel frequency mode tr = (PIT_ERROR_FREQUENCY_OUT_OF_BOUNDS, False, tr)"
proof -
  have ok: "\<not> (frequency < PIT_MIN_FREQUENCY \<or> frequency > PIT_MAX_FREQUENCY) \<longleftrightarrow>
      18 \<le> unat frequency \<and> unat frequency \<le> 1193182"
    by (simp add: word_less_nat_alt not_less)
  show ?thesis
  proof (cases "18 \<le> unat frequency \<and> unat frequency \<le> 1193182")
    case False
    then have "frequency < PIT_MIN_FREQUENCY \<or> frequency > PIT_MAX_FREQUENCY" using ok by blast
    then show ?thesis unfolding pit_init_channel_def if_not_P [OF False] by (simp only: if_True)
  next
    case True
    let ?d = "ucast (PIT_F_REF div frequency) :: u32"
    let ?e = "if ?d > UINT16_MAX then UINT16_MAX else ?d"
    have "1193182 div unat frequency \<le> 1193182" by (rule div_le_dividend)
    then have "1193182 div unat frequency < 2 ^ 32" by (rule le_less_trans) simp
    then have "take_bit 32 (1193182 div unat frequency) = 1193182 div unat frequency"
      by (rule take_bit_nat_eq_self)
    then have d: "unat ?d = 1193182 div unat frequency" by (simp add: unsigned_ucast_eq unat_div_word)
    have e: "unat ?e = min 65535 (1193182 div unat frequency)"
      using d by (simp add: word_less_nat_alt min_def)
    then have "unat ?e < 2 ^ 16" by simp
    from byte_split [OF this] e True ok show ?thesis
      unfolding pit_init_channel_def Let_def if_not_P [OF iffD2 [OF ok True]] port_write_byte_def by auto
  qed
qed

end
