(* ===== verification/InterruptHandler.thy ===== *)
theory InterruptHandler
  imports Scancodes Printf Logging Serial Timers
begin

text \<open>
  The interrupt handler (kernel/src/cpu/interrupt_handler.c, interrupt_handler.h), which connects the
  keyboard driver, the key event buffer, the terminal, the log and the interrupt controllers. Shows
  that what is typed is printed, that every external interrupt is acknowledged, and what the table of
  descriptions does to the exceptions.
\<close>

section \<open>Operations\<close>

text \<open>
  The strings of \<open>interrupt_descriptions\<close>. There is no comma after the one of the virtualization
  exception, so it is joined with the next one, and the array of 25 pointers ends with a null pointer.
\<close>

definition interrupt_descriptions :: "string list" where
  "interrupt_descriptions =
     [''Divide Error.'' @ [CHR 10],
      ''Debug Exception.'' @ [CHR 10],
      ''NMI Interrupt.'' @ [CHR 10],
      ''Breakpoint.'' @ [CHR 10],
      ''Overflow.'' @ [CHR 10],
      ''BOUND Range Exceeded.'' @ [CHR 10],
      ''Invalid Opcode.'' @ [CHR 10],
      ''Device Not Available (No Math Coprocessor).'' @ [CHR 10],
      ''Double Fault: err=%d'' @ [CHR 10],
      ''Coprocessor Segment Overrun.'' @ [CHR 10],
      ''Invalid TSS: err=%d'' @ [CHR 10],
      ''Segment Not Present: err=%d'' @ [CHR 10],
      ''Stack-Segment Fault: err=%d'' @ [CHR 10],
      ''General Protection Fault: err=%d'' @ [CHR 10],
      ''Page Fault: err=%d, CR2=%x'' @ [CHR 10],
      ''Intel reserved. This shouldn'' @ [CHR 39] @ ''t come up.'' @ [CHR 10],
      ''x87 FPU Floating-Point Error (Math Fault).'' @ [CHR 10],
      ''Alignment Check: err=%d'' @ [CHR 10],
      ''Machine Check.'' @ [CHR 10],
      ''SIMD Floating-Point Exception.'' @ [CHR 10],
      ''Virtualization Exception.'' @ [CHR 10] @ ''Control Protection Exception: err=%d'' @ [CHR 10],
      ''Reserved for future use. This shouldn'' @ [CHR 39] @ ''t come up.'' @ [CHR 10],
      ''External Interrupt: %d'' @ [CHR 10],
      ''An unknown Exception / Interrupt occured: int=%d, errno=%d'' @ [CHR 10]]"

abbreviation (input) INT_DESCRIPTION_UNKNOWN_EXCEPTION :: nat where "INT_DESCRIPTION_UNKNOWN_EXCEPTION \<equiv> 24"

text \<open>Element \<open>v\<close> as a string; \<open>None\<close> for the null pointer and outside the array.\<close>

definition description :: "nat \<Rightarrow> u8 list option" where
  "description v = (if v < length interrupt_descriptions then Some (literal (interrupt_descriptions ! v)) else None)"

text \<open>
  The enumerators of \<open>enum interrupts\<close>, whose positions are the vectors: the exceptions and the external
  interrupts.
\<close>

definition exception_vectors :: "string list" where
  "exception_vectors =
     [''INT_DIVIDE_ERR'', ''INT_DEBUG_EXCEPTION'', ''INT_NMI_INT'', ''INT_BREAKPOINT'', ''INT_OVERFLOW'',
      ''INT_BOUND_RANGE_EXCEEDED'', ''INT_INVALID_OPCODE'', ''INT_NO_MATH_COPROCESSOR'',
      ''INT_DOUBLE_FAULT'', ''INT_COPROCESSOR_SEG_OVERRUN'', ''INT_INVALID_TSS'',
      ''INT_SEGMENT_NOT_PRESENT'', ''INT_STACK_SEGMENT_FAULT'', ''INT_GENERAL_PROTECTION_FAULT'',
      ''INT_PAGE_FAULT'', ''INT_RESERVED0'', ''INT_FPU_FLOATING_POINT_ERR'', ''INT_ALIGNMENT_CHECK'',
      ''INT_MACHINE_CHECK'', ''INT_SIMD_FLOATING_POINT_EXCEPTION'', ''INT_VIRTUALIZATION_EXCEPTION'',
      ''INT_CONTROL_PROTECTION_EXCEPTION'', ''INT_RESERVED1'', ''INT_RESERVED2'', ''INT_RESERVED3'',
      ''INT_RESERVED4'', ''INT_RESERVED5'', ''INT_RESERVED6'', ''INT_RESERVED7'', ''INT_RESERVED8'',
      ''INT_RESERVED9'', ''INT_RESERVED10'']"

definition external_vectors :: "string list" where
  "external_vectors =
     [''INT_EXT_INT0'', ''INT_EXT_INT1'', ''INT_EXT_INT2'', ''INT_EXT_INT3'', ''INT_EXT_INT4'',
      ''INT_EXT_INT5'', ''INT_EXT_INT6'', ''INT_EXT_INT7'', ''INT_EXT_INT8'', ''INT_EXT_INT9'',
      ''INT_EXT_INT10'', ''INT_EXT_INT11'', ''INT_EXT_INT12'', ''INT_EXT_INT13'', ''INT_EXT_INT14'',
      ''INT_EXT_INT15'', ''INT_EXT_INT16'', ''INT_EXT_INT17'', ''INT_EXT_INT18'', ''INT_EXT_INT19'',
      ''INT_EXT_INT20'', ''INT_EXT_INT21'', ''INT_EXT_INT22'', ''INT_EXT_INT23'', ''INT_EXT_INT24'',
      ''INT_EXT_INT25'', ''INT_EXT_INT26'', ''INT_EXT_INT27'', ''INT_EXT_INT28'', ''INT_EXT_INT29'',
      ''INT_EXT_INT30'', ''INT_EXT_INT31'', ''INT_EXT_INT32'', ''INT_EXT_INT33'', ''INT_EXT_INT34'',
      ''INT_EXT_INT35'', ''INT_EXT_INT36'', ''INT_EXT_INT37'', ''INT_EXT_INT38'', ''INT_EXT_INT39'',
      ''INT_EXT_INT40'', ''INT_EXT_INT41'', ''INT_EXT_INT42'', ''INT_EXT_INT43'', ''INT_EXT_INT44'',
      ''INT_EXT_INT45'', ''INT_EXT_INT46'', ''INT_EXT_INT47'', ''INT_EXT_INT48'', ''INT_EXT_INT49'',
      ''INT_EXT_INT50'', ''INT_EXT_INT51'', ''INT_EXT_INT52'', ''INT_EXT_INT53'', ''INT_EXT_INT54'',
      ''INT_EXT_INT55'', ''INT_EXT_INT56'', ''INT_EXT_INT57'', ''INT_EXT_INT58'', ''INT_EXT_INT59'',
      ''INT_EXT_INT60'', ''INT_EXT_INT61'', ''INT_EXT_INT62'', ''INT_EXT_INT63'', ''INT_EXT_INT64'',
      ''INT_EXT_INT65'', ''INT_EXT_INT66'', ''INT_EXT_INT67'', ''INT_EXT_INT68'', ''INT_EXT_INT69'',
      ''INT_EXT_INT70'', ''INT_EXT_INT71'', ''INT_EXT_INT72'', ''INT_EXT_INT73'', ''INT_EXT_INT74'',
      ''INT_EXT_INT75'', ''INT_EXT_INT76'', ''INT_EXT_INT77'', ''INT_EXT_INT78'', ''INT_EXT_INT79'',
      ''INT_EXT_INT80'', ''INT_EXT_INT81'', ''INT_EXT_INT82'', ''INT_EXT_INT83'', ''INT_EXT_INT84'',
      ''INT_EXT_INT85'', ''INT_EXT_INT86'', ''INT_EXT_INT87'', ''INT_EXT_INT88'', ''INT_EXT_INT89'',
      ''INT_EXT_INT90'', ''INT_EXT_INT91'', ''INT_EXT_INT92'', ''INT_EXT_INT93'', ''INT_EXT_INT94'',
      ''INT_EXT_INT95'', ''INT_EXT_INT96'', ''INT_EXT_INT97'', ''INT_EXT_INT98'', ''INT_EXT_INT99'',
      ''INT_EXT_INT100'', ''INT_EXT_INT101'', ''INT_EXT_INT102'', ''INT_EXT_INT103'', ''INT_EXT_INT104'',
      ''INT_EXT_INT105'', ''INT_EXT_INT106'', ''INT_EXT_INT107'', ''INT_EXT_INT108'', ''INT_EXT_INT109'',
      ''INT_EXT_INT110'', ''INT_EXT_INT111'', ''INT_EXT_INT112'', ''INT_EXT_INT113'', ''INT_EXT_INT114'',
      ''INT_EXT_INT115'', ''INT_EXT_INT116'', ''INT_EXT_INT117'', ''INT_EXT_INT118'', ''INT_EXT_INT119'',
      ''INT_EXT_INT120'', ''INT_EXT_INT121'', ''INT_EXT_INT122'', ''INT_EXT_INT123'', ''INT_EXT_INT124'',
      ''INT_EXT_INT125'', ''INT_EXT_INT126'', ''INT_EXT_INT127'', ''INT_EXT_INT128'', ''INT_EXT_INT129'',
      ''INT_EXT_INT130'', ''INT_EXT_INT131'', ''INT_EXT_INT132'', ''INT_EXT_INT133'', ''INT_EXT_INT134'',
      ''INT_EXT_INT135'', ''INT_EXT_INT136'', ''INT_EXT_INT137'', ''INT_EXT_INT138'', ''INT_EXT_INT139'',
      ''INT_EXT_INT140'', ''INT_EXT_INT141'', ''INT_EXT_INT142'', ''INT_EXT_INT143'', ''INT_EXT_INT144'',
      ''INT_EXT_INT145'', ''INT_EXT_INT146'', ''INT_EXT_INT147'', ''INT_EXT_INT148'', ''INT_EXT_INT149'',
      ''INT_EXT_INT150'', ''INT_EXT_INT151'', ''INT_EXT_INT152'', ''INT_EXT_INT153'', ''INT_EXT_INT154'',
      ''INT_EXT_INT155'', ''INT_EXT_INT156'', ''INT_EXT_INT157'', ''INT_EXT_INT158'', ''INT_EXT_INT159'',
      ''INT_EXT_INT160'', ''INT_EXT_INT161'', ''INT_EXT_INT162'', ''INT_EXT_INT163'', ''INT_EXT_INT164'',
      ''INT_EXT_INT165'', ''INT_EXT_INT166'', ''INT_EXT_INT167'', ''INT_EXT_INT168'', ''INT_EXT_INT169'',
      ''INT_EXT_INT170'', ''INT_EXT_INT171'', ''INT_EXT_INT172'', ''INT_EXT_INT173'', ''INT_EXT_INT174'',
      ''INT_EXT_INT175'', ''INT_EXT_INT176'', ''INT_EXT_INT177'', ''INT_EXT_INT178'', ''INT_EXT_INT179'',
      ''INT_EXT_INT180'', ''INT_EXT_INT181'', ''INT_EXT_INT182'', ''INT_EXT_INT183'', ''INT_EXT_INT184'',
      ''INT_EXT_INT185'', ''INT_EXT_INT186'', ''INT_EXT_INT187'', ''INT_EXT_INT188'', ''INT_EXT_INT189'',
      ''INT_EXT_INT190'', ''INT_EXT_INT191'', ''INT_EXT_INT192'', ''INT_EXT_INT193'', ''INT_EXT_INT194'',
      ''INT_EXT_INT195'', ''INT_EXT_INT196'', ''INT_EXT_INT197'', ''INT_EXT_INT198'', ''INT_EXT_INT199'',
      ''INT_EXT_INT200'', ''INT_EXT_INT201'', ''INT_EXT_INT202'', ''INT_EXT_INT203'', ''INT_EXT_INT204'',
      ''INT_EXT_INT205'', ''INT_EXT_INT206'', ''INT_EXT_INT207'', ''INT_EXT_INT208'', ''INT_EXT_INT209'',
      ''INT_EXT_INT210'', ''INT_EXT_INT211'', ''INT_EXT_INT212'', ''INT_EXT_INT213'', ''INT_EXT_INT214'',
      ''INT_EXT_INT215'', ''INT_EXT_INT216'', ''INT_EXT_INT217'', ''INT_EXT_INT218'', ''INT_EXT_INT219'',
      ''INT_EXT_INT220'', ''INT_EXT_INT221'', ''INT_EXT_INT222'', ''INT_EXT_INT224'']"

definition interrupt_vectors :: "string list" where
  "interrupt_vectors = exception_vectors @ external_vectors"

text \<open>The vectors of the cases of the handler.\<close>

definition exceptions_without_code :: "nat list" where
  "exceptions_without_code =
     [0, 1, 2, 3, 4, 5, 6, 7, 9, 15, 16, 18, 19, 20, 22, 23, 24, 25, 26, 27, 28, 29, 30, 31]"

definition exceptions_with_code :: "nat list" where
  "exceptions_with_code = [8, 10, 11, 12, 13, 17, 21]"

abbreviation (input) INT_PAGE_FAULT :: nat where "INT_PAGE_FAULT \<equiv> 14"
abbreviation (input) INT_EXT_INT0 :: nat where "INT_EXT_INT0 \<equiv> 32"
abbreviation (input) INT_EXT_INT1 :: nat where "INT_EXT_INT1 \<equiv> 33"
abbreviation (input) INT_EXT_INT15 :: nat where "INT_EXT_INT15 \<equiv> 47"

text \<open>
  The parts of the kernel the handler reaches, and what it finds around it: the devices, the log
  backend, the register CR2, the names of the source files and the contents of the stack where the
  number buffers lie.
\<close>

record kernel =
  k_terminal :: terminal
  k_kbd :: ps2_kbd_driver
  k_trace :: io_trace

record handler_env =
  he_dev :: device
  he_backend :: "io_trace logging_backend"
  he_cr2 :: u64
  he_file :: "u8 list"
  he_log_file :: "u8 list"
  he_stack :: "u8 list"

text \<open>\<open>read_cr2\<close> (registers.h): the processor sets CR2 at a page fault.\<close>

abbreviation (input) read_cr2 :: "handler_env \<Rightarrow> u64" where "read_cr2 env \<equiv> he_cr2 env"

datatype after_interrupt = Resumed kernel | Halted kernel

definition log_msg :: "handler_env \<Rightarrow> logging_level_t \<Rightarrow> u8 list \<Rightarrow> format_arg list \<Rightarrow> kernel \<Rightarrow> kernel option" where
  "log_msg env level msg list k =
     map_option (\<lambda>tr. k\<lparr>k_trace := tr\<rparr>)
       (logging_log_msg (he_log_file env) (he_stack env) (he_backend env) level (he_file env) msg list (k_trace k))"

text \<open>Logging an error with a description, then \<open>hcf\<close>.\<close>

definition log_and_halt :: "handler_env \<Rightarrow> nat \<Rightarrow> format_arg list \<Rightarrow> kernel \<Rightarrow> after_interrupt option" where
  "log_and_halt env index list k =
     do {
       desc \<leftarrow> description index;
       k \<leftarrow> log_msg env LOGGING_LEVEL_ERROR desc list k;
       Some (Halted k)
     }"

definition send_eoi :: "u8 \<Rightarrow> kernel \<Rightarrow> kernel" where
  "send_eoi irq k = k\<lparr>k_trace := pic_send_eoi irq (k_trace k)\<rparr>"

text \<open>The loop over the key events at a timer interrupt.\<close>

partial_function (option) print_key_events :: "handler_env \<Rightarrow> kernel \<Rightarrow> kernel option" where
  [code]: "print_key_events env k =
     do {
       (c, e, buf) \<leftarrow> kbd_get_key_event_from_buffer (ps2_kbd_buffer (k_kbd k));
       let k = k\<lparr>k_kbd := (k_kbd k)\<lparr>ps2_kbd_buffer := buf\<rparr>\<rparr>;
       if c = KBD_ERROR_KEY_EVENT_BUFFER_EMPTY then Some k
       else do {
         key_event \<leftarrow> e;
         s \<leftarrow> kbd_key_event_to_ascii key_event;
         (_, _, t) \<leftarrow> printf (literal ''%s'') [Str (literal s)] (he_stack env) (k_terminal k);
         k \<leftarrow> log_msg env LOGGING_LEVEL_INFO (literal ''%s'') [Str (literal s)] (k\<lparr>k_terminal := t\<rparr>);
         print_key_events env k
       }
     }"

text \<open>\<open>"EXT2\n"\<close> to \<open>"EXT15\n"\<close>.\<close>

definition ext_message :: "nat \<Rightarrow> u8 list" where
  "ext_message irq =
     literal (''EXT'' @ [''0'', ''1'', ''2'', ''3'', ''4'', ''5'', ''6'', ''7'', ''8'', ''9'', ''10'', ''11'',
       ''12'', ''13'', ''14'', ''15''] ! irq @ [CHR 10])"

definition interrupt_handler :: "handler_env \<Rightarrow> u64 \<Rightarrow> u64 \<Rightarrow> kernel \<Rightarrow> after_interrupt option" where
  "interrupt_handler env interrupt_vector error_code k =
     (let v = unat interrupt_vector in
      if v \<in> set exceptions_without_code then log_and_halt env v [] k
      else if v \<in> set exceptions_with_code then log_and_halt env v [Word error_code] k
      else if v = INT_PAGE_FAULT then log_and_halt env v [Word error_code, Word (read_cr2 env)] k
      else if v = INT_EXT_INT0 then
        do {
          k \<leftarrow> print_key_events env k;
          Some (Resumed (send_eoi 0 k))
        }
      else if v = INT_EXT_INT1 then
        do {
          (kbd, tr) \<leftarrow> ps2_kbd_irq_callback (he_dev env) (k_kbd k) (k_trace k);
          Some (Resumed (send_eoi 1 (k\<lparr>k_kbd := kbd, k_trace := tr\<rparr>)))
        }
      else if INT_EXT_INT1 < v \<and> v \<le> INT_EXT_INT15 then
        do {
          k \<leftarrow> log_msg env LOGGING_LEVEL_DEBUG (ext_message (v - INT_EXT_INT0)) [] k;
          Some (Resumed (send_eoi (of_nat (v - INT_EXT_INT0)) k))
        }
      else log_and_halt env INT_DESCRIPTION_UNKNOWN_EXCEPTION [Word interrupt_vector, Word error_code] k)"

text \<open>A sequence of interrupts that are all returned from.\<close>

fun interrupts :: "(handler_env \<times> u64) list \<Rightarrow> kernel \<Rightarrow> kernel option" where
  "interrupts [] k = Some k"
| "interrupts ((env, v) # is) k =
     (case interrupt_handler env v 0 k of Some (Resumed k) \<Rightarrow> interrupts is k | _ \<Rightarrow> None)"

section \<open>Vectors\<close>

text \<open>The numbers above are those of the enumerators that the switch of the handler names.\<close>

lemma exception_cases:
  "map ((!) interrupt_vectors) exceptions_without_code =
     [''INT_DIVIDE_ERR'', ''INT_DEBUG_EXCEPTION'', ''INT_NMI_INT'', ''INT_BREAKPOINT'', ''INT_OVERFLOW'',
      ''INT_BOUND_RANGE_EXCEEDED'', ''INT_INVALID_OPCODE'', ''INT_NO_MATH_COPROCESSOR'',
      ''INT_COPROCESSOR_SEG_OVERRUN'', ''INT_RESERVED0'', ''INT_FPU_FLOATING_POINT_ERR'',
      ''INT_MACHINE_CHECK'', ''INT_SIMD_FLOATING_POINT_EXCEPTION'', ''INT_VIRTUALIZATION_EXCEPTION'',
      ''INT_RESERVED1'', ''INT_RESERVED2'', ''INT_RESERVED3'', ''INT_RESERVED4'', ''INT_RESERVED5'',
      ''INT_RESERVED6'', ''INT_RESERVED7'', ''INT_RESERVED8'', ''INT_RESERVED9'', ''INT_RESERVED10'']"
  "map ((!) interrupt_vectors) exceptions_with_code =
     [''INT_DOUBLE_FAULT'', ''INT_INVALID_TSS'', ''INT_SEGMENT_NOT_PRESENT'', ''INT_STACK_SEGMENT_FAULT'',
      ''INT_GENERAL_PROTECTION_FAULT'', ''INT_ALIGNMENT_CHECK'', ''INT_CONTROL_PROTECTION_EXCEPTION'']"
  "interrupt_vectors ! INT_PAGE_FAULT = ''INT_PAGE_FAULT''"
  by code_simp+

lemma external_cases:
  "interrupt_vectors ! INT_EXT_INT0 = ''INT_EXT_INT0''" "interrupt_vectors ! INT_EXT_INT1 = ''INT_EXT_INT1''"
  "interrupt_vectors ! INT_EXT_INT15 = ''INT_EXT_INT15''"
  by code_simp+

text \<open>
  The enum has a name for each of the 256 vectors, but skips 223: the last one is that of the external
  interrupt 223 and is called 224.
\<close>

lemma last_vector_name:
  "length interrupt_vectors = 256" "interrupt_vectors ! 254 = ''INT_EXT_INT222''" "interrupt_vectors ! 255 = ''INT_EXT_INT224''"
  by code_simp+

section \<open>Logging and printing in the handler\<close>

text \<open>A backend whose writes return, string constants for the file names, and a stack buffer.\<close>

definition env_ok :: "handler_env \<Rightarrow> bool" where
  "env_ok env \<longleftrightarrow> (\<forall>c tr. \<exists>tr'. log_put (he_backend env) c tr = Some tr') \<and>
     name_ok (he_file env) \<and> name_ok (he_log_file env) \<and> length (he_stack env) = MAX_FORMAT_STRING_LENGTH"

definition string_ok :: "string \<Rightarrow> bool" where
  "string_ok s \<longleftrightarrow> 0 \<notin> set (bytes s) \<and> length s < 2 ^ 32"

interpretation env_sink: byte_sink "\<lambda>_. env_ok env" "log_put (he_backend env)" for env
  by unfold_locales (simp add: env_ok_def)

lemma log_msg_text:
  assumes "env_ok env" "logged (parse msg) list = Some (xs, e)" "0 \<notin> set msg" "length msg < 2 ^ 32"
    "he_file env = fname @ [0]" "he_log_file env = this_file @ [0]"
  shows "log_msg env level (msg @ [0]) list k =
    (if level_number level < level_number (backend_level (he_backend env)) then Some k
     else map_option (\<lambda>tr. k\<lparr>k_trace := tr\<rparr>)
       (puts (log_put (he_backend env)) (line_text level fname (reported_text this_file xs e)) (k_trace k)))"
proof -
  have names: "0 \<notin> set fname" "length (fname @ 0 # []) < 2 ^ 63" "0 \<notin> set this_file" "length (this_file @ 0 # []) < 2 ^ 63"
    using assms(1,5,6) by (auto simp: env_ok_def name_ok_def)
  have m: "length (msg @ 0 # []) < 2 ^ 63" and s: "length (he_stack env) = MAX_FORMAT_STRING_LENGTH"
    using assms(1,4) by (simp_all add: env_ok_def)
  show ?thesis
    unfolding log_msg_def assms(5,6) logging_log_msg_text [OF assms(2,3) m s names] by simp
qed

lemma log_msg_total:
  assumes "env_ok env" "logged (parse msg) list = Some (xs, e)" "0 \<notin> set msg" "length msg < 2 ^ 32"
  shows "\<exists>tr'. log_msg env level (msg @ [0]) list k = Some (k\<lparr>k_trace := tr'\<rparr>)"
proof -
  have "length (he_stack env) = MAX_FORMAT_STRING_LENGTH" "name_ok (he_file env)" "name_ok (he_log_file env)"
    using assms(1) by (simp_all add: env_ok_def)
  from env_sink.log_returns [OF refl assms this] obtain tr'
    where "logging_log_msg (he_log_file env) (he_stack env) (he_backend env) level (he_file env) (msg @ [0]) list
      (k_trace k) = Some tr'" by blast
  then have "log_msg env level (msg @ [0]) list k = Some (k\<lparr>k_trace := tr'\<rparr>)" by (simp add: log_msg_def)
  then show ?thesis by blast
qed

lemma percent_s: "bytes ''%s'' = [37, 115]"
  by (simp add: bytes_def)

lemma string_text:
  assumes "string_ok s"
  shows "conversion_text p FORMAT_STRING (Str (literal s)) = Some (bytes s)"
proof -
  have "takeWhile (\<lambda>b. b \<noteq> 0) (bytes s @ [0]) = bytes s"
    by (rule takeWhile_string) (use assms in \<open>simp add: string_ok_def\<close>)
  then show ?thesis using assms by (simp add: string_ok_def literal_def)
qed

lemma print_string:
  assumes "string_ok s" "terminal_ok t" "length buf = MAX_FORMAT_STRING_LENGTH"
  shows "\<exists>r t'. printf (literal ''%s'') [Str (literal s)] buf t = Some (r, [], t') \<and>
    puts terminal_put_char (bytes s) t = Some t' \<and> terminal_ok t'"
proof -
  have "printed (parse [37, 115]) [Str (literal s)] 0 = Some (bytes s, counted FORMAT_STRING (bytes s), [])"
    using string_text [OF assms(1), of 0] by (simp add: takes_argument_def del: conversion_text.simps)
  from printf_printed [OF this assms(2) _ _ assms(3), of "[]"] show ?thesis
    by (auto simp: literal_def [of "''%s''"] percent_s)
qed

lemma log_string_total:
  assumes "string_ok s" "env_ok env"
  shows "\<exists>tr'. log_msg env level (literal ''%s'') [Str (literal s)] k = Some (k\<lparr>k_trace := tr'\<rparr>)"
proof -
  have "logged (parse [37, 115]) [Str (literal s)] = Some (bytes s, None)"
    using string_text [OF assms(1), of 0] by (simp add: takes_argument_def del: conversion_text.simps)
  from log_msg_total [OF assms(2) this] show ?thesis by (simp add: literal_def [of "''%s''"] percent_s)
qed

section \<open>The timer interrupt\<close>

text \<open>The characters of a key event, all of them printable with \<open>%s\<close>.\<close>

definition has_text :: "key_event_t \<Rightarrow> bool" where
  "has_text e \<longleftrightarrow> keycode e < 256"

definition event_text :: "key_event_t \<Rightarrow> u8 list" where
  "event_text e = (case kbd_key_event_to_ascii e of None \<Rightarrow> [] | Some s \<Rightarrow> bytes s)"

lemma layouts_ok:
  "list_all (\<lambda>(k, s). string_ok s) german_normal" "list_all (\<lambda>(k, s). string_ok s) german_shift"
  "list_all (\<lambda>(k, s). string_ok s) german_altgr"
  by (simp_all add: german_normal_def german_shift_def german_altgr_def string_ok_def bytes_def)

lemma layout_string_ok:
  assumes "list_all (\<lambda>(k, s). string_ok s) table" "k < 256"
  shows "\<exists>s. layout_string table k = Some s \<and> string_ok s"
proof -
  have "string_ok s" if "map_of (rev table) k = Some s" for s
    using map_of_SomeD [OF that] assms(1) by (auto simp: list_all_iff)
  then show ?thesis using assms(2) by (auto simp: layout_string_def string_ok_def bytes_def split: option.splits)
qed

lemma event_string:
  assumes "has_text e"
  shows "\<exists>s. kbd_key_event_to_ascii e = Some s \<and> string_ok s"
proof -
  note tables = layouts_ok [THEN layout_string_ok, OF assms [unfolded has_text_def]]
  show ?thesis
    using tables by (auto simp: kbd_key_event_to_ascii_def kbd_layout_german_def string_ok_def [of "''''"] bytes_def)
qed

lemma print_key_events_prints:
  assumes "env_ok env" "terminal_ok (k_terminal k)" "kbd_inv (ps2_kbd_buffer (k_kbd k))"
    "kbd_events (ps2_kbd_buffer (k_kbd k)) = es" "list_all has_text es"
  shows "\<exists>k'. print_key_events env k = Some k' \<and>
    puts terminal_put_char (concat (map event_text es)) (k_terminal k) = Some (k_terminal k') \<and>
    terminal_ok (k_terminal k') \<and> kbd_inv (ps2_kbd_buffer (k_kbd k')) \<and>
    kbd_events (ps2_kbd_buffer (k_kbd k')) = [] \<and>
    (\<exists>buf. k_kbd k' = (k_kbd k)\<lparr>ps2_kbd_buffer := buf\<rparr>)"
  using assms
proof (induction es arbitrary: k)
  case Nil
  have "print_key_events env k = Some (k\<lparr>k_kbd := (k_kbd k)\<lparr>ps2_kbd_buffer := ps2_kbd_buffer (k_kbd k)\<rparr>\<rparr>)"
    using kbd_get_empty [OF Nil.prems(3,4)] by (subst print_key_events.simps) simp
  then show ?case using Nil.prems by (auto intro!: exI [of _ "ps2_kbd_buffer (k_kbd k)"])
next
  case (Cons e es)
  obtain buf where get: "kbd_get_key_event_from_buffer (ps2_kbd_buffer (k_kbd k)) = Some (KBD_ERROR_KEY_EVENT_BUFFER_OK, Some e, buf)"
    "kbd_inv buf" "kbd_events buf = es"
    using kbd_get_some [OF Cons.prems(3,4)] by blast
  obtain s where s: "kbd_key_event_to_ascii e = Some s" "string_ok s"
    using event_string Cons.prems(5) by auto
  have stack: "length (he_stack env) = MAX_FORMAT_STRING_LENGTH" using Cons.prems(1) by (simp add: env_ok_def)
  obtain r t where t: "printf (literal ''%s'') [Str (literal s)] (he_stack env) (k_terminal k) = Some (r, [], t)"
    "puts terminal_put_char (bytes s) (k_terminal k) = Some t" "terminal_ok t"
    using print_string [OF s(2) Cons.prems(2) stack] by blast
  let ?k = "k\<lparr>k_kbd := (k_kbd k)\<lparr>ps2_kbd_buffer := buf\<rparr>, k_terminal := t\<rparr>"
  obtain tr where tr: "log_msg env LOGGING_LEVEL_INFO (literal ''%s'') [Str (literal s)] ?k = Some (?k\<lparr>k_trace := tr\<rparr>)"
    using log_string_total [OF s(2) Cons.prems(1)] by blast
  obtain k' where k': "print_key_events env (?k\<lparr>k_trace := tr\<rparr>) = Some k'"
    "puts terminal_put_char (concat (map event_text es)) t = Some (k_terminal k')"
    "terminal_ok (k_terminal k')" "kbd_inv (ps2_kbd_buffer (k_kbd k'))" "kbd_events (ps2_kbd_buffer (k_kbd k')) = []"
    "\<exists>b. k_kbd k' = (k_kbd k)\<lparr>ps2_kbd_buffer := b\<rparr>"
    using Cons.IH [of "?k\<lparr>k_trace := tr\<rparr>"] Cons.prems(1,5) get(2,3) t(3) by auto
  have "print_key_events env k = Some k'"
    using tr k'(1) by (subst print_key_events.simps) (simp add: get(1) s(1) t(1))
  moreover have "event_text e = bytes s" by (simp add: event_text_def s(1))
  ultimately show ?case using k' t(2) by (simp add: puts_append)
qed

section \<open>The keyboard interrupt\<close>

text \<open>A controller that has one byte for the keyboard interrupt.\<close>

definition key_byte :: "u8 \<Rightarrow> device" where
  "key_byte b tr port = (if port = PS2_STATUS then 1 else b)"

lemma receive_key_byte:
  "\<exists>tr'. ps2_receive_byte (key_byte b) tr = Some ((PS2_OK, b), tr')"
proof -
  have "ready_after (key_byte b) PS2_STATUS ps2_output_buffer_full 0 tr"
    by (simp add: ready_after_def key_byte_def ps2_output_buffer_full_def)
  from poll_limited_ready [OF this PS2_TIMEOUT_pos] show ?thesis
    by (simp add: ps2_receive_byte_def port_read_byte_def key_byte_def)
qed

text \<open>The interrupts that deliver some bytes.\<close>

definition key_interrupts :: "handler_env \<Rightarrow> u8 list \<Rightarrow> (handler_env \<times> u64) list" where
  "key_interrupts env bs = map (\<lambda>b. (env\<lparr>he_dev := key_byte b\<rparr>, of_nat INT_EXT_INT1)) bs"

lemma ext_vectors:
  "32 \<notin> set exceptions_without_code" "33 \<notin> set exceptions_without_code"
  "32 \<notin> set exceptions_with_code" "33 \<notin> set exceptions_with_code"
  by (simp_all add: exceptions_without_code_def exceptions_with_code_def)

lemma keyboard_interrupt:
  assumes "ps2_kbd_process_byte b (k_kbd k) = Some kbd"
  shows "\<exists>tr. interrupt_handler (env\<lparr>he_dev := key_byte b\<rparr>) (of_nat INT_EXT_INT1) 0 k =
    Some (Resumed (k\<lparr>k_kbd := kbd, k_trace := tr\<rparr>))"
proof -
  obtain tr where "ps2_receive_byte (key_byte b) (k_trace k) = Some ((PS2_OK, b), tr)"
    using receive_key_byte by blast
  then show ?thesis
    using assms
    by (intro exI [of _ "pic_send_eoi 1 tr"])
      (simp add: interrupt_handler_def ext_vectors ps2_kbd_irq_callback_def send_eoi_def Let_def)
qed

lemma key_interrupts_run:
  assumes "append_all ps2_kbd_process_byte bs (k_kbd k) = Some kbd"
  shows "\<exists>tr. interrupts (key_interrupts env bs @ is) k = interrupts is (k\<lparr>k_kbd := kbd, k_trace := tr\<rparr>)"
  using assms
proof (induction bs arbitrary: k)
  case Nil
  then show ?case by (auto simp: key_interrupts_def intro!: exI [of _ "k_trace k"])
next
  case (Cons b bs)
  then obtain kbd1 where one: "ps2_kbd_process_byte b (k_kbd k) = Some kbd1"
    "append_all ps2_kbd_process_byte bs kbd1 = Some kbd"
    by (auto simp: bind_Some_iff)
  obtain tr where tr: "interrupt_handler (env\<lparr>he_dev := key_byte b\<rparr>) (of_nat INT_EXT_INT1) 0 k =
      Some (Resumed (k\<lparr>k_kbd := kbd1, k_trace := tr\<rparr>))"
    using keyboard_interrupt [OF one(1)] by blast
  obtain tr' where "interrupts (key_interrupts env bs @ is) (k\<lparr>k_kbd := kbd1, k_trace := tr\<rparr>) =
      interrupts is ((k\<lparr>k_kbd := kbd1, k_trace := tr\<rparr>)\<lparr>k_kbd := kbd, k_trace := tr'\<rparr>)"
    using Cons.IH [of "k\<lparr>k_kbd := kbd1, k_trace := tr\<rparr>"] one(2) by auto
  then show ?case using tr by (auto simp: key_interrupts_def)
qed

text \<open>The events the driver makes of scancodes have keys of the layout.\<close>

lemma mapping_keys: "list_all (\<lambda>(b, k). k < 256) ps2_kbd_scancode_set_1_keys"
  by (simp add: ps2_kbd_scancode_set_1_keys_def)

lemma mapping_key: "ps2_kbd_mapping_scancode_set_1_to_keycode b < 256"
proof -
  have "k < 256" if "map_of (rev ps2_kbd_scancode_set_1_keys) b = Some k" for k
    using map_of_SomeD [OF that] mapping_keys by (auto simp: list_all_iff)
  then show ?thesis
    by (auto simp: ps2_kbd_mapping_scancode_set_1_to_keycode_def split: option.splits)
qed

lemma modifiers_keep_key: "keycode (fst (ps2_kbd_set_modifiers e ms)) = keycode e"
  by (simp add: ps2_kbd_set_modifiers_def apply_toggled_modifiers_mask_def
    apply_pressed_released_modifiers_mask_def Let_def)

lemma events_of_text: "list_all (\<lambda>(k, p). k < 256) ks \<Longrightarrow> list_all has_text (fst (events_of ks ms))"
proof (induction ks arbitrary: ms)
  case (Cons kp ks)
  obtain k p where kp: "kp = (k, p)" by (cases kp)
  obtain e ms1 where e: "ps2_kbd_set_modifiers \<lparr>keycode = k, pressed = p, modifiers = 0\<rparr> ms = (e, ms1)" by fastforce
  obtain es ms2 where es: "events_of ks ms1 = (es, ms2)" by fastforce
  have "keycode e = k" using modifiers_keep_key [of "\<lparr>keycode = k, pressed = p, modifiers = 0\<rparr>" ms] by (simp add: e)
  then show ?case using Cons.IH [of ms1] Cons.prems by (simp add: kp e es has_text_def)
qed simp

lemma reported_keys: "list_all (\<lambda>(k, p). k < 256) (reported sc)"
  by (cases sc) (simp_all add: mapping_key)

lemma reported_all_keys: "list_all (\<lambda>(k, p). k < 256) (concat (map reported scs))"
  by (induction scs) (simp_all add: reported_keys)

section \<open>Properties\<close>

lemma typed_keys_printed:
  assumes "env_ok env" "terminal_ok (k_terminal k)" "driver_ok (k_kbd k)"
    "kbd_events (ps2_kbd_buffer (k_kbd k)) = []" "list_all valid_scancode scs"
    "events_of (concat (map reported scs)) (ps2_kbd_modifiers (k_kbd k)) = (es, ms)" "length es \<le> 32"
  shows "\<exists>k'. interrupts (key_interrupts env (concat (map encode scs)) @ [(env, of_nat INT_EXT_INT0)]) k = Some k' \<and>
    puts terminal_put_char (concat (map event_text es)) (k_terminal k) = Some (k_terminal k') \<and>
    driver_ok (k_kbd k') \<and> kbd_events (ps2_kbd_buffer (k_kbd k')) = [] \<and> ps2_kbd_modifiers (k_kbd k') = ms"
proof -
  obtain kbd where kbd: "append_all ps2_kbd_process_byte (concat (map encode scs)) (k_kbd k) = Some kbd"
    "driver_reported (concat (map reported scs)) (k_kbd k) kbd"
    using decode_scancodes [OF assms(3,5)] by blast
  then have ok: "driver_ok kbd" "kbd_events (ps2_kbd_buffer kbd) = es" "ps2_kbd_modifiers kbd = ms"
    using assms(4,6,7) by (simp_all add: driver_reported_def latest_short)
  obtain tr where tr: "interrupts (key_interrupts env (concat (map encode scs)) @ [(env, of_nat INT_EXT_INT0)]) k =
      interrupts [(env, of_nat INT_EXT_INT0)] (k\<lparr>k_kbd := kbd, k_trace := tr\<rparr>)"
    using key_interrupts_run [OF kbd(1)] by blast
  have texts: "list_all has_text es" using events_of_text [OF reported_all_keys] assms(6) by (metis fst_conv)
  let ?k = "k\<lparr>k_kbd := kbd, k_trace := tr\<rparr>"
  obtain k' where k': "print_key_events env ?k = Some k'"
    "puts terminal_put_char (concat (map event_text es)) (k_terminal k) = Some (k_terminal k')"
    "kbd_inv (ps2_kbd_buffer (k_kbd k'))" "kbd_events (ps2_kbd_buffer (k_kbd k')) = []"
    "\<exists>buf. k_kbd k' = kbd\<lparr>ps2_kbd_buffer := buf\<rparr>"
    using print_key_events_prints [OF assms(1), of ?k es] assms(2) ok texts by (auto simp: driver_ok_def)
  have "interrupt_handler env (of_nat INT_EXT_INT0) 0 ?k = Some (Resumed (send_eoi 0 k'))"
    using k'(1) by (simp add: interrupt_handler_def ext_vectors)
  then have "interrupts [(env, of_nat INT_EXT_INT0)] ?k = Some (send_eoi 0 k')" by simp
  then show ?thesis using tr k' ok(1,3) by (intro exI [of _ "send_eoi 0 k'"]) (auto simp: send_eoi_def driver_ok_def)
qed

text \<open>A session: what is typed between two timer interrupts, again and again.\<close>

definition typing_session :: "handler_env \<Rightarrow> scancode list list \<Rightarrow> (handler_env \<times> u64) list" where
  "typing_session env batches =
     concat (map (\<lambda>scs. key_interrupts env (concat (map encode scs)) @ [(env, of_nat INT_EXT_INT0)]) batches)"

definition batch_ok :: "scancode list \<Rightarrow> bool" where
  "batch_ok scs \<longleftrightarrow> list_all valid_scancode scs \<and> length (concat (map reported scs)) \<le> 32"

lemma interrupts_append: "interrupts (is @ js) k = Option.bind (interrupts is k) (interrupts js)"
  by (induction "is" k rule: interrupts.induct) (simp_all split: option.split after_interrupt.split)

lemma length_events_of: "events_of ks ms = (es, ms') \<Longrightarrow> length es = length ks"
  by (induction ks ms arbitrary: es rule: events_of.induct) (auto simp: Let_def split: prod.splits)

lemma session_printed:
  assumes "env_ok env" "terminal_ok (k_terminal k)" "driver_ok (k_kbd k)"
    "kbd_events (ps2_kbd_buffer (k_kbd k)) = []" "list_all batch_ok batches"
    "events_of (concat (map reported (concat batches))) (ps2_kbd_modifiers (k_kbd k)) = (es, ms)"
  shows "\<exists>k'. interrupts (typing_session env batches) k = Some k' \<and>
    puts terminal_put_char (concat (map event_text es)) (k_terminal k) = Some (k_terminal k')"
  using assms(2-)
proof (induction batches arbitrary: k es)
  case Nil
  then show ?case by (simp add: typing_session_def)
next
  case (Cons scs batches)
  obtain es1 ms1 where e1: "events_of (concat (map reported scs)) (ps2_kbd_modifiers (k_kbd k)) = (es1, ms1)" by fastforce
  obtain es2 ms2 where e2: "events_of (concat (map reported (concat batches))) ms1 = (es2, ms2)" by fastforce
  have es: "es = es1 @ es2" "ms2 = ms" using Cons.prems(5) e1 e2 by (simp_all add: events_of_append Let_def)
  have "list_all valid_scancode scs" "length es1 \<le> 32"
    using Cons.prems(4) length_events_of [OF e1] by (simp_all add: batch_ok_def)
  from typed_keys_printed [OF assms(1) Cons.prems(1-3) this(1) e1 this(2)] obtain k1 where k1:
    "interrupts (key_interrupts env (concat (map encode scs)) @ [(env, of_nat INT_EXT_INT0)]) k = Some k1"
    "puts terminal_put_char (concat (map event_text es1)) (k_terminal k) = Some (k_terminal k1)"
    "driver_ok (k_kbd k1)" "kbd_events (ps2_kbd_buffer (k_kbd k1)) = []" "ps2_kbd_modifiers (k_kbd k1) = ms1"
    by blast
  have "terminal_ok (k_terminal k1)" by (rule terminal_sink.puts_keeps [OF Cons.prems(1) k1(2)])
  then obtain k' where k': "interrupts (typing_session env batches) k1 = Some k'"
    "puts terminal_put_char (concat (map event_text es2)) (k_terminal k1) = Some (k_terminal k')"
    using Cons.IH [of k1 es2] Cons.prems(4) k1(3-5) e2 es(2) by auto
  have "interrupts (typing_session env (scs # batches)) k =
      Option.bind (interrupts (key_interrupts env (concat (map encode scs)) @ [(env, of_nat INT_EXT_INT0)]) k)
        (interrupts (typing_session env batches))"
    unfolding typing_session_def list.map concat.simps by (rule interrupts_append)
  then show ?case
    using k1(1,2) k' unfolding es(1) by (intro exI [of _ k']) (simp add: puts_append)
qed


text \<open>The state the handler keeps.\<close>

definition handler_ok :: "kernel \<Rightarrow> bool" where
  "handler_ok k \<longleftrightarrow> terminal_ok (k_terminal k) \<and> kbd_inv (ps2_kbd_buffer (k_kbd k)) \<and>
     list_all has_text (kbd_events (ps2_kbd_buffer (k_kbd k)))"

lemma process_byte_ok:
  assumes "kbd_inv (ps2_kbd_buffer st)" "list_all has_text (kbd_events (ps2_kbd_buffer st))"
  shows "\<exists>st'. ps2_kbd_process_byte b st = Some st' \<and> kbd_inv (ps2_kbd_buffer st') \<and>
    list_all has_text (kbd_events (ps2_kbd_buffer st'))"
proof (cases "ps2_kbd_next_state (ps2_kbd_state st) b")
  case (Some s)
  then show ?thesis using assms by (simp add: process_prefix)
next
  case None
  let ?r = "[(ps2_kbd_scancode_to_keycode b (ps2_kbd_state st) PS2_KBD_SCANCODE_SET_1, press_kind b)]"
  obtain st' where st': "ps2_kbd_process_byte b st = Some st'" "driver_reported ?r st st'"
    using process_complete [OF None assms(1)] by blast
  obtain es ms where es: "events_of ?r (ps2_kbd_modifiers st) = (es, ms)" by fastforce
  have "list_all (\<lambda>(k, p). k < 256) ?r"
    using mapping_key by (simp add: ps2_kbd_scancode_to_keycode_def Let_def)
  from events_of_text [OF this] have "list_all has_text es" by (metis es fst_conv)
  moreover have "kbd_events (ps2_kbd_buffer st') = latest 32 (kbd_events (ps2_kbd_buffer st) @ es)"
    using st'(2) es by (simp add: driver_reported_def)
  ultimately have "list_all has_text (kbd_events (ps2_kbd_buffer st'))"
    using assms(2) by (auto simp: latest_def list_all_iff dest: in_set_dropD)
  then show ?thesis using st' by (auto simp: driver_reported_def driver_ok_def)
qed

lemma ext_messages: "\<forall>irq\<in>set [0..<16]. 0 \<notin> set (butlast (ext_message irq)) \<and> 37 \<notin> set (ext_message irq) \<and>
    ext_message irq = butlast (ext_message irq) @ [0] \<and> length (ext_message irq) < 32"
  by code_simp

lemma ext_message_total:
  assumes "env_ok env" "irq < 16"
  shows "\<exists>tr'. log_msg env level (ext_message irq) [] k = Some (k\<lparr>k_trace := tr'\<rparr>)"
proof -
  let ?m = "butlast (ext_message irq)"
  have "irq \<in> set [0..<16]" using assms(2) by simp
  then have m: "0 \<notin> set ?m" "37 \<notin> set (ext_message irq)" "ext_message irq = ?m @ [0]" "length (ext_message irq) < 32"
    using ext_messages by blast+
  then have "37 \<notin> set ?m" "length ?m < 2 ^ 32" by (auto dest: in_set_butlastD)
  from log_msg_total [OF assms(1) parse_plain [OF this(1)] m(1) this(2)] show ?thesis
    using m(3) by metis
qed

definition acknowledged :: "nat \<Rightarrow> io_trace \<Rightarrow> bool" where
  "acknowledged irq tr \<longleftrightarrow>
     (\<exists>tr'. tr = Out PIC1_COMMAND PIC_EOI # (if 8 \<le> irq then Out PIC2_COMMAND PIC_EOI # tr' else tr'))"

lemma send_eoi_acknowledged: "irq < 16 \<Longrightarrow> acknowledged irq (k_trace (send_eoi (of_nat irq) k))"
  by (auto simp: acknowledged_def send_eoi_def pic_send_eoi_def port_write_byte_def word_less_nat_alt unat_of_nat Let_def)

lemma handler_ok_eoi [simp]: "handler_ok (send_eoi irq k) = handler_ok k"
  by (simp add: handler_ok_def send_eoi_def)

lemma external_vector:
  assumes "32 \<le> v" "v \<le> 47"
  shows "v \<notin> set exceptions_without_code" "v \<notin> set exceptions_with_code" "v \<noteq> INT_PAGE_FAULT"
  using assms by (auto simp: exceptions_without_code_def exceptions_with_code_def)

text \<open>
  With a log that takes its bytes, each of the 16 external interrupts is returned from, whatever byte the
  keyboard controller has or whether it has none; it is acknowledged at the first interrupt controller,
  and at the second one exactly if it came from there; and the terminal and the event buffer stay
  well-formed, so this goes on for any number of interrupts.
\<close>

lemma external_interrupt:
  assumes "env_ok env" "handler_ok k" "32 \<le> unat v" "unat v \<le> 47"
  shows "\<exists>k'. interrupt_handler env v err k = Some (Resumed k') \<and> handler_ok k' \<and>
    acknowledged (unat v - 32) (k_trace k')"
proof -
  note no_exception = external_vector [OF assms(3,4)]
  have irq: "unat v - 32 < 16" using assms(4) by simp
  consider "unat v = 32" | "unat v = 33" | "34 \<le> unat v" using assms(3) by linarith
  then show ?thesis
  proof cases
    case 1
    obtain k' where k': "print_key_events env k = Some k'" "terminal_ok (k_terminal k')"
      "kbd_inv (ps2_kbd_buffer (k_kbd k'))" "kbd_events (ps2_kbd_buffer (k_kbd k')) = []"
      using print_key_events_prints [OF assms(1) _ _ refl] assms(2) unfolding handler_ok_def by blast
    then show ?thesis using 1 no_exception send_eoi_acknowledged [of 0]
      by (simp add: interrupt_handler_def) (simp add: handler_ok_def)
  next
    case 2
    obtain c b tr where r: "ps2_receive_byte (he_dev env) (k_trace k) = Some ((c, b), tr)"
      using receive_total by blast
    obtain kbd where kbd: "ps2_kbd_process_byte b (k_kbd k) = Some kbd" "kbd_inv (ps2_kbd_buffer kbd)"
      "list_all has_text (kbd_events (ps2_kbd_buffer kbd))"
      using process_byte_ok assms(2) unfolding handler_ok_def by blast
    then show ?thesis using 2 r assms(2) no_exception send_eoi_acknowledged [of 1]
      by (simp add: interrupt_handler_def ps2_kbd_irq_callback_def) (simp add: handler_ok_def)
  next
    case 3
    obtain tr where tr: "log_msg env LOGGING_LEVEL_DEBUG (ext_message (unat v - 32)) [] k = Some (k\<lparr>k_trace := tr\<rparr>)"
      using ext_message_total [OF assms(1) irq] by blast
    have "interrupt_handler env v err k = Some (Resumed (send_eoi (of_nat (unat v - 32)) (k\<lparr>k_trace := tr\<rparr>)))"
      using 3 tr no_exception assms(4) by (simp add: interrupt_handler_def Let_def)
    moreover have "handler_ok (k\<lparr>k_trace := tr\<rparr>)" using assms(2) by (simp add: handler_ok_def)
    ultimately show ?thesis using send_eoi_acknowledged [OF irq] by simp
  qed
qed

lemma missing_arguments: "logged (parse (bytes (interrupt_descriptions ! v))) [] = None"
  if "v \<in> {20, 22, 23}"
proof -
  have "logged (parse (bytes (interrupt_descriptions ! 20))) [] = None"
    "logged (parse (bytes (interrupt_descriptions ! 22))) [] = None"
    "logged (parse (bytes (interrupt_descriptions ! 23))) [] = None" by code_simp+
  with that show ?thesis by auto
qed

lemma descriptions_plain:
  "\<forall>d\<in>set interrupt_descriptions. 0 \<notin> set (bytes d) \<and> length d < 128"
  by code_simp

lemma length_descriptions: "length interrupt_descriptions = 24"
  by (simp add: interrupt_descriptions_def)

text \<open>
  C39: the missing comma in the table of descriptions. The virtualization exception, the reserved
  vectors from 22 on and every vector that the handler does not know have no defined result: their
  descriptions ask for arguments that are not passed, or are a null pointer, or lie behind the table.
\<close>

theorem undescribed_interrupts_undefined:
  assumes "unat v = 20 \<or> 22 \<le> unat v \<and> unat v < 32 \<or> 48 \<le> unat v"
  shows "interrupt_handler env v err k = None"
proof -
  have none: "log_and_halt env i list k = None" if "24 \<le> i" for i list
    using that by (simp add: log_and_halt_def description_def length_descriptions)
  have missing: "log_and_halt env i [] k = None" if "i \<in> {20, 22, 23}" for i
  proof -
    let ?d = "interrupt_descriptions ! i"
    have i: "i < 24" using that by auto
    then have d: "0 \<notin> set (bytes ?d)" "length ?d < 128"
      using descriptions_plain by (simp_all add: length_descriptions)
    have "level_number (backend_level (he_backend env)) \<le> level_number LOGGING_LEVEL_ERROR"
      by (cases "backend_level (he_backend env)") simp_all
    from log_msg_missing [OF missing_arguments [OF that] d(1) _ this, of "[]"] d(2) i show ?thesis
      by (simp add: log_and_halt_def description_def length_descriptions literal_def log_msg_def)
  qed
  consider "unat v = 20" | "unat v = 22" | "unat v = 23" | "24 \<le> unat v" "unat v < 32" | "48 \<le> unat v"
    using assms by linarith
  then show ?thesis
  proof cases
    case 4
    then have "unat v \<in> {24, 25, 26, 27, 28, 29, 30, 31}" by auto
    then have "unat v \<in> set exceptions_without_code" by (auto simp: exceptions_without_code_def)
    then show ?thesis using none 4 by (simp add: interrupt_handler_def)
  next
    case 5
    then have "unat v \<notin> set exceptions_without_code" "unat v \<notin> set exceptions_with_code"
      by (auto simp: exceptions_without_code_def exceptions_with_code_def)
    then show ?thesis using none 5 by (simp add: interrupt_handler_def)
  qed (simp_all add: interrupt_handler_def exceptions_without_code_def missing)
qed

lemma undescribed_interrupts_undefined_witness: "\<forall>env k. interrupt_handler env 0x80 0 k = None"
  using undescribed_interrupts_undefined [of "0x80" _ 0] by simp

lemma page_fault_text:
  "logged (parse (bytes (interrupt_descriptions ! 14))) [Word err, Word cr2] =
     Some (bytes ''Page Fault: err='' @ signed_chars 10 (sint (ucast err :: u32)) @ bytes '', CR2='' @
       numeral_chars 16 (unat (ucast cr2 :: u32)) @ [10], None)"
  by (simp add: interrupt_descriptions_def bytes_def takes_argument_def)

text \<open>
  A page fault is logged with its error code and the address in CR2, of which only the low 32 bits
  are shown, and halts.
\<close>

theorem page_fault_is_logged:
  assumes "env_ok env" "he_file env = fname @ [0]" "he_log_file env = this_file @ [0]"
  shows "\<exists>tr'. interrupt_handler env 14 err k = Some (Halted (k\<lparr>k_trace := tr'\<rparr>)) \<and>
    puts (log_put (he_backend env)) (line_text LOGGING_LEVEL_ERROR fname
      (bytes ''Page Fault: err='' @ signed_chars 10 (sint (ucast err :: u32)) @ bytes '', CR2='' @
       numeral_chars 16 (unat (ucast (he_cr2 env) :: u32)) @ [10])) (k_trace k) = Some tr'"
proof -
  let ?d = "interrupt_descriptions ! 14"
  have "?d \<in> set interrupt_descriptions" by (rule nth_mem) (simp add: length_descriptions)
  with descriptions_plain have "0 \<notin> set (bytes ?d)" "length ?d < 128" by blast+
  then have d: "0 \<notin> set (bytes ?d)" "length (bytes ?d) < 2 ^ 32" by simp_all
  have level: "\<not> level_number LOGGING_LEVEL_ERROR < level_number (backend_level (he_backend env))"
    by (cases "backend_level (he_backend env)") simp_all
  note log = log_msg_text [OF assms(1) page_fault_text [of err "he_cr2 env"] d assms(2,3), of LOGGING_LEVEL_ERROR k,
      unfolded if_not_P [OF level] reported_text_def option.case append_Nil2]
  have "\<exists>tr'. puts (log_put (he_backend env)) xs (k_trace k) = Some tr'" for xs
    using env_sink.puts_ok [OF assms(1)] by blast
  then obtain tr' where tr': "puts (log_put (he_backend env)) (line_text LOGGING_LEVEL_ERROR fname
      (bytes ''Page Fault: err='' @ signed_chars 10 (sint (ucast err :: u32)) @ bytes '', CR2='' @
       numeral_chars 16 (unat (ucast (he_cr2 env) :: u32)) @ [10])) (k_trace k) = Some tr'"
    by blast
  moreover have "interrupt_handler env 14 err k = log_and_halt env 14 [Word err, Word (he_cr2 env)] k"
    by (simp add: interrupt_handler_def exceptions_without_code_def exceptions_with_code_def)
  moreover have "log_and_halt env 14 [Word err, Word (he_cr2 env)] k = Some (Halted (k\<lparr>k_trace := tr'\<rparr>))"
    using tr' by (simp add: log_and_halt_def description_def length_descriptions literal_def log)
  ultimately show ?thesis by simp
qed

section \<open>A sample kernel\<close>

definition demo_env :: handler_env where
  "demo_env =
     \<lparr>he_dev = key_byte 0x1e, he_backend = \<lparr>backend_write = Some (\<lambda>c tr. serial_log_write demo_serial c 0x3f8 tr),
        backend_level = LOGGING_LEVEL_DEBUG\<rparr>,
      he_cr2 = 0x123456789, he_file = [104, 0], he_log_file = [108, 0], he_stack = replicate 256 0\<rparr>"

definition demo_kernel :: kernel where
  "demo_kernel = \<lparr>k_terminal = demo_screen 40 44,
     k_kbd = ps2_kbd_boot\<lparr>ps2_kbd_state := PS2_KBD_STATE_NORMAL\<rparr>, k_trace = []\<rparr>"

lemma demo_env_ok: "env_ok demo_env"
proof -
  have "\<exists>tr'. serial_log_write demo_serial c 0x3f8 tr = Some tr'" for c tr
    using serial_send_byte_correct [of demo_serial "0x3f8" c tr] demo_serial_ready by (auto simp: serial_log_write_def)
  then show ?thesis by (simp add: env_ok_def demo_env_def log_put_def name_ok_def)
qed

lemma demo_kernel_ok: "driver_ok (k_kbd demo_kernel)" "kbd_events (ps2_kbd_buffer (k_kbd demo_kernel)) = []"
  "terminal_ok (k_terminal demo_kernel)" "handler_ok demo_kernel"
  using kbd_boot_inv demo_screen_ok(1) by (simp_all add: demo_kernel_def driver_ok_def ps2_kbd_boot_def handler_ok_def)


lemma page_fault_is_logged_witness:
  "\<exists>tr'. interrupt_handler demo_env 14 2 demo_kernel = Some (Halted (demo_kernel\<lparr>k_trace := tr'\<rparr>))"
  using page_fault_is_logged [OF demo_env_ok, of "[104]" "[108]" 2 demo_kernel] by (auto simp: demo_env_def)

end
