(* ===== verification/DescriptorTables.thy ===== *)
theory DescriptorTables
  imports Prelude
begin

text \<open>
  The descriptor tables (kernel/src/cpu/gdt.c, idt.c and their headers). The tables are lists of the
  packed structs; \<open>gdt_install\<close> and \<open>idt_install\<close> give the pointer record they load into the
  processor. The addresses of the assembly stubs are a parameter.
\<close>

section \<open>The global descriptor table\<close>

abbreviation (input) GDT_NUM_ENTRIES :: nat where "GDT_NUM_ENTRIES \<equiv> 5"

record gdt_descriptor =
  limit_low :: u16
  base_low :: u16
  base_mid :: u8
  access :: u8
  limit_high_flags :: u8
  base_high :: u8

record gdt_ptr =
  gdtr_limit :: u16
  gdtr_base :: u64

text \<open>The contents of the array at the start.\<close>

definition zero_segment :: gdt_descriptor where
  "zero_segment = \<lparr>limit_low = 0, base_low = 0, base_mid = 0, access = 0, limit_high_flags = 0, base_high = 0\<rparr>"

definition gdt_create_segment_descriptor ::
    "gdt_descriptor \<Rightarrow> u32 \<Rightarrow> u32 \<Rightarrow> u8 \<Rightarrow> u8 \<Rightarrow> gdt_descriptor" where
  "gdt_create_segment_descriptor target base limit acc flags =
     (let target = target\<lparr>base_low := ucast (base AND 0xFFFF)\<rparr>;
          target = target\<lparr>base_mid := ucast (drop_bit 16 base AND 0xFF)\<rparr>;
          target = target\<lparr>base_high := ucast (drop_bit 24 base AND 0xFF)\<rparr>;
          target = target\<lparr>limit_low := ucast (limit AND 0xFFFF)\<rparr>;
          target = target\<lparr>limit_high_flags := ucast (drop_bit 16 limit AND 0x0F)\<rparr>;
          target = target\<lparr>access := acc\<rparr>
      in target\<lparr>limit_high_flags := limit_high_flags target OR push_bit 4 (flags AND 0xF)\<rparr>)"

definition gdt_set :: "nat \<Rightarrow> u32 \<Rightarrow> u32 \<Rightarrow> u8 \<Rightarrow> u8 \<Rightarrow> gdt_descriptor list \<Rightarrow> gdt_descriptor list" where
  "gdt_set i base limit acc flags gdt = gdt[i := gdt_create_segment_descriptor (gdt ! i) base limit acc flags]"

definition gdt_init :: "gdt_descriptor list \<Rightarrow> gdt_descriptor list" where
  "gdt_init gdt =
     (let gdt = gdt_set 0 0x0 0x0 0x0 0x0 gdt;
          gdt = gdt_set 1 0x0 0xfffff 0x9a 0xa gdt;
          gdt = gdt_set 2 0x0 0xfffff 0x92 0xc gdt;
          gdt = gdt_set 3 0x0 0xfffff 0xfa 0xa gdt
      in gdt_set 4 0x0 0xfffff 0xf2 0xc gdt)"

definition gdt_install :: "u64 \<Rightarrow> gdt_ptr" where
  "gdt_install target = \<lparr>gdtr_limit = of_nat (8 * GDT_NUM_ENTRIES - 1), gdtr_base = target\<rparr>"

text \<open>What the processor reads from a descriptor: base, limit in units, privilege level, present.\<close>

definition segment_base :: "gdt_descriptor \<Rightarrow> u32" where
  "segment_base d = ucast (base_low d) OR push_bit 16 (ucast (base_mid d)) OR push_bit 24 (ucast (base_high d))"

definition segment_limit :: "gdt_descriptor \<Rightarrow> u32" where
  "segment_limit d = ucast (limit_low d) OR push_bit 16 (ucast (limit_high_flags d AND 0xF))"

definition segment_flags :: "gdt_descriptor \<Rightarrow> u8" where
  "segment_flags d = drop_bit 4 (limit_high_flags d)"

definition segment_dpl :: "gdt_descriptor \<Rightarrow> u8" where
  "segment_dpl d = drop_bit 5 (access d) AND 3"

lemma mask_numerals:
  "(0xF :: 'a::len word) = mask 4" "(0xFF :: 'a word) = mask 8" "(0xFFFF :: 'a word) = mask 16"
  by (simp_all add: mask_eq_exp_minus_1)

lemma segment_descriptor_fields:
  fixes target :: gdt_descriptor
  defines "d \<equiv> \<lambda>base limit acc flags. gdt_create_segment_descriptor target base limit acc flags"
  shows "base_low (d base limit acc flags) = ucast base"
    "base_mid (d base limit acc flags) = ucast (drop_bit 16 base)"
    "base_high (d base limit acc flags) = ucast (drop_bit 24 base)"
    "limit_low (d base limit acc flags) = ucast limit"
    "limit_high_flags (d base limit acc flags) = ucast (drop_bit 16 limit AND mask 4) OR push_bit 4 (flags AND mask 4)"
    "access (d base limit acc flags) = acc"
  unfolding d_def gdt_create_segment_descriptor_def mask_numerals
  by (auto intro!: bit_word_eqI simp: Let_def bit_simps)

section \<open>The interrupt descriptor table\<close>

abbreviation (input) IDT_ENTRIES :: nat where "IDT_ENTRIES \<equiv> 256"
abbreviation (input) IDT_GATE_TYPE_INT_GATE :: u8 where "IDT_GATE_TYPE_INT_GATE \<equiv> 0xe"

definition IDT_ATTRIBUTES :: "u8 \<Rightarrow> u8 \<Rightarrow> u8" where
  "IDT_ATTRIBUTES dpl gate_type = 0x80 OR push_bit 5 (dpl AND 0x3) OR (gate_type AND 0xf)"

record idt_gate_descriptor =
  offset_low :: u16
  segment_selector :: u16
  ist :: u8
  type_attributes :: u8
  offset_mid :: u16
  offset_high :: u32
  reserved :: u32

record idt_ptr =
  idtr_size :: u16
  idtr_offset :: u64

definition idt_create_entry ::
    "idt_gate_descriptor \<Rightarrow> u64 \<Rightarrow> u16 \<Rightarrow> u8 \<Rightarrow> u8 \<Rightarrow> idt_gate_descriptor" where
  "idt_create_entry target offset selector ist_nr attributes =
     (let target = target\<lparr>offset_low := ucast (offset AND 0xffff)\<rparr>;
          target = target\<lparr>offset_mid := ucast (drop_bit 16 offset AND 0xffff)\<rparr>;
          target = target\<lparr>offset_high := ucast (drop_bit 32 offset AND 0xffffffff)\<rparr>;
          target = target\<lparr>segment_selector := selector\<rparr>;
          target = target\<lparr>ist := ist_nr AND 0x7\<rparr>;
          target = target\<lparr>type_attributes := 0xe OR push_bit 5 (attributes AND 3) OR push_bit 7 1\<rparr>
      in target\<lparr>reserved := 0\<rparr>)"

definition zero_gate :: idt_gate_descriptor where
  "zero_gate = \<lparr>offset_low = 0, segment_selector = 0, ist = 0, type_attributes = 0, offset_mid = 0,
     offset_high = 0, reserved = 0\<rparr>"

text \<open>
  The 256 statements \<open>idt_create_entry(&idt[i], (uint64_t)_isr0x.., 0x8, 0, ..)\<close>, which differ in the
  index and the stub only, are a fold; \<open>isr i\<close> is the address of stub \<open>i\<close>.
\<close>

definition idt_init :: "(nat \<Rightarrow> u64) \<Rightarrow> idt_gate_descriptor list" where
  "idt_init isr =
     fold (\<lambda>i idt. idt[i := idt_create_entry (idt ! i) (isr i) 0x8 0 (IDT_ATTRIBUTES 0 IDT_GATE_TYPE_INT_GATE)])
       [0..<IDT_ENTRIES] (replicate IDT_ENTRIES zero_gate)"

text \<open>The second component is the interrupt flag, which \<open>cli\<close> clears.\<close>

definition idt_install :: "u64 \<Rightarrow> idt_ptr \<times> bool" where
  "idt_install target = (\<lparr>idtr_size = of_nat (16 * IDT_ENTRIES - 1), idtr_offset = target\<rparr>, False)"

text \<open>What the processor reads from a gate: handler, gate type, privilege level, present.\<close>

definition gate_handler :: "idt_gate_descriptor \<Rightarrow> u64" where
  "gate_handler d = ucast (offset_low d) OR push_bit 16 (ucast (offset_mid d)) OR push_bit 32 (ucast (offset_high d))"

definition gate_dpl :: "idt_gate_descriptor \<Rightarrow> u8" where
  "gate_dpl d = drop_bit 5 (type_attributes d) AND 3"

definition gate_type :: "idt_gate_descriptor \<Rightarrow> u8" where
  "gate_type d = type_attributes d AND 0xf"

definition gate_present :: "idt_gate_descriptor \<Rightarrow> bool" where
  "gate_present d \<longleftrightarrow> bit (type_attributes d) 7"

lemma join_64:
  "ucast (ucast w :: u16) OR push_bit 16 (ucast (ucast (drop_bit 16 w) :: u16)) OR
     push_bit 32 (ucast (ucast (drop_bit 32 w) :: u32)) = (w :: u64)"
  (is "?l = w")
proof (rule bit_word_eqI)
  fix n assume "n < LENGTH(64)"
  then have n: "n < 64" by simp
  consider "n < 16" | "16 \<le> n" "n < 32" | "32 \<le> n" by linarith
  then show "bit ?l n = bit w n"
    using n by cases (auto simp: bit_simps)
qed

lemma join_32:
  "ucast (ucast w :: u16) OR push_bit 16 (ucast (ucast (drop_bit 16 w) :: u8)) OR
     push_bit 24 (ucast (ucast (drop_bit 24 w) :: u8)) = (w :: u32)"
  (is "?l = w")
proof (rule bit_word_eqI)
  fix n assume "n < LENGTH(32)"
  then have n: "n < 32" by simp
  consider "n < 16" | "16 \<le> n" "n < 24" | "24 \<le> n" by linarith
  then show "bit ?l n = bit w n"
    using n by cases (auto simp: bit_simps)
qed

lemma gate_fields:
  fixes target :: idt_gate_descriptor
  defines "d \<equiv> \<lambda>offset selector ist_nr attributes. idt_create_entry target offset selector ist_nr attributes"
  shows "offset_low (d offset selector ist_nr attributes) = ucast offset"
    "offset_mid (d offset selector ist_nr attributes) = ucast (drop_bit 16 offset)"
    "offset_high (d offset selector ist_nr attributes) = ucast (drop_bit 32 offset)"
    "segment_selector (d offset selector ist_nr attributes) = selector"
    "ist (d offset selector ist_nr attributes) = ist_nr AND 7"
    "type_attributes (d offset selector ist_nr attributes) = 0xe OR push_bit 5 (attributes AND 3) OR push_bit 7 1"
    "reserved (d offset selector ist_nr attributes) = 0"
proof -
  have m: "(0xffff :: u64) = mask 16" "(0xffffffff :: u64) = mask 32" by (simp_all add: mask_eq_exp_minus_1)
  show "offset_low (d offset selector ist_nr attributes) = ucast offset"
    "offset_mid (d offset selector ist_nr attributes) = ucast (drop_bit 16 offset)"
    "offset_high (d offset selector ist_nr attributes) = ucast (drop_bit 32 offset)"
    unfolding d_def idt_create_entry_def m
    by (auto intro!: bit_word_eqI simp: Let_def bit_simps)
qed (simp_all add: d_def idt_create_entry_def Let_def)

lemma gate_handler_created: "gate_handler (idt_create_entry target offset selector ist_nr attributes) = offset"
  unfolding gate_handler_def gate_fields by (rule join_64)

lemma segment_base_created: "segment_base (gdt_create_segment_descriptor target base limit acc flags) = base"
  unfolding segment_base_def segment_descriptor_fields by (rule join_32)

lemma segment_limit_created:
  assumes "unat limit < 2 ^ 20"
  shows "segment_limit (gdt_create_segment_descriptor target base limit acc flags) = limit"
proof -
  have high: "\<not> bit limit n" if "20 \<le> n" for n
  proof -
    have "(2 :: nat) ^ 20 \<le> 2 ^ n" using that by (rule power_increasing) simp
    with assms have "unat limit div 2 ^ n = 0" by simp
    then have "\<not> bit (unat limit) n" by (simp add: bit_iff_odd)
    then show ?thesis by (simp add: bit_unsigned_iff bit_imp_le_length)
  qed
  have "ucast (ucast limit :: u16) OR
      push_bit 16 (ucast ((ucast (drop_bit 16 limit AND mask 4) OR push_bit 4 (flags AND mask 4)) AND mask 4 :: u8)) = limit"
    (is "?l = limit")
  proof (rule bit_word_eqI)
    fix n assume "n < LENGTH(32)"
    then have n: "n < 32" by simp
    consider "n < 16" | "16 \<le> n" "n < 20" | "20 \<le> n" by linarith
    then show "bit ?l n = bit limit n"
      using n high by cases (auto simp: bit_simps)
  qed
  then show ?thesis unfolding segment_limit_def segment_descriptor_fields mask_numerals .
qed

lemma segment_flags_created:
  "segment_flags (gdt_create_segment_descriptor target base limit acc flags) = flags AND mask 4"
  unfolding segment_flags_def segment_descriptor_fields
  by (rule bit_word_eqI) (auto simp: bit_simps)

lemma fold_update_replicate:
  "k \<le> n \<Longrightarrow> fold (\<lambda>i xs. xs[i := f i (xs ! i)]) [0..<k] (replicate n z) =
     map (\<lambda>i. f i z) [0..<k] @ replicate (n - k) z"
proof (induction k)
  case (Suc k)
  then have "replicate (n - k) z = z # replicate (n - Suc k) z"
    by (metis Suc_diff_Suc Suc_le_lessD replicate_Suc)
  with Suc show ?case by (simp add: list_update_append nth_append)
qed simp

lemma idt_init_entries:
  "idt_init isr = map (\<lambda>i. idt_create_entry zero_gate (isr i) 0x8 0 (IDT_ATTRIBUTES 0 IDT_GATE_TYPE_INT_GATE)) [0..<256]"
  unfolding idt_init_def
  using fold_update_replicate [OF order_refl, of "\<lambda>i d. idt_create_entry d (isr i) 0x8 0 (IDT_ATTRIBUTES 0 IDT_GATE_TYPE_INT_GATE)" 256 zero_gate]
  by (simp only: diff_self_eq_0 replicate_0 append_Nil2)

lemma list_all2_map_self: "(\<And>i. P (f i) i) \<Longrightarrow> list_all2 P (map f xs) xs"
  by (induction xs) simp_all

section \<open>Properties\<close>

text \<open>
  A segment descriptor holds its arguments: the processor reads back the base, the 20-bit limit,
  the flags and the access byte.
\<close>

theorem segment_descriptor_roundtrip:
  assumes "unat limit < 2 ^ 20"
  shows "segment_base (gdt_create_segment_descriptor target base limit acc flags) = base \<and>
    segment_limit (gdt_create_segment_descriptor target base limit acc flags) = limit \<and>
    segment_flags (gdt_create_segment_descriptor target base limit acc flags) = flags AND mask 4 \<and>
    access (gdt_create_segment_descriptor target base limit acc flags) = acc"
  by (simp add: segment_base_created segment_limit_created [OF assms] segment_flags_created
      segment_descriptor_fields(6))

lemma segment_descriptor_roundtrip_witness:
  "segment_limit (gdt_create_segment_descriptor undefined 0x12345678 0xfffff 0x9a 0xa) = 0xfffff"
  using segment_descriptor_roundtrip [of "0xfffff" undefined "0x12345678" "0x9a" "0xa"] by simp

text \<open>
  After \<open>idt_init\<close> each of the 256 vectors has a present interrupt gate to its own stub in the
  kernel's code segment. Its privilege level is 2 though 0 is asked for: \<open>idt_create_entry\<close> takes the
  two lowest bits of the attribute byte, which are the low bits of the gate type.
\<close>

theorem idt_init_gates:
  "length (idt_init isr) = 256 \<and>
   list_all2 (\<lambda>d i. gate_handler d = isr i \<and> gate_present d \<and> gate_type d = IDT_GATE_TYPE_INT_GATE \<and>
     segment_selector d = 0x8 \<and> gate_dpl d = 2) (idt_init isr) [0..<256]"
proof (rule conjI)
  show "length (idt_init isr) = 256" unfolding idt_init_entries by (simp only: length_map length_upt diff_zero)
  show "list_all2 (\<lambda>d i. gate_handler d = isr i \<and> gate_present d \<and> gate_type d = IDT_GATE_TYPE_INT_GATE \<and>
     segment_selector d = 0x8 \<and> gate_dpl d = 2) (idt_init isr) [0..<256]"
    unfolding idt_init_entries
    by (rule list_all2_map_self, unfold gate_handler_created gate_present_def gate_type_def gate_dpl_def
        gate_fields IDT_ATTRIBUTES_def) simp
qed

end
