(* ===== verification/Ps2Init.thy ===== *)
theory Ps2Init
  imports Ps2Keyboard Timers
begin

text \<open>
  The initialization of the PS/2 controller (\<open>ps2_init_controller\<close> of kernel/src/drivers/ps2.c), in the
  parts that its comments name. It runs the operations of Ps2, starts the driver of Ps2Keyboard and
  enables the interrupt at the controller of Timers.
\<close>

section \<open>State\<close>

record ps2_device_status =
  port_1_populated :: bool
  device_type_port_1 :: u32
  port_2_populated :: bool
  device_type_port_2 :: u32

record ps2_state =
  ps2_port_2_supported :: bool
  ps2_port_1_works :: bool
  ps2_port_2_works :: bool
  ps2_ports :: ps2_device_status
  ps2_kbd :: ps2_kbd_driver

definition ps2_boot :: ps2_state where
  "ps2_boot =
     \<lparr>ps2_port_2_supported = False, ps2_port_1_works = False, ps2_port_2_works = False,
      ps2_ports = \<lparr>port_1_populated = False, device_type_port_1 = 0, port_2_populated = False, device_type_port_2 = 0\<rparr>,
      ps2_kbd = ps2_kbd_boot\<rparr>"

text \<open>The bits of \<open>union ps2_config_byte\<close>; a clock bit of 0 means that the clock is on.\<close>

abbreviation (input) port_1_int_enabled :: nat where "port_1_int_enabled \<equiv> 0"
abbreviation (input) port_2_int_enabled :: nat where "port_2_int_enabled \<equiv> 1"
abbreviation (input) port_1_clk_enabled :: nat where "port_1_clk_enabled \<equiv> 4"
abbreviation (input) port_2_clk_enabled :: nat where "port_2_clk_enabled \<equiv> 5"
abbreviation (input) port_1_translation_enabled :: nat where "port_1_translation_enabled \<equiv> 6"

definition set_config_bit :: "nat \<Rightarrow> bool \<Rightarrow> u8 \<Rightarrow> u8" where
  "set_config_bit k v byte = (if v then byte OR push_bit k 1 else byte AND NOT (push_bit k 1))"

section \<open>The steps of the initialization\<close>

text \<open>The command to write the configuration and the byte, sent without a look at the result.\<close>

definition ps2_write_config :: "device \<Rightarrow> u8 \<Rightarrow> io_trace \<Rightarrow> io_trace option" where
  "ps2_write_config dev config_byte tr =
     do {
       tr \<leftarrow> ps2_send_command dev PS2_CMD_WRITE_CONFIG_BYTE tr;
       (_, tr) \<leftarrow> ps2_raw_send_byte dev PS2_PORT_CMD config_byte tr;
       Some tr
     }"

definition ps2_test_controller :: "device \<Rightarrow> io_trace \<Rightarrow> ((ps2_error_codes_t \<times> u8) \<times> io_trace) option" where
  "ps2_test_controller dev tr =
     do {
       tr \<leftarrow> ps2_flush_output_buffer dev tr;
       tr \<leftarrow> ps2_send_command dev PS2_CMD_DISABLE_PORT_1 tr;
       tr \<leftarrow> ps2_send_command dev PS2_CMD_DISABLE_PORT_2 tr;
       tr \<leftarrow> ps2_flush_output_buffer dev tr;
       tr \<leftarrow> ps2_send_command dev PS2_CMD_READ_CONFIG_BYTE tr;
       ((c, byte), tr) \<leftarrow> ps2_receive_byte dev tr;
       if c = PS2_ERROR_TIMEOUT then Some ((PS2_ERROR_TIMEOUT, byte), tr)
       else
         let config_byte = set_config_bit port_1_int_enabled False byte;
             config_byte = set_config_bit port_2_int_enabled False config_byte;
             config_byte = set_config_bit port_1_clk_enabled False config_byte;
             config_byte = set_config_bit port_2_clk_enabled True config_byte;
             config_byte = set_config_bit port_1_translation_enabled False config_byte
         in do {
           tr \<leftarrow> ps2_write_config dev config_byte tr;
           tr \<leftarrow> ps2_send_command dev PS2_CMD_TEST_CONTROLLER tr;
           ((c, response), tr) \<leftarrow> ps2_receive_byte dev tr;
           if c = PS2_ERROR_TIMEOUT then Some ((PS2_ERROR_TIMEOUT, config_byte), tr)
           else if response \<noteq> 0x55 then Some ((PS2_ERROR_CONTROLLER_TEST_FAILED, config_byte), tr)
           else do {
             tr \<leftarrow> ps2_write_config dev config_byte tr;
             Some ((PS2_OK, config_byte), tr)
           }
         }
     }"

definition ps2_probe_port_2 ::
    "device \<Rightarrow> u8 \<Rightarrow> ps2_state \<Rightarrow> io_trace \<Rightarrow> ((ps2_error_codes_t \<times> ps2_state) \<times> io_trace) option" where
  "ps2_probe_port_2 dev config_byte st tr =
     do {
       tr \<leftarrow> ps2_send_command dev PS2_CMD_ENABLE_PORT_2 tr;
       tr \<leftarrow> ps2_send_command dev PS2_CMD_READ_CONFIG_BYTE tr;
       ((c, response), tr) \<leftarrow> ps2_receive_byte dev tr;
       if c = PS2_ERROR_TIMEOUT then Some ((PS2_ERROR_TIMEOUT, st), tr)
       else if response AND push_bit 1 1 = 0 then
         do {
           tr \<leftarrow> ps2_send_command dev PS2_CMD_DISABLE_PORT_2 tr;
           tr \<leftarrow> ps2_write_config dev config_byte tr;
           Some ((PS2_OK, st\<lparr>ps2_port_2_supported := True\<rparr>), tr)
         }
       else Some ((PS2_OK, st\<lparr>ps2_port_2_supported := False\<rparr>), tr)
     }"

definition ps2_test_port_1 ::
    "device \<Rightarrow> ps2_state \<Rightarrow> io_trace \<Rightarrow> ((ps2_error_codes_t \<times> ps2_state) \<times> io_trace) option" where
  "ps2_test_port_1 dev st tr =
     do {
       tr \<leftarrow> ps2_send_command dev PS2_CMD_TEST_PORT_1 tr;
       ((c, response), tr) \<leftarrow> ps2_receive_byte dev tr;
       if c = PS2_ERROR_TIMEOUT then Some ((PS2_ERROR_TIMEOUT, st), tr)
       else Some ((PS2_OK, if response = 0 then st\<lparr>ps2_port_1_works := True\<rparr> else st), tr)
     }"

text \<open>The code sends \<open>PS2_CMD_TEST_PORT_1\<close> here as well.\<close>

definition ps2_test_port_2 ::
    "device \<Rightarrow> ps2_state \<Rightarrow> io_trace \<Rightarrow> ((ps2_error_codes_t \<times> ps2_state) \<times> io_trace) option" where
  "ps2_test_port_2 dev st tr =
     (if ps2_port_2_supported st then
        do {
          tr \<leftarrow> ps2_send_command dev PS2_CMD_TEST_PORT_1 tr;
          ((c, response), tr) \<leftarrow> ps2_receive_byte dev tr;
          if c = PS2_ERROR_TIMEOUT then Some ((PS2_ERROR_TIMEOUT, st), tr)
          else Some ((PS2_OK, if response = 0 then st\<lparr>ps2_port_2_works := True\<rparr> else st), tr)
        }
      else Some ((PS2_OK, st), tr))"

definition ps2_enable_ports :: "device \<Rightarrow> u8 \<Rightarrow> ps2_state \<Rightarrow> io_trace \<Rightarrow> io_trace option" where
  "ps2_enable_ports dev config_byte st tr =
     do {
       (config_byte, tr) \<leftarrow>
         (if ps2_port_1_works st then
            do {
              tr \<leftarrow> ps2_send_command dev PS2_CMD_ENABLE_PORT_1 tr;
              let config_byte = set_config_bit port_1_int_enabled True config_byte;
              Some (set_config_bit port_1_clk_enabled False config_byte, tr)
            }
          else Some (config_byte, tr));
       (config_byte, tr) \<leftarrow>
         (if ps2_port_2_works st then
            do {
              tr \<leftarrow> ps2_send_command dev PS2_CMD_ENABLE_PORT_2 tr;
              let config_byte = set_config_bit port_2_int_enabled True config_byte;
              Some (set_config_bit port_2_clk_enabled False config_byte, tr)
            }
          else Some (config_byte, tr));
       ps2_write_config dev config_byte tr
     }"

text \<open>The ports are marked as populated whether or not the reset succeeds.\<close>

definition ps2_reset_ports :: "device \<Rightarrow> ps2_state \<Rightarrow> io_trace \<Rightarrow> (ps2_state \<times> io_trace) option" where
  "ps2_reset_ports dev st tr =
     do {
       (st, tr) \<leftarrow>
         (if ps2_port_1_works st then
            do {
              (_, tr) \<leftarrow> ps2_reset_device dev PS2_PORT_1 tr;
              Some (st\<lparr>ps2_ports := (ps2_ports st)\<lparr>port_1_populated := True\<rparr>\<rparr>, tr)
            }
          else Some (st, tr));
       if ps2_port_2_works st then
         do {
           (_, tr) \<leftarrow> ps2_reset_device dev PS2_PORT_2 tr;
           Some (st\<lparr>ps2_ports := (ps2_ports st)\<lparr>port_2_populated := True\<rparr>\<rparr>, tr)
         }
       else Some (st, tr)
     }"

text \<open>Starting the driver of an identified device; there is none for mice.\<close>

definition ps2_start_driver :: "device \<Rightarrow> u32 \<Rightarrow> ps2_state \<Rightarrow> io_trace \<Rightarrow> (ps2_state \<times> io_trace) option" where
  "ps2_start_driver dev device_type st tr =
     (if ps2_device_is_keyboard device_type then
        do {
          ((_, kbd), tr) \<leftarrow> ps2_kbd_init dev PS2_PORT_1 (ps2_kbd st) tr;
          Some (st\<lparr>ps2_kbd := kbd\<rparr>, tr)
        }
      else Some (st, tr))"

text \<open>Both blocks of the code test \<open>port_1_populated\<close>, and both start the driver for port 1.\<close>

definition ps2_identify_ports :: "device \<Rightarrow> ps2_state \<Rightarrow> io_trace \<Rightarrow> (ps2_state \<times> io_trace) option" where
  "ps2_identify_ports dev st tr =
     do {
       (st, tr) \<leftarrow>
         (if port_1_populated (ps2_ports st) then
            do {
              ((_, device_type), tr) \<leftarrow> ps2_identify_device dev PS2_PORT_1 (device_type_port_1 (ps2_ports st)) tr;
              ps2_start_driver dev device_type
                (st\<lparr>ps2_ports := (ps2_ports st)\<lparr>device_type_port_1 := device_type\<rparr>\<rparr>) tr
            }
          else Some (st, tr));
       if port_1_populated (ps2_ports st) then
         do {
           ((_, device_type), tr) \<leftarrow> ps2_identify_device dev PS2_PORT_2 (device_type_port_2 (ps2_ports st)) tr;
           ps2_start_driver dev device_type
             (st\<lparr>ps2_ports := (ps2_ports st)\<lparr>device_type_port_2 := device_type\<rparr>\<rparr>) tr
         }
       else Some (st, tr)
     }"

definition ps2_init_controller ::
    "device \<Rightarrow> ps2_state \<Rightarrow> io_trace \<Rightarrow> ((ps2_error_codes_t \<times> ps2_state) \<times> io_trace) option" where
  "ps2_init_controller dev st tr =
     do {
       ((c, config_byte), tr) \<leftarrow> ps2_test_controller dev tr;
       if c \<noteq> PS2_OK then Some ((c, st), tr)
       else do {
         ((c, st), tr) \<leftarrow> ps2_probe_port_2 dev config_byte st tr;
         if c \<noteq> PS2_OK then Some ((c, st), tr)
         else do {
           ((c, st), tr) \<leftarrow> ps2_test_port_1 dev st tr;
           if c \<noteq> PS2_OK then Some ((c, st), tr)
           else do {
             ((c, st), tr) \<leftarrow> ps2_test_port_2 dev st tr;
             if c \<noteq> PS2_OK then Some ((c, st), tr)
             else if \<not> ps2_port_1_works st \<and> \<not> ps2_port_2_works st
             then Some ((PS2_ERROR_NO_WORKING_PORTS, st), tr)
             else do {
               tr \<leftarrow> ps2_enable_ports dev config_byte st tr;
               (st, tr) \<leftarrow> ps2_reset_ports dev st tr;
               (st, tr) \<leftarrow> ps2_identify_ports dev st tr;
               tr \<leftarrow> pic_enable_irq dev 1 tr;
               Some ((PS2_OK, st), tr)
             }
           }
         }
       }
     }"

section \<open>What the initialization sends\<close>

lemma flush_adds:
  assumes "ps2_flush_output_buffer dev tr = Some tr'"
  shows "(\<forall>p b. P (In p b)) \<longrightarrow> adds P tr tr'"
proof (rule ps2_flush_output_buffer.raw_induct [OF _ assms, where P = "\<lambda>dev tr tr'. (\<forall>p b. P (In p b)) \<longrightarrow> adds P tr tr'"])
  fix f dev tr tr'
  assume ih: "\<And>dev tr y. f dev tr = Some y \<Longrightarrow> (\<forall>p b. P (In p b)) \<longrightarrow> adds P tr y"
    and step: "Option.bind (port_read_byte dev PS2_STATUS tr)
      (\<lambda>(b, tr). if ps2_output_buffer_full b
        then Option.bind (port_read_byte dev PS2_DATA tr) (\<lambda>(_, tr). f dev tr) else Some tr) = Some tr'"
  show "(\<forall>p b. P (In p b)) \<longrightarrow> adds P tr tr'"
  proof
    assume p: "\<forall>p b. P (In p b)"
    let ?b = "dev tr PS2_STATUS"
    let ?tr = "In PS2_DATA (dev (In PS2_STATUS ?b # tr) PS2_DATA) # In PS2_STATUS ?b # tr"
    have a: "adds P tr ?tr" "adds P tr (In PS2_STATUS ?b # tr)" using p by simp_all
    show "adds P tr tr'"
    proof (cases "ps2_output_buffer_full ?b")
      case True
      then have "f dev ?tr = Some tr'" using step by (simp add: port_read_byte_def)
      with ih p have "adds P ?tr tr'" by blast
      with a(1) show ?thesis by (rule adds_trans)
    next
      case False
      with step a(2) show ?thesis by (simp add: port_read_byte_def)
    qed
  qed
qed

lemma emits_flush [emit_rules]:
  "io_ok P \<Longrightarrow> emits_only P tr (ps2_flush_output_buffer dev tr)"
  using flush_adds unfolding emits_only_def io_ok_def by blast

text \<open>Everything the initialization may send.\<close>

definition init_event :: "io_event \<Rightarrow> bool" where
  "init_event e = (case e of In _ _ \<Rightarrow> True | Out p b \<Rightarrow> \<not> (p = PS2_COMMAND \<and> b = PS2_CMD_TEST_PORT_2))"

lemma init_event_simps [simp]:
  "io_ok init_event" "init_event (In p b)"
  "init_event (Out p b) \<longleftrightarrow> \<not> (p = PS2_COMMAND \<and> b = PS2_CMD_TEST_PORT_2)"
  by (auto simp: init_event_def io_ok_def)

lemmas init_binds = emits_bind emits_bind_only emits_only_bind emits_only_bind_only

lemma emits_write_config [emit_rules]: "emits_only init_event tr (ps2_write_config dev config_byte tr)"
  unfolding ps2_write_config_def by (intro init_binds emit_rules case_prodI2) (auto intro: emit_rules)

lemma emits_pic_enable [emit_rules]: "emits_only init_event tr (pic_enable_irq dev irq tr)"
  by (auto simp: pic_enable_irq_def pic_line_def Let_def emits_only_def port_read_byte_def port_write_byte_def)

lemma emits_test_controller [emit_rules]: "emits init_event tr (ps2_test_controller dev tr)"
  unfolding ps2_test_controller_def Let_def
  by (auto intro!: emits_bind emits_bind_only emit_rules)

lemma emits_probe_port_2 [emit_rules]: "emits init_event tr (ps2_probe_port_2 dev config_byte st tr)"
  unfolding ps2_probe_port_2_def Let_def
  by (auto intro!: emits_bind emits_bind_only emit_rules)

lemma emits_test_port_1 [emit_rules]: "emits init_event tr (ps2_test_port_1 dev st tr)"
  unfolding ps2_test_port_1_def by (auto intro!: emits_bind emits_bind_only emit_rules)

lemma emits_test_port_2 [emit_rules]: "emits init_event tr (ps2_test_port_2 dev st tr)"
  unfolding ps2_test_port_2_def by (auto intro!: emits_bind emits_bind_only emit_rules)

lemma emits_enable_ports [emit_rules]: "emits_only init_event tr (ps2_enable_ports dev config_byte st tr)"
  unfolding ps2_enable_ports_def Let_def
  by (auto intro!: init_binds emit_rules)

lemma emits_reset_device [emit_rules]: "emits init_event tr (ps2_reset_device dev port tr)"
  unfolding ps2_reset_device_def by (auto intro!: emits_bind emit_rules)

lemma emits_reset_ports [emit_rules]: "emits init_event tr (ps2_reset_ports dev st tr)"
  unfolding ps2_reset_ports_def by (auto intro!: emits_bind emit_rules)

lemma emits_identify_device [emit_rules]: "emits init_event tr (ps2_identify_device dev port device_type tr)"
  unfolding ps2_identify_device_def Let_def
  by (auto intro!: emits_bind emits_bind_only emit_rules)

lemma emits_start_driver [emit_rules]: "emits init_event tr (ps2_start_driver dev device_type st tr)"
  unfolding ps2_start_driver_def by (auto intro!: emits_bind emit_rules)

lemma emits_identify_ports [emit_rules]: "emits init_event tr (ps2_identify_ports dev st tr)"
  unfolding ps2_identify_ports_def by (auto intro!: emits_bind emit_rules)

lemma emits_init_controller: "emits init_event tr (ps2_init_controller dev st tr)"
  unfolding ps2_init_controller_def
  by (auto intro!: emits_bind emits_bind_only emit_rules)

section \<open>What the initialization leaves in the state\<close>

lemma probe_state:
  "ps2_probe_port_2 dev config_byte st tr = Some ((c, st'), tr') \<Longrightarrow>
     \<exists>b. st' = st\<lparr>ps2_port_2_supported := b\<rparr>"
  by (auto simp: ps2_probe_port_2_def bind_eq_Some_conv split: if_splits intro: exI [of _ "ps2_port_2_supported st"])

lemma test_port_1_state:
  "ps2_test_port_1 dev st tr = Some ((c, st'), tr') \<Longrightarrow> \<exists>b. st' = st\<lparr>ps2_port_1_works := b\<rparr>"
  by (auto simp: ps2_test_port_1_def bind_eq_Some_conv split: if_splits intro: exI [of _ "ps2_port_1_works st"])

lemma test_port_2_state:
  "ps2_test_port_2 dev st tr = Some ((c, st'), tr') \<Longrightarrow> \<exists>b. st' = st\<lparr>ps2_port_2_works := b\<rparr>"
  by (auto simp: ps2_test_port_2_def bind_eq_Some_conv split: if_splits intro: exI [of _ "ps2_port_2_works st"])

lemma reset_ports_state:
  assumes "ps2_reset_ports dev st tr = Some (st', tr')"
  shows "st' = st\<lparr>ps2_ports := (ps2_ports st)
      \<lparr>port_1_populated := port_1_populated (ps2_ports st) \<or> ps2_port_1_works st,
       port_2_populated := port_2_populated (ps2_ports st) \<or> ps2_port_2_works st\<rparr>\<rparr>"
  using assms
  by (cases "ps2_port_1_works st"; cases "ps2_port_2_works st"; cases "ps2_reset_device dev PS2_PORT_1 tr")
    (auto simp: ps2_reset_ports_def split: bind_splits)

lemma start_driver_state:
  "ps2_start_driver dev device_type st tr = Some (st', tr') \<Longrightarrow> \<exists>k. st' = st\<lparr>ps2_kbd := k\<rparr>"
  by (auto simp: ps2_start_driver_def bind_eq_Some_conv split: if_splits intro: exI [of _ "ps2_kbd st"])

text \<open>What identification and the driver leave alone.\<close>

definition same_ports :: "ps2_state \<Rightarrow> ps2_state \<Rightarrow> bool" where
  "same_ports st st' \<longleftrightarrow>
     ps2_port_1_works st' = ps2_port_1_works st \<and> ps2_port_2_works st' = ps2_port_2_works st \<and>
     port_1_populated (ps2_ports st') = port_1_populated (ps2_ports st) \<and>
     port_2_populated (ps2_ports st') = port_2_populated (ps2_ports st)"

lemma same_ports_start:
  assumes "ps2_start_driver dev t st tr = Some (st', tr')" "same_ports st0 st"
  shows "same_ports st0 st'"
  using start_driver_state [OF assms(1)] assms(2) by (auto simp: same_ports_def)

lemma identify_ports_state:
  assumes "ps2_identify_ports dev st tr = Some (st', tr')"
  shows "same_ports st st'"
proof -
  have types: "same_ports st0 (st\<lparr>ps2_ports := (ps2_ports st)\<lparr>device_type_port_1 := t\<rparr>\<rparr>)"
    "same_ports st0 (st\<lparr>ps2_ports := (ps2_ports st)\<lparr>device_type_port_2 := t\<rparr>\<rparr>)"
    if "same_ports st0 st" for st0 st t using that by (simp_all add: same_ports_def)
  have refl: "same_ports st st" by (simp add: same_ports_def)
  show ?thesis
  proof (cases "port_1_populated (ps2_ports st)")
    case True
    with assms obtain t st1 tr1 tr2 where
      first: "ps2_start_driver dev t (st\<lparr>ps2_ports := (ps2_ports st)\<lparr>device_type_port_1 := t\<rparr>\<rparr>) tr1 = Some (st1, tr2)"
      and rest: "(if port_1_populated (ps2_ports st1) then
         do {
           ((_, device_type), tr) \<leftarrow> ps2_identify_device dev PS2_PORT_2 (device_type_port_2 (ps2_ports st1)) tr2;
           ps2_start_driver dev device_type
             (st1\<lparr>ps2_ports := (ps2_ports st1)\<lparr>device_type_port_2 := device_type\<rparr>\<rparr>) tr
         }
       else Some (st1, tr2)) = Some (st', tr')"
      by (auto simp: ps2_identify_ports_def bind_eq_Some_conv)
    have one: "same_ports st st1" by (rule same_ports_start [OF first types(1) [OF refl]])
    show ?thesis
    proof (cases "port_1_populated (ps2_ports st1)")
      case True
      with rest obtain t tr3 where
        "ps2_start_driver dev t (st1\<lparr>ps2_ports := (ps2_ports st1)\<lparr>device_type_port_2 := t\<rparr>\<rparr>) tr3 = Some (st', tr')"
        by (auto simp: bind_eq_Some_conv)
      from same_ports_start [OF this types(2) [OF one]] show ?thesis .
    qed (use rest one in simp)
  qed (use assms refl in \<open>simp add: ps2_identify_ports_def\<close>)
qed

lemma identify_ports_unpopulated:
  "\<not> port_1_populated (ps2_ports st) \<Longrightarrow> ps2_identify_ports dev st tr = Some (st, tr)"
  by (simp add: ps2_identify_ports_def)

text \<open>The state when the enabled ports are reset.\<close>

definition after_tests :: "ps2_state \<Rightarrow> ps2_state \<Rightarrow> bool" where
  "after_tests st st' \<longleftrightarrow> ps2_ports st' = ps2_ports st \<and> ps2_kbd st' = ps2_kbd st"

lemma init_controller_cases:
  assumes "ps2_init_controller dev st tr = Some ((c, st'), tr')"
  obtains (stopped) "after_tests st st'" "c \<noteq> PS2_OK"
  | (ran) st1 tr1 tr2 tr3 st3 where "after_tests st st1" "ps2_port_1_works st1 \<or> ps2_port_2_works st1"
    "ps2_reset_ports dev st1 tr1 = Some (st3, tr2)" "ps2_identify_ports dev st3 tr2 = Some (st', tr3)"
    "pic_enable_irq dev 1 tr3 = Some tr'" "c = PS2_OK"
proof -
  obtain c0 config tr0 where t0: "ps2_test_controller dev tr = Some ((c0, config), tr0)"
    using assms by (auto simp: ps2_init_controller_def bind_eq_Some_conv)
  show thesis
  proof (cases "c0 = PS2_OK")
    case False
    with assms show thesis by (auto simp: ps2_init_controller_def t0 after_tests_def intro: stopped)
  next
    case True
    note r0 = assms [unfolded ps2_init_controller_def t0 True, simplified]
    obtain c1 st1 tr1 where t1: "ps2_probe_port_2 dev config st tr0 = Some ((c1, st1), tr1)"
      using r0 by (auto simp: bind_eq_Some_conv)
    have a1: "after_tests st st1" using probe_state [OF t1] by (auto simp: after_tests_def)
    show thesis
    proof (cases "c1 = PS2_OK")
      case False
      with r0 a1 show thesis by (auto simp: t1 intro: stopped)
    next
      case True
      note r1 = r0 [unfolded t1 True, simplified]
      obtain c2 st2 tr2 where t2: "ps2_test_port_1 dev st1 tr1 = Some ((c2, st2), tr2)"
        using r1 by (auto simp: bind_eq_Some_conv)
      have a2: "after_tests st st2" using test_port_1_state [OF t2] a1 by (auto simp: after_tests_def)
      show thesis
      proof (cases "c2 = PS2_OK")
        case False
        with r1 a2 show thesis by (auto simp: t2 intro: stopped)
      next
        case True
        note r2 = r1 [unfolded t2 True, simplified]
        obtain c3 st3 tr3 where t3: "ps2_test_port_2 dev st2 tr2 = Some ((c3, st3), tr3)"
          using r2 by (auto simp: bind_eq_Some_conv)
        have a3: "after_tests st st3" using test_port_2_state [OF t3] a2 by (auto simp: after_tests_def)
        show thesis
        proof (cases "c3 = PS2_OK \<and> (ps2_port_1_works st3 \<or> ps2_port_2_works st3)")
          case False
          with r2 a3 show thesis by (auto simp: t3 intro: stopped split: if_splits)
        next
          case True
          with r2 a3 show thesis by (auto simp: t3 bind_eq_Some_conv intro: ran)
        qed
      qed
    qed
  qed
qed

section \<open>The initialization ends\<close>

text \<open>
  The output buffer is drained by \<open>n\<close> rounds of the flush loop; a controller that in every situation
  takes a byte after finitely many polls and runs out of bytes after finitely many reads.
\<close>

fun drained_after :: "device \<Rightarrow> nat \<Rightarrow> io_trace \<Rightarrow> bool" where
  "drained_after dev 0 tr \<longleftrightarrow> \<not> ps2_output_buffer_full (dev tr PS2_STATUS)"
| "drained_after dev (Suc n) tr \<longleftrightarrow>
     ps2_output_buffer_full (dev tr PS2_STATUS) \<and>
     (let tr = In PS2_STATUS (dev tr PS2_STATUS) # tr in drained_after dev n (In PS2_DATA (dev tr PS2_DATA) # tr))"

definition cooperative :: "device \<Rightarrow> bool" where
  "cooperative dev \<longleftrightarrow>
     gets_ready dev PS2_STATUS (\<lambda>b. \<not> ps2_input_buffer_full b) \<and> (\<forall>tr. \<exists>n. drained_after dev n tr)"

definition ends :: "'a option \<Rightarrow> bool" where
  "ends r \<longleftrightarrow> r \<noteq> None"

named_theorems end_rules \<open>operations that end with a cooperative controller\<close>

lemma ends_Some [end_rules]: "ends (Some x)"
  by (simp add: ends_def)

lemma ends_bind:
  "ends m \<Longrightarrow> (\<And>x. m = Some x \<Longrightarrow> ends (f x)) \<Longrightarrow> ends (Option.bind m f)"
  by (cases m) (auto simp: ends_def)

lemma ends_flush [end_rules]:
  assumes "cooperative dev"
  shows "ends (ps2_flush_output_buffer dev tr)"
proof -
  have "drained_after dev n tr \<Longrightarrow> ends (ps2_flush_output_buffer dev tr)" for n
    by (induction n arbitrary: tr; subst ps2_flush_output_buffer.simps)
      (auto simp: port_read_byte_def Let_def ends_def)
  with assms show ?thesis unfolding cooperative_def by blast
qed

lemma ends_send_command [end_rules]:
  assumes "cooperative dev"
  shows "ends (ps2_send_command dev command tr)"
proof -
  obtain n where "ready_after dev PS2_STATUS (\<lambda>b. \<not> ps2_input_buffer_full b) n tr"
    using assms by (auto simp: cooperative_def gets_ready_def)
  from poll_until_ready [OF this] show ?thesis by (simp add: ps2_send_command_def ends_def)
qed

lemma ends_receive [end_rules]: "ends (ps2_receive_byte dev tr)"
  using receive_total [of dev tr] by (auto simp: ends_def)

lemma ends_poll_limited [end_rules]: "ends (poll_limited dev port ready n tr)"
  using poll_limited_total [of dev port ready n tr] by (auto simp: ends_def)

lemma ends_raw_send [end_rules]: "cooperative dev \<Longrightarrow> ends (ps2_raw_send_byte dev port data tr)"
  unfolding ps2_raw_send_byte_def by (auto intro!: ends_bind end_rules)

lemma ends_send_byte [end_rules]:
  assumes "cooperative dev"
  shows "ends (ps2_send_byte dev port data tr)"
proof -
  have "ends (ps2_send_attempts dev port data n tr)" for n
    by (induction n arbitrary: tr) (auto intro!: ends_bind end_rules assms)
  then show ?thesis by (simp add: ps2_send_byte_def)
qed

lemma ends_reset_device [end_rules]: "cooperative dev \<Longrightarrow> ends (ps2_reset_device dev port tr)"
  unfolding ps2_reset_device_def by (auto intro!: ends_bind end_rules)

lemma ends_identify_device [end_rules]: "cooperative dev \<Longrightarrow> ends (ps2_identify_device dev port t tr)"
  unfolding ps2_identify_device_def Let_def by (auto intro!: ends_bind end_rules)

lemma ends_set_scancode_set [end_rules]:
  assumes "cooperative dev"
  shows "ends (ps2_kbd_set_scancode_set dev port s tr)"
proof -
  have "ends (set_scancode_set_loop dev port s tries tr)" for tries
  proof (induction "3 - tries" arbitrary: tries tr rule: less_induct)
    case less
    show ?case
      by (subst set_scancode_set_loop.simps)
        (auto intro!: ends_bind ends_send_byte [OF assms] ends_receive ends_Some less simp: Let_def)
  qed
  then show ?thesis
    unfolding ps2_kbd_set_scancode_set_def by (auto intro!: ends_bind ends_Some)
qed

lemma ends_kbd_init [end_rules]: "cooperative dev \<Longrightarrow> ends (ps2_kbd_init dev port st tr)"
  unfolding ps2_kbd_init_def Let_def by (auto intro!: ends_bind end_rules)

lemma ends_steps [end_rules]:
  assumes "cooperative dev"
  shows "ends (ps2_write_config dev config tr)" "ends (ps2_test_controller dev tr)"
    "ends (ps2_probe_port_2 dev config st tr)" "ends (ps2_test_port_1 dev st tr)"
    "ends (ps2_test_port_2 dev st tr)" "ends (ps2_enable_ports dev config st tr)"
    "ends (ps2_reset_ports dev st tr)" "ends (ps2_start_driver dev t st tr)"
    "ends (ps2_identify_ports dev st tr)"
  unfolding ps2_write_config_def ps2_test_controller_def ps2_probe_port_2_def ps2_test_port_1_def
    ps2_test_port_2_def ps2_enable_ports_def ps2_reset_ports_def ps2_identify_ports_def ps2_start_driver_def Let_def
  by (auto intro!: ends_bind end_rules assms)

lemma ends_pic_enable [end_rules]: "ends (pic_enable_irq dev 1 tr)"
  by (simp add: pic_enable_irq_def pic_line_def port_read_byte_def ends_def)

lemma init_controller_ends:
  assumes "cooperative dev"
  shows "\<exists>c st' tr'. ps2_init_controller dev st tr = Some ((c, st'), tr')"
proof -
  have "ends (ps2_init_controller dev st tr)"
    unfolding ps2_init_controller_def by (auto intro!: ends_bind end_rules assms)
  then show ?thesis by (auto simp: ends_def)
qed

definition same_keys :: "ps2_kbd_driver \<Rightarrow> ps2_kbd_driver \<Rightarrow> bool" where
  "same_keys st st' \<longleftrightarrow> ps2_kbd_modifiers st' = ps2_kbd_modifiers st \<and> ps2_kbd_buffer st' = ps2_kbd_buffer st"

lemma same_keys_refl [simp]: "same_keys st st"
  by (simp add: same_keys_def)

lemma same_keys_trans: "same_keys st st1 \<Longrightarrow> same_keys st1 st2 \<Longrightarrow> same_keys st st2"
  by (simp add: same_keys_def)

lemma kbd_init_keys:
  "ps2_kbd_init dev port st tr = Some ((c, st'), tr') \<Longrightarrow> same_keys st st'"
  by (auto simp: ps2_kbd_init_def Let_def bind_eq_Some_conv same_keys_def split: if_splits)

lemma start_driver_keys:
  "ps2_start_driver dev device_type st tr = Some (st', tr') \<Longrightarrow>
     same_keys (ps2_kbd st) (ps2_kbd st')"
  by (auto simp: ps2_start_driver_def bind_eq_Some_conv dest: kbd_init_keys split: if_splits)

lemma identify_start_keys:
  assumes "Option.bind (ps2_identify_device dev port t tr) (\<lambda>((_, ty), tr). ps2_start_driver dev ty (f ty) tr) = Some (st', tr')"
    and "\<And>ty. ps2_kbd (f ty) = ps2_kbd st"
  shows "same_keys (ps2_kbd st) (ps2_kbd st')"
proof -
  obtain ty tr1 where "ps2_start_driver dev ty (f ty) tr1 = Some (st', tr')"
    using assms(1) by (auto simp: bind_eq_Some_conv)
  from start_driver_keys [OF this] assms(2) show ?thesis by simp
qed

lemma identify_ports_keys:
  assumes "ps2_identify_ports dev st tr = Some (st', tr')"
  shows "same_keys (ps2_kbd st) (ps2_kbd st')"
proof (cases "port_1_populated (ps2_ports st)")
  case True
  let ?first = "Option.bind (ps2_identify_device dev PS2_PORT_1 (device_type_port_1 (ps2_ports st)) tr)
      (\<lambda>((_, ty), tr). ps2_start_driver dev ty (st\<lparr>ps2_ports := (ps2_ports st)\<lparr>device_type_port_1 := ty\<rparr>\<rparr>) tr)"
  let ?rest = "\<lambda>(st, tr). if port_1_populated (ps2_ports st)
      then Option.bind (ps2_identify_device dev PS2_PORT_2 (device_type_port_2 (ps2_ports st)) tr)
        (\<lambda>((_, ty), tr). ps2_start_driver dev ty (st\<lparr>ps2_ports := (ps2_ports st)\<lparr>device_type_port_2 := ty\<rparr>\<rparr>) tr)
      else Some (st, tr)"
  from assms have "Option.bind ?first ?rest = Some (st', tr')" unfolding ps2_identify_ports_def if_P [OF True] .
  then obtain x where "?first = Some x" "?rest x = Some (st', tr')" by (cases ?first) simp_all
  then obtain st1 tr1 where first: "?first = Some (st1, tr1)" and rest: "?rest (st1, tr1) = Some (st', tr')"
    by (cases x) blast
  have "same_keys (ps2_kbd st) (ps2_kbd st1)" by (rule identify_start_keys [OF first]) simp
  moreover have "same_keys (ps2_kbd st1) (ps2_kbd st')"
  proof (cases "port_1_populated (ps2_ports st1)")
    case populated: True
    show ?thesis by (rule identify_start_keys [OF rest [unfolded prod.case if_P [OF populated]]]) simp
  qed (use rest in simp)
  ultimately show ?thesis by (rule same_keys_trans)
qed (use assms in \<open>simp add: identify_ports_unpopulated\<close>)

text \<open>The initialization leaves the event buffer and the modifier keys as they are.\<close>

lemma init_controller_keys:
  assumes "ps2_init_controller dev st tr = Some ((c, st'), tr')"
  shows "same_keys (ps2_kbd st) (ps2_kbd st')"
  using assms
proof (cases rule: init_controller_cases)
  case (ran st1 tr1 tr2 tr3 st3)
  have "ps2_kbd st3 = ps2_kbd st" using ran(1) reset_ports_state [OF ran(3)] by (simp add: after_tests_def)
  with identify_ports_keys [OF ran(4)] show ?thesis by (simp only:)
qed (simp add: after_tests_def)

section \<open>Properties\<close>

text \<open>
  C20: if the controller always takes a byte and always runs out of bytes after finitely many polls,
  the initialization ends, whatever it answers; the waits without a limit are the only way to hang.
\<close>

theorem ps2_init_terminates:
  assumes "cooperative dev"
  shows "\<exists>c st' tr'. ps2_init_controller dev st tr = Some ((c, st'), tr')"
  by (rule init_controller_ends [OF assms])

text \<open>
  C22: started with nothing known about the ports, the initialization succeeds only if a port passed
  its test, and records exactly the working ports as populated, whatever the reset of the devices
  said; if it fails nothing is recorded. If the first port does not work, no device of the second
  port is identified and the keyboard driver is not started, even when the second port works: the
  block for the second port tests the flag of the first one.
\<close>

theorem ps2_init_ports:
  assumes "ps2_init_controller dev ps2_boot tr = Some ((c, st), tr')"
  shows "(if c = PS2_OK
      then (ps2_port_1_works st \<or> ps2_port_2_works st) \<and>
        port_1_populated (ps2_ports st) = ps2_port_1_works st \<and>
        port_2_populated (ps2_ports st) = ps2_port_2_works st
      else ps2_ports st = ps2_ports ps2_boot \<and> ps2_kbd st = ps2_kbd_boot) \<and>
    (if ps2_port_1_works st then True
     else device_type_port_1 (ps2_ports st) = 0 \<and> device_type_port_2 (ps2_ports st) = 0 \<and>
       ps2_kbd st = ps2_kbd_boot)"
  using assms
proof (cases rule: init_controller_cases)
  case stopped
  then show ?thesis by (simp add: after_tests_def ps2_boot_def)
next
  case (ran st1 tr1 tr2 tr3 st3)
  from reset_ports_state [OF ran(3)] have st3: "port_1_populated (ps2_ports st3) = ps2_port_1_works st1"
    "port_2_populated (ps2_ports st3) = ps2_port_2_works st1" "ps2_port_1_works st3 = ps2_port_1_works st1"
    "ps2_port_2_works st3 = ps2_port_2_works st1" "ps2_kbd st3 = ps2_kbd_boot"
    "device_type_port_1 (ps2_ports st3) = 0" "device_type_port_2 (ps2_ports st3) = 0"
    using ran(1) by (simp_all add: after_tests_def ps2_boot_def)
  from identify_ports_state [OF ran(4)] have st: "same_ports st3 st" .
  have "st = st3" if "\<not> ps2_port_1_works st1"
    using ran(4) identify_ports_unpopulated [of st3 dev tr2] that st3(1) by simp
  then show ?thesis using st st3 ran(2,6) by (auto simp: same_ports_def)
qed

text \<open>
  The command that tests the second port is never sent, from no state and with no device: the
  test of the second port tests the first one again.
\<close>

theorem ps2_init_never_tests_port_2:
  assumes "ps2_init_controller dev st tr = Some (r, tr')"
  shows "\<exists>evs. tr' = evs @ tr \<and> Out PS2_COMMAND PS2_CMD_TEST_PORT_2 \<notin> set evs"
proof -
  have "adds init_event tr tr'"
    using emits_init_controller [of tr dev st] assms by (simp add: emits_def)
  then show ?thesis by (force simp: adds_def list_all_iff)
qed

section \<open>Sample runs\<close>

text \<open>
  A controller that delivers the bytes of a list, each at the second poll, from the first command of the
  initialization on.
\<close>

fun polled :: "io_trace \<Rightarrow> bool" where
  "polled (In p b # tr) \<longleftrightarrow> p = PS2_STATUS"
| "polled tr \<longleftrightarrow> False"

fun data_reads :: "io_trace \<Rightarrow> nat" where
  "data_reads [] = 0"
| "data_reads (In p b # tr) = (if p = PS2_DATA then Suc (data_reads tr) else data_reads tr)"
| "data_reads (Out p b # tr) = (if p = PS2_COMMAND \<and> b = PS2_CMD_DISABLE_PORT_1 then 0 else data_reads tr)"

definition scripted :: "u8 list \<Rightarrow> device" where
  "scripted bytes tr port =
     (if port = PS2_STATUS then (if polled tr then 1 else 0)
      else if port = PS2_DATA \<and> data_reads tr < length bytes then bytes ! data_reads tr else 0)"

definition plays :: "device \<Rightarrow> u8 list \<Rightarrow> bool" where
  "plays dev bytes \<longleftrightarrow> (\<forall>tr. dev tr PS2_STATUS = (if polled tr then 1 else 0) \<and>
     dev tr PS2_DATA = (if data_reads tr < length bytes then bytes ! data_reads tr else 0))"

lemma scripted_plays: "plays (scripted bytes) bytes"
  by (simp add: plays_def scripted_def)

lemma plays_ready: "plays dev bytes \<Longrightarrow> \<not> ps2_input_buffer_full (dev tr PS2_STATUS)"
  by (simp add: plays_def ps2_input_buffer_full_def)

lemma plays_send:
  assumes "plays dev bytes"
  shows "ps2_send_command dev c tr = Some (Out PS2_COMMAND c # In PS2_STATUS (if polled tr then 1 else 0) # tr)"
  using plays_ready [OF assms, of tr] assms
  by (simp add: ps2_send_command_def poll_until.simps [of dev] port_read_byte_def port_write_byte_def plays_def)

lemma plays_poll:
  assumes "plays dev bytes"
  shows "poll_limited dev PS2_STATUS (\<lambda>b. \<not> ps2_input_buffer_full b) PS2_TIMEOUT tr =
     Some (True, In PS2_STATUS (if polled tr then 1 else 0) # tr)"
  using poll_limited_ready [of dev PS2_STATUS "\<lambda>b. \<not> ps2_input_buffer_full b" 0 tr PS2_TIMEOUT]
    plays_ready [OF assms, of tr] assms
  by (simp add: ready_after_def PS2_TIMEOUT_pos plays_def)

lemma plays_receive:
  assumes "plays dev bytes" "\<not> polled tr"
  shows "ps2_receive_byte dev tr =
    (let b = (if data_reads tr < length bytes then bytes ! data_reads tr else 0)
     in Some ((PS2_OK, b), In PS2_DATA b # In PS2_STATUS 1 # In PS2_STATUS 0 # tr))"
proof -
  have "ready_after dev PS2_STATUS ps2_output_buffer_full 1 tr"
    using assms by (simp add: ready_after_def plays_def ps2_output_buffer_full_def)
  from poll_limited_ready [OF this, of PS2_TIMEOUT] assms show ?thesis
    by (simp add: ps2_receive_byte_def port_read_byte_def plays_def PS2_TIMEOUT_def Let_def)
qed

lemma plays_flush:
  assumes "plays dev bytes" "\<not> polled tr"
  shows "ps2_flush_output_buffer dev tr = Some (In PS2_STATUS 0 # tr)"
  by (subst ps2_flush_output_buffer.simps)
    (use assms in \<open>simp add: port_read_byte_def plays_def ps2_output_buffer_full_def\<close>)

lemma plays_cooperative:
  assumes "plays dev bytes"
  shows "cooperative dev"
proof -
  have "ready_after dev PS2_STATUS (\<lambda>b. \<not> ps2_input_buffer_full b) 0 tr" for tr
    using plays_ready [OF assms] by (simp add: ready_after_def)
  moreover have "drained_after dev (if polled tr then 1 else 0) tr" for tr
    using assms by (simp add: plays_def ps2_output_buffer_full_def Let_def)
  ultimately show ?thesis unfolding cooperative_def gets_ready_def by blast
qed

lemma five_attempts:
  "ps2_send_byte dev port data tr = ps2_send_attempts dev port data (Suc (Suc (Suc (Suc (Suc 0))))) tr"
  by (simp add: ps2_send_byte_def eval_nat_numeral)

lemmas plays_run = plays_send plays_poll plays_receive plays_flush

lemmas init_run = ps2_init_controller_def ps2_test_controller_def
  ps2_write_config_def ps2_raw_send_byte_def ps2_probe_port_2_def ps2_test_port_1_def ps2_test_port_2_def
  ps2_enable_ports_def ps2_reset_ports_def ps2_reset_device_def five_attempts ps2_identify_ports_def
  pic_enable_irq_def pic_line_def port_read_byte_def port_write_byte_def Let_def

text \<open>Evaluates the first operation of a sequence only.\<close>

lemma bind_first: "m = m' \<Longrightarrow> Option.bind m f = Option.bind m' f"
  by simp

text \<open>Only the second port works.\<close>

abbreviation (input) port_2_only :: "u8 list" where
  "port_2_only \<equiv> [0x47, 0x55, 0x00, 0x01, 0x00, 0xfa, 0xaa]"

lemma config_bits:
  "push_bit 1 (1 :: u8) = 2" "push_bit 4 (1 :: u8) = 16" "push_bit 5 (1 :: u8) = 32" "push_bit 6 (1 :: u8) = 64"
  by (simp_all add: push_bit_eq_mult)

lemma port_2_only_run:
  "\<exists>st tr'. ps2_init_controller (scripted port_2_only) ps2_boot [] = Some ((PS2_OK, st), tr') \<and>
     \<not> ps2_port_1_works st \<and> ps2_port_2_works st"
  by (simp add: plays_run [OF scripted_plays] init_run ps2_boot_def set_config_bit_def config_bits cong: bind_first)

lemma ps2_init_terminates_witness:
  "\<exists>c st' tr'. ps2_init_controller (scripted [0x47]) ps2_boot [] = Some ((c, st'), tr')"
  by (rule ps2_init_terminates [OF plays_cooperative [OF scripted_plays]])

lemma ps2_init_ports_witness:
  "\<exists>st tr'. ps2_init_controller (scripted port_2_only) ps2_boot [] = Some ((PS2_OK, st), tr') \<and>
     port_2_populated (ps2_ports st) \<and> ps2_kbd st = ps2_kbd_boot"
proof -
  obtain st tr' where run: "ps2_init_controller (scripted port_2_only) ps2_boot [] = Some ((PS2_OK, st), tr')"
    "\<not> ps2_port_1_works st" "ps2_port_2_works st"
    using port_2_only_run by blast
  with ps2_init_ports [OF run(1)] show ?thesis by auto
qed

lemma ps2_init_never_tests_port_2_witness:
  "\<exists>st tr'. ps2_init_controller (scripted port_2_only) ps2_boot [] = Some ((PS2_OK, st), tr') \<and>
     Out PS2_COMMAND PS2_CMD_TEST_PORT_2 \<notin> set tr'"
proof -
  obtain st tr' where run: "ps2_init_controller (scripted port_2_only) ps2_boot [] = Some ((PS2_OK, st), tr')"
    using port_2_only_run by blast
  with ps2_init_never_tests_port_2 [OF run] show ?thesis by auto
qed

end
