(* ===== verification/Boot.thy ===== *)
theory Boot
  imports Paging InterruptHandler DescriptorTables Ps2Init
begin

text \<open>
  The entry of the kernel (\<open>kmain\<close> in kernel/src/main.c, \<open>read_cr3\<close> and \<open>set_cr3\<close> in
  kernel/include/cpu/registers.h, \<open>hcf\<close> in hcf.h): the order in which the parts are set up, the places where the kernel
  gives up, and the state in which it is left to its interrupt handler. Shows that each stage but the one
  of the memory, which is treated in BootCorrect, returns.

  Of the log lines those of \<open>kmain\<close> itself are modelled, not those of the functions it calls. Here it
  runs without interrupts; theory BootInterrupts lets them in after \<open>sti\<close>.
\<close>

section \<open>The machine\<close>

text \<open>What a logging backend writes to: the terminal or, through the trace of port accesses, the serial port.\<close>

record outputs =
  o_terminal :: terminal
  o_trace :: io_trace

text \<open>
  The static data of all parts, the registers they load, and the flag \<open>m_if\<close> that tells whether
  interrupts are enabled.
\<close>

record machine =
  m_out :: outputs
  m_backend :: "outputs logging_backend"
  m_gdt :: "gdt_descriptor list"
  m_gdtr :: gdt_ptr
  m_idt :: "idt_gate_descriptor list"
  m_idtr :: idt_ptr
  m_if :: bool
  m_paging :: paging_state
  m_ps2 :: ps2_state
  m_cr3 :: u64

text \<open>The responses of the boot loader to the requests of the kernel; \<open>None\<close> is a null pointer.\<close>

record boot_info =
  base_revision_supported :: bool
  framebuffer_response :: "limine_framebuffer list option"
  memmap_response :: "memmap option"
  hhdm_response :: "u64 option"

text \<open>
  What the kernel finds around it: the devices, the addresses of the interrupt stubs and of the two
  tables, the value \<open>LOGGING_MIN_LEVEL\<close> it is compiled with, the names of the source files, the stack
  contents where the number buffer of the logger lies.
\<close>

record boot_env =
  be_dev :: device
  be_isr :: "nat \<Rightarrow> u64"
  be_gdt :: u64
  be_idt :: u64
  be_min_level :: nat
  be_file :: "u8 list"
  be_registers_file :: "u8 list"
  be_log_file :: "u8 list"
  be_stack :: "u8 list"

text \<open>The calls of \<open>hcf\<close>, in the order of the code; \<open>At_end\<close> is the last statement of \<open>kmain\<close>.\<close>

datatype halted =
  At_base_revision | At_framebuffer | At_serial | At_memmap | At_hhdm | At_pmm | At_clone | At_end

abbreviation (input) COM1 :: u16 where "COM1 \<equiv> 0x3f8"
abbreviation (input) PIT_MODE_SQUARE_WAVE :: u8 where "PIT_MODE_SQUARE_WAVE \<equiv> 6"

abbreviation (input) set_trace :: "io_trace \<Rightarrow> machine \<Rightarrow> machine" where
  "set_trace tr m \<equiv> m\<lparr>m_out := (m_out m)\<lparr>o_trace := tr\<rparr>\<rparr>"

section \<open>Logging\<close>

definition terminal_backend :: "u8 \<Rightarrow> outputs \<Rightarrow> outputs option" where
  "terminal_backend c out =
     do {
       t \<leftarrow> terminal_log_write c () (o_terminal out);
       Some (out\<lparr>o_terminal := t\<rparr>)
     }"

definition serial_backend :: "device \<Rightarrow> u32 \<Rightarrow> u8 \<Rightarrow> outputs \<Rightarrow> outputs option" where
  "serial_backend dev context c out =
     do {
       tr \<leftarrow> serial_log_write dev c context (o_trace out);
       Some (out\<lparr>o_trace := tr\<rparr>)
     }"

text \<open>
  The macros \<open>LOG_DEBUG\<close>, \<open>LOG_INFO\<close> and \<open>LOG_ERROR\<close> on a constant string. Those below
  \<open>LOGGING_MIN_LEVEL\<close> are compiled to nothing, if it is one of the levels 0 to 3.
\<close>

definition compiled_out :: "boot_env \<Rightarrow> logging_level_t \<Rightarrow> bool" where
  "compiled_out env level \<longleftrightarrow> be_min_level env \<le> 3 \<and> level_number level < be_min_level env"

definition log_line :: "boot_env \<Rightarrow> u8 list \<Rightarrow> logging_level_t \<Rightarrow> string \<Rightarrow> machine \<Rightarrow> machine option" where
  "log_line env file level msg m =
     (if compiled_out env level then Some m
      else do {
        out \<leftarrow> logging_log_msg (be_log_file env) (be_stack env) (m_backend m) level file (literal msg) [] (m_out m);
        Some (m\<lparr>m_out := out\<rparr>)
      })"

abbreviation (input) read_cr3 :: "machine \<Rightarrow> u64" where "read_cr3 m \<equiv> m_cr3 m"

definition set_cr3 :: "boot_env \<Rightarrow> u64 \<Rightarrow> machine \<Rightarrow> machine option" where
  "set_cr3 env val m =
     do {
       m \<leftarrow> log_line env (be_registers_file env) LOGGING_LEVEL_DEBUG ''1'' m;
       log_line env (be_registers_file env) LOGGING_LEVEL_DEBUG ''2'' (m\<lparr>m_cr3 := val\<rparr>)
     }"

section \<open>The stages of the entry\<close>

text \<open>
  The terminal, with characters of 13 by 22 pixels (\<open>CHARACTER_WIDTH * 1.3\<close> and
  \<open>CHARACTER_HEIGHT * 2.2\<close> as a \<open>uint8_t\<close>), and the greeting.
\<close>

definition kmain_output :: "limine_framebuffer \<Rightarrow> machine \<Rightarrow> machine option" where
  "kmain_output fb m =
     do {
       let t = terminal_init fb (of_nat (CHARACTER_WIDTH * 13 div 10)) (of_nat (CHARACTER_HEIGHT * 22 div 10));
       let s = literal (''Joe'' @ [CHR 10]);
       len \<leftarrow> strlen s;
       t \<leftarrow> terminal_write_string s len t;
       let t = terminal_set_color 0xaa0000 t;
       t \<leftarrow> terminal_put_char 111 t;
       t \<leftarrow> terminal_put_char 9 t;
       let t = terminal_set_color 0xaa00aa t;
       t \<leftarrow> terminal_put_char 111 t;
       t \<leftarrow> terminal_put_char 10 t;
       let t = terminal_set_color 0xffffff t;
       Some (m\<lparr>m_out := (m_out m)\<lparr>o_terminal := t\<rparr>,
               m_backend := logging_set_backend (Some terminal_backend) (m_backend m)\<rparr>)
     }"

definition kmain_tables :: "boot_env \<Rightarrow> machine \<Rightarrow> machine" where
  "kmain_tables env m =
     (let m = m\<lparr>m_gdt := gdt_init (m_gdt m)\<rparr>;
          m = m\<lparr>m_gdtr := gdt_install (be_gdt env)\<rparr>;
          m = m\<lparr>m_idt := idt_init (be_isr env)\<rparr>;
          (idtr, interrupts_on) = idt_install (be_idt env)
      in m\<lparr>m_idtr := idtr, m_if := interrupts_on\<rparr>)"

text \<open>
  \<open>hcf\<close> (hcf.h) is a loop around the instruction \<open>hlt\<close> that is never left: a stage gives \<open>Inl\<close>
  where it halts, with the machine on which only interrupts can still act.
\<close>

abbreviation (input) hcf :: "halted \<Rightarrow> machine \<Rightarrow> (halted \<times> machine) + 'a" where "hcf h m \<equiv> Inl (h, m)"

definition kmain_serial :: "boot_env \<Rightarrow> machine \<Rightarrow> ((halted \<times> machine) + machine) option" where
  "kmain_serial env m =
     do {
       (c, tr) \<leftarrow> serial_init (be_dev env) COM1 38400 (3 OR 0 OR 0) (o_trace (m_out m));
       let m = set_trace tr m;
       if c \<noteq> SERIAL_OK then
         do {
           m \<leftarrow> log_line env (be_file env) LOGGING_LEVEL_ERROR
                 ''ERROR: Something went wrong setting up COM1 serial port!'' m;
           Some (hcf At_serial m)
         }
       else
         Some (Inr (m\<lparr>m_backend := logging_set_backend (Some (serial_backend (be_dev env) 0x3f8)) (m_backend m)\<rparr>))
     }"

definition kmain_memory ::
    "boot_env \<Rightarrow> boot_info \<Rightarrow> machine \<Rightarrow> ((halted \<times> machine) + (u64 \<times> machine)) option" where
  "kmain_memory env info m =
     (case memmap_response info of
        None \<Rightarrow>
          do {
            m \<leftarrow> log_line env (be_file env) LOGGING_LEVEL_ERROR ''Could not get Memory Map :('' m;
            Some (hcf At_memmap m)
          }
      | Some memmap \<Rightarrow>
          (case hhdm_response info of
             None \<Rightarrow>
               do {
                 m \<leftarrow> log_line env (be_file env) LOGGING_LEVEL_ERROR ''Could not get HHDM :('' m;
                 Some (hcf At_hhdm m)
               }
           | Some offset \<Rightarrow>
               do {
                 (c, pm) \<leftarrow> pmm_init (pg_pmm (m_paging m)) memmap offset;
                 let m = m\<lparr>m_paging := (m_paging m)\<lparr>pg_pmm := pm\<rparr>\<rparr>;
                 if c \<noteq> PMM_OK then Some (hcf At_pmm m)
                 else do {
                   let pg = paging_init offset (m_paging m);
                   let old_pml4 = (read_cr3 m AND NOT 0x7ff) + offset;
                   (c, pml4, pg) \<leftarrow> paging_clone_page_table old_pml4 0 PML4 pg;
                   let m = m\<lparr>m_paging := pg\<rparr>;
                   if c \<noteq> PAGING_OK then
                     do {
                       m \<leftarrow> log_line env (be_file env) LOGGING_LEVEL_ERROR ''Failed to clone page table.'' m;
                       Some (hcf At_clone m)
                     }
                   else do {
                     m \<leftarrow> log_line env (be_file env) LOGGING_LEVEL_INFO ''Successfully cloned the page table.'' m;
                     m \<leftarrow> log_line env (be_file env) LOGGING_LEVEL_INFO ''Before loading cr3'' m;
                     m \<leftarrow> set_cr3 env (pml4 - offset) m;
                     m \<leftarrow> log_line env (be_file env) LOGGING_LEVEL_INFO ''after loading cr3'' m;
                     Some (Inr (pml4, m))
                   }
                 }
               }))"

text \<open>The result codes of the timer and of the PS/2 controller are ignored.\<close>

definition kmain_devices :: "boot_env \<Rightarrow> machine \<Rightarrow> machine option" where
  "kmain_devices env m =
     do {
       let m = set_trace (pic_init 0x20 0x28 (o_trace (m_out m))) m;
       let m = m\<lparr>m_if := True\<rparr>;
       let (_, interrupts_on, tr) =
         pit_init_channel PIT_CHANNEL_0 1000 (PIT_SC_COUNTER_0 OR PIT_MODE_SQUARE_WAVE) (o_trace (m_out m));
       let m = set_trace tr (m\<lparr>m_if := interrupts_on\<rparr>);
       tr \<leftarrow> pic_enable_irq (be_dev env) 0 (o_trace (m_out m));
       let m = set_trace tr m;
       ((_, ps2), tr) \<leftarrow> ps2_init_controller (be_dev env) (m_ps2 m) (o_trace (m_out m));
       Some (set_trace tr (m\<lparr>m_ps2 := ps2\<rparr>))
     }"

definition kmain_test :: "boot_env \<Rightarrow> u64 \<Rightarrow> machine \<Rightarrow> machine option" where
  "kmain_test env pml4 m =
     do {
       m \<leftarrow> log_line env (be_file env) LOGGING_LEVEL_INFO ''Test mapping and unmapping a page...'' m;
       (c, pg) \<leftarrow> paging_map_page pml4 0x7fb000 0x7fb000 PAGE_SIZE_4KB
                   (PAGING_FLAG_PRESENT OR PAGING_FLAG_WRITABLE) (m_paging m);
       let m = m\<lparr>m_paging := pg\<rparr>;
       m \<leftarrow> (if c \<noteq> PAGING_OK then log_line env (be_file env) LOGGING_LEVEL_ERROR ''Failed to map page'' m
             else Some m);
       (c, pg) \<leftarrow> paging_unmap_page pml4 0x7fb000 PAGE_SIZE_4KB (m_paging m);
       let m = m\<lparr>m_paging := pg\<rparr>;
       m \<leftarrow> (if c \<noteq> PAGING_OK then log_line env (be_file env) LOGGING_LEVEL_ERROR ''Failed to unmap page'' m
             else Some m);
       log_line env (be_file env) LOGGING_LEVEL_INFO ''No erros. Seems to work i guess.'' m
     }"

definition kmain :: "boot_env \<Rightarrow> boot_info \<Rightarrow> machine \<Rightarrow> (halted \<times> machine) option" where
  "kmain env info m =
     (if \<not> base_revision_supported info then Some (At_base_revision, m)
      else case framebuffer_response info of
        None \<Rightarrow> Some (At_framebuffer, m)
      | Some [] \<Rightarrow> Some (At_framebuffer, m)
      | Some (fb # _) \<Rightarrow>
          do {
            m \<leftarrow> kmain_output fb m;
            r \<leftarrow> kmain_serial env (kmain_tables env m);
            case r of
              Inl h \<Rightarrow> Some h
            | Inr m \<Rightarrow>
                do {
                  r \<leftarrow> kmain_memory env info m;
                  case r of
                    Inl h \<Rightarrow> Some h
                  | Inr (pml4, m) \<Rightarrow>
                      do {
                        m \<leftarrow> kmain_devices env m;
                        m \<leftarrow> kmain_test env pml4 m;
                        Some (At_end, m)
                      }
                }
          })"


section \<open>Logging returns\<close>

definition boot_env_ok :: "boot_env \<Rightarrow> bool" where
  "boot_env_ok env \<longleftrightarrow> name_ok (be_file env) \<and> name_ok (be_registers_file env) \<and> name_ok (be_log_file env) \<and>
     length (be_stack env) = MAX_FORMAT_STRING_LENGTH"

text \<open>The serial port takes a byte after finitely many polls.\<close>

abbreviation (input) serial_takes :: "device \<Rightarrow> bool" where
  "serial_takes dev \<equiv> gets_ready dev (COM1 + 5) (\<lambda>b. b AND 32 \<noteq> 0)"

text \<open>Both backends write to a sink that is a field of the outputs.\<close>

interpretation terminal_out: sink_field terminal_ok terminal_put_char o_terminal "\<lambda>t out. out\<lparr>o_terminal := t\<rparr>"
  by unfold_locales simp_all

interpretation serial_out: sink_field "\<lambda>tr. serial_takes dev" "serial_send_byte dev COM1" o_trace
    "\<lambda>tr out. out\<lparr>o_trace := tr\<rparr>" for dev
  by unfold_locales simp_all

lemma terminal_backend_field:
  "terminal_backend = (\<lambda>c out. map_option (\<lambda>t. out\<lparr>o_terminal := t\<rparr>) (terminal_put_char c (o_terminal out)))"
  by (simp add: fun_eq_iff terminal_backend_def terminal_log_write_def map_conv_bind_option comp_def)

lemma serial_backend_field:
  "serial_backend dev 0x3f8 =
     (\<lambda>c out. map_option (\<lambda>tr. out\<lparr>o_trace := tr\<rparr>) (serial_send_byte dev COM1 c (o_trace out)))"
  by (simp add: fun_eq_iff serial_backend_def serial_log_write_def map_conv_bind_option comp_def)

definition logs_to :: "(u8 \<Rightarrow> outputs \<Rightarrow> outputs option) \<Rightarrow> machine \<Rightarrow> bool" where
  "logs_to write m \<longleftrightarrow> backend_write (m_backend m) = Some write"

lemma logs_to_update [simp]:
  "logs_to write (m\<lparr>m_out := out\<rparr>) = logs_to write m" "logs_to write (m\<lparr>m_paging := pg\<rparr>) = logs_to write m"
  "logs_to write (m\<lparr>m_cr3 := c\<rparr>) = logs_to write m" "logs_to write (m\<lparr>m_if := b\<rparr>) = logs_to write m"
  "logs_to write (m\<lparr>m_ps2 := st\<rparr>) = logs_to write m"
  "logs_to write (m\<lparr>m_backend := logging_set_backend (Some write) backend\<rparr>)"
  by (simp_all add: logs_to_def logging_set_backend_def)

lemma log_put_backend: "logs_to write m \<Longrightarrow> log_put (m_backend m) = write"
  by (simp add: logs_to_def log_put_def fun_eq_iff)

text \<open>The constant messages have no conversions.\<close>

definition plain_message :: "string \<Rightarrow> bool" where
  "plain_message msg \<longleftrightarrow> 0 \<notin> set (bytes msg) \<and> 37 \<notin> set (bytes msg) \<and> length msg < 2 ^ 32"

lemma log_line_puts:
  assumes "boot_env_ok env" "logs_to write m" "name_ok file" "plain_message msg"
  shows "\<exists>text. log_line env file level msg m =
    map_option (\<lambda>out. m\<lparr>m_out := out\<rparr>) (puts write text (m_out m))"
proof (cases "compiled_out env level \<or> level_number level < level_number (backend_level (m_backend m))")
  case False
  have m: "logged (parse (bytes msg)) [] = Some (bytes msg, None)" "0 \<notin> set (bytes msg)" "length (bytes msg) < 2 ^ 32"
    using assms(4) by (simp_all add: plain_message_def parse_plain)
  have e: "length (be_stack env) = MAX_FORMAT_STRING_LENGTH" "name_ok (be_log_file env)"
    using assms(1) by (simp_all add: boot_env_ok_def)
  have "log_line env file level msg m = map_option (\<lambda>out. m\<lparr>m_out := out\<rparr>)
      (puts write (line_text level (butlast file) (reported_text (butlast (be_log_file env)) (bytes msg) None)) (m_out m))"
    using False by (simp add: log_line_def literal_def log_msg_named [OF m e(1) assms(3) e(2)]
        log_put_backend [OF assms(2)] map_conv_bind_option comp_def)
  then show ?thesis by blast
next
  case True
  have m: "logged (parse (bytes msg)) [] = Some (bytes msg, None)" "0 \<notin> set (bytes msg)" "length (bytes msg) < 2 ^ 32"
    using assms(4) by (simp_all add: plain_message_def parse_plain)
  have e: "length (be_stack env) = MAX_FORMAT_STRING_LENGTH" "name_ok (be_log_file env)"
    using assms(1) by (simp_all add: boot_env_ok_def)
  have "log_line env file level msg m = map_option (\<lambda>out. m\<lparr>m_out := out\<rparr>) (puts write [] (m_out m))"
    using True by (auto simp: log_line_def literal_def log_msg_named [OF m e(1) assms(3) e(2)])
  then show ?thesis by blast
qed

lemma log_line_serial:
  assumes "boot_env_ok env" "serial_takes (be_dev env)" "logs_to (serial_backend (be_dev env) 0x3f8) m"
    "name_ok file" "plain_message msg"
  obtains tr where "log_line env file level msg m = Some (set_trace tr m)"
proof -
  obtain xs where "log_line env file level msg m = map_option (\<lambda>out. m\<lparr>m_out := out\<rparr>)
      (puts (serial_backend (be_dev env) 0x3f8) xs (m_out m))"
    using log_line_puts [OF assms(1,3-5)] by blast
  moreover obtain tr where "puts (serial_send_byte (be_dev env) COM1) xs (o_trace (m_out m)) = Some tr"
    using serial_sink.puts_ok [OF assms(2)] by blast
  ultimately show thesis using that by (simp add: serial_backend_field serial_out.puts_field)
qed

lemma log_line_terminal:
  assumes "boot_env_ok env" "terminal_ok (o_terminal (m_out m))" "logs_to terminal_backend m"
    "name_ok file" "plain_message msg"
  obtains t where "log_line env file level msg m = Some (m\<lparr>m_out := (m_out m)\<lparr>o_terminal := t\<rparr>\<rparr>)" "terminal_ok t"
proof -
  obtain xs where "log_line env file level msg m =
      map_option (\<lambda>out. m\<lparr>m_out := out\<rparr>) (puts terminal_backend xs (m_out m))"
    using log_line_puts [OF assms(1,3-5)] by blast
  moreover obtain t where "puts terminal_put_char xs (o_terminal (m_out m)) = Some t" "terminal_ok t"
    using terminal_sink.puts_ok [OF assms(2)] by blast
  ultimately show thesis using that by (simp add: terminal_backend_field terminal_out.puts_field)
qed

lemma messages_plain:
  "plain_message ''1''" "plain_message ''2''"
  "plain_message ''ERROR: Something went wrong setting up COM1 serial port!''"
  "plain_message ''Could not get Memory Map :(''" "plain_message ''Could not get HHDM :(''"
  "plain_message ''Failed to clone page table.''" "plain_message ''Successfully cloned the page table.''"
  "plain_message ''Before loading cr3''" "plain_message ''after loading cr3''"
  "plain_message ''Test mapping and unmapping a page...''" "plain_message ''Failed to map page''"
  "plain_message ''Failed to unmap page''" "plain_message ''No erros. Seems to work i guess.''"
  by (simp_all add: plain_message_def bytes_def)

section \<open>The stages return\<close>

lemma greeting_length: "strlen (literal (''Joe'' @ [CHR 10])) = Some 4"
proof -
  have e: "literal (''Joe'' @ [CHR 10]) = [74, 111, 101, 10] @ 0 # []" by (simp add: literal_def bytes_def)
  have "is_string [74, 111, 101, 10]" by (rule is_stringI) simp_all
  from strlen_string [OF this, of "[]"] show ?thesis unfolding e by simp
qed

lemma terminal_ok_color [simp]: "terminal_ok (terminal_set_color c t) = terminal_ok t"
  by (simp add: terminal_ok_def terminal_set_color_def)

lemma kmain_output_ok:
  assumes "fb_ok fb" "20 \<le> unat (fb_width fb)" "22 \<le> unat (fb_height fb)"
  obtains t where "kmain_output fb m = Some (m\<lparr>m_out := (m_out m)\<lparr>o_terminal := t\<rparr>,
      m_backend := logging_set_backend (Some terminal_backend) (m_backend m)\<rparr>)" "terminal_ok t"
proof -
  let ?s = "literal (''Joe'' @ [CHR 10])" and ?t = "terminal_init fb 13 22"
  have len: "length ?s = 5" by (simp add: literal_def)
  have "terminal_ok ?t" using assms by (simp add: terminal_ok_def terminal_init_def)
  then obtain t1 where t1: "terminal_write_string ?s 4 ?t = Some t1" "terminal_ok t1"
    using write_from_ok [of ?t 0 4 ?s] len by (auto simp: terminal_write_string_def)
  obtain t2 where t2: "terminal_put_char 111 (terminal_set_color 0xaa0000 t1) = Some t2" "terminal_ok t2"
    using put_char_ok [of "terminal_set_color 0xaa0000 t1" 111] t1(2) by auto
  obtain t3 where t3: "terminal_put_char 9 t2 = Some t3" "terminal_ok t3" using put_char_ok [OF t2(2)] by blast
  obtain t4 where t4: "terminal_put_char 111 (terminal_set_color 0xaa00aa t3) = Some t4" "terminal_ok t4"
    using put_char_ok [of "terminal_set_color 0xaa00aa t3" 111] t3(2) by auto
  obtain t5 where t5: "terminal_put_char 10 t4 = Some t5" "terminal_ok t5" using put_char_ok [OF t4(2)] by blast
  have "kmain_output fb m = Some (m\<lparr>m_out := (m_out m)\<lparr>o_terminal := terminal_set_color 0xffffff t5\<rparr>,
      m_backend := logging_set_backend (Some terminal_backend) (m_backend m)\<rparr>)"
    unfolding kmain_output_def Let_def greeting_length using t1(1) t2(1) t3(1) t4(1) t5(1) by simp
  with that t5(2) show thesis by simp
qed

text \<open>
  In loopback mode the port answers with the byte just sent, as \<open>serial_test\<close> expects; a missing or
  broken port answers with something else.
\<close>

definition loops_back :: "device \<Rightarrow> bool" where
  "loops_back dev \<longleftrightarrow> (\<forall>tr. dev (Out COM1 SERIAL_TEST_BYTE # tr) COM1 = SERIAL_TEST_BYTE)"

definition no_loopback :: "device \<Rightarrow> bool" where
  "no_loopback dev \<longleftrightarrow> (\<forall>tr. dev (Out COM1 SERIAL_TEST_BYTE # tr) COM1 \<noteq> SERIAL_TEST_BYTE)"

lemma com1_init:
  "loops_back dev \<Longrightarrow> \<exists>tr'. serial_init dev COM1 38400 3 tr = Some (SERIAL_OK, tr')"
  "no_loopback dev \<Longrightarrow> \<exists>tr'. serial_init dev COM1 38400 3 tr = Some (SERIAL_LOOPBACK_FAILED, tr')"
  by (simp_all add: serial_init_def serial_test_def Let_def port_read_byte_def port_write_byte_def
      loops_back_def no_loopback_def)

lemma kmain_serial_ok:
  assumes "loops_back (be_dev env)"
  obtains tr where "kmain_serial env m = Some (Inr (m\<lparr>m_out := (m_out m)\<lparr>o_trace := tr\<rparr>,
      m_backend := logging_set_backend (Some (serial_backend (be_dev env) 0x3f8)) (m_backend m)\<rparr>))"
proof -
  obtain tr where "serial_init (be_dev env) COM1 38400 3 (o_trace (m_out m)) = Some (SERIAL_OK, tr)"
    using com1_init(1) [OF assms] by blast
  then show thesis using that by (simp add: kmain_serial_def)
qed

lemma kmain_serial_missing:
  assumes "no_loopback (be_dev env)" "boot_env_ok env" "terminal_ok (o_terminal (m_out m))" "logs_to terminal_backend m"
  obtains m' where "kmain_serial env m = Some (Inl (At_serial, m'))"
proof -
  obtain tr where tr: "serial_init (be_dev env) COM1 38400 3 (o_trace (m_out m)) = Some (SERIAL_LOOPBACK_FAILED, tr)"
    using com1_init(2) [OF assms(1)] by blast
  have "terminal_ok (o_terminal (m_out (set_trace tr m)))" "logs_to terminal_backend (set_trace tr m)" "name_ok (be_file env)"
    using assms(2-4) by (simp_all add: boot_env_ok_def)
  from log_line_terminal [OF assms(2) this messages_plain(3), where level = LOGGING_LEVEL_ERROR]
  obtain m' where "log_line env (be_file env) LOGGING_LEVEL_ERROR
      ''ERROR: Something went wrong setting up COM1 serial port!'' (set_trace tr m) = Some m'" by blast
  with tr that show thesis by (simp add: kmain_serial_def)
qed

lemma set_cr3_ok:
  assumes "boot_env_ok env" "serial_takes (be_dev env)" "logs_to (serial_backend (be_dev env) 0x3f8) m"
  obtains tr where "set_cr3 env val m = Some (m\<lparr>m_cr3 := val, m_out := (m_out m)\<lparr>o_trace := tr\<rparr>\<rparr>)"
proof -
  have f: "name_ok (be_registers_file env)" using assms(1) by (simp add: boot_env_ok_def)
  obtain tr where tr: "log_line env (be_registers_file env) LOGGING_LEVEL_DEBUG ''1'' m = Some (set_trace tr m)"
    by (rule log_line_serial [OF assms f messages_plain(1)])
  let ?m = "(set_trace tr m)\<lparr>m_cr3 := val\<rparr>"
  have "logs_to (serial_backend (be_dev env) 0x3f8) ?m" using assms(3) by simp
  then obtain tr2 where "log_line env (be_registers_file env) LOGGING_LEVEL_DEBUG ''2'' ?m = Some (set_trace tr2 ?m)"
    by (rule log_line_serial [OF assms(1,2) _ f messages_plain(2)])
  with tr that show thesis by (simp add: set_cr3_def)
qed

lemma kmain_devices_ok:
  assumes "cooperative (be_dev env)"
  obtains tr ps2 c tr0 where
    "kmain_devices env m = Some (m\<lparr>m_out := (m_out m)\<lparr>o_trace := tr\<rparr>, m_if := True, m_ps2 := ps2\<rparr>)"
    "ps2_init_controller (be_dev env) (m_ps2 m) tr0 = Some ((c, ps2), tr)" "\<not> polled tr0"
proof -
  obtain tr1 where pit: "pit_init_channel PIT_CHANNEL_0 1000 PIT_MODE_SQUARE_WAVE
      (pic_init 0x20 0x28 (o_trace (m_out m))) = (PIT_OK, True, tr1)"
    by (simp add: pit_init_channel_def Let_def)
  obtain tr2 where irq: "pic_enable_irq (be_dev env) 0 tr1 = Some tr2" "\<not> polled tr2"
    by (simp add: pic_enable_irq_def pic_line_def port_read_byte_def port_write_byte_def)
  obtain c ps2 tr3 where ps2: "ps2_init_controller (be_dev env) (m_ps2 m) tr2 = Some ((c, ps2), tr3)"
    using init_controller_ends [OF assms] by blast
  have "kmain_devices env m = Some (m\<lparr>m_out := (m_out m)\<lparr>o_trace := tr3\<rparr>, m_if := True, m_ps2 := ps2\<rparr>)"
    using pit irq(1) ps2 by (simp add: kmain_devices_def Let_def)
  then show thesis using ps2 irq(2) that by blast
qed

end
