(* ===== verification/PagingTree.thy ===== *)
theory PagingTree
  imports Paging "HOL-Library.Sublist"
begin

text \<open>
  Page tables as trees: the table at a path of indices, the pages (leaf entries) at the paths that
  lead to one, well-formed page tables, and what a write to one entry does to tables and pages.
  The operations of kernel/src/memory/paging.c refine updates of the map from paths to pages.

  A path is the list of the indices walked so far, the latest first, so that \<open>i # p\<close> is entry
  \<open>i\<close> of the table at \<open>p\<close>; the table at the empty path is the PML4.
\<close>

section \<open>Tables and pages at a path\<close>

definition child_table :: "paging_state \<Rightarrow> page_table_entry_t \<Rightarrow> u64" where
  "child_table st e = entry_base 12 28 e + g_hhdm_offset st"

text \<open>An entry of a table with \<open>n\<close> indices above it points to a table or is a page.\<close>

definition is_pointer :: "nat \<Rightarrow> page_table_entry_t \<Rightarrow> bool" where
  "is_pointer n e \<longleftrightarrow> n < 3 \<and> bit e 0 \<and> (n = 0 \<or> \<not> bit e 7)"

definition is_page :: "nat \<Rightarrow> page_table_entry_t \<Rightarrow> bool" where
  "is_page n e \<longleftrightarrow> bit e 0 \<and> (n = 3 \<or> (n = 1 \<or> n = 2) \<and> bit e 7)"

fun table_at :: "paging_state \<Rightarrow> u64 \<Rightarrow> nat list \<Rightarrow> u64 option" where
  "table_at st root [] = Some root"
| "table_at st root (i # p) =
     (case table_at st root p of
        None \<Rightarrow> None
      | Some t \<Rightarrow>
          let e = read_entry st t (of_nat i)
          in if is_pointer (length p) e then Some (child_table st e) else None)"

fun page_at :: "paging_state \<Rightarrow> u64 \<Rightarrow> nat list \<Rightarrow> page_table_entry_t option" where
  "page_at st root [] = None"
| "page_at st root (i # p) =
     (case table_at st root p of
        None \<Rightarrow> None
      | Some t \<Rightarrow>
          let e = read_entry st t (of_nat i)
          in if is_page (length p) e then Some e else None)"

definition valid_path :: "nat list \<Rightarrow> bool" where
  "valid_path p \<longleftrightarrow> length p \<le> 3 \<and> (\<forall>i \<in> set p. i < 512)"

definition valid_page_path :: "nat list \<Rightarrow> bool" where
  "valid_page_path p \<longleftrightarrow> length p \<le> 4 \<and> (\<forall>i \<in> set p. i < 512)"

definition pages :: "paging_state \<Rightarrow> u64 \<Rightarrow> nat list \<Rightarrow> page_table_entry_t option" where
  "pages st root p = (if valid_page_path p then page_at st root p else None)"

lemma valid_path_Cons: "valid_path (i # p) \<Longrightarrow> valid_path p \<and> i < 512 \<and> length p < 3"
  by (simp add: valid_path_def)

lemma valid_page_path_Cons [simp]: "valid_page_path (i # p) \<longleftrightarrow> valid_path p \<and> i < 512"
  by (auto simp: valid_page_path_def valid_path_def)

lemma pages_Cons: "pages st root (i # p) = (if valid_path p \<and> i < 512 then page_at st root (i # p) else None)"
  unfolding pages_def valid_page_path_Cons by (rule refl)

lemma pages_Nil [simp]: "pages st root [] = None"
  by (simp add: pages_def)

section \<open>Cells of tables\<close>

text \<open>Table pages are page aligned in physical memory, so that their cells do not overlap.\<close>

definition aligned_table :: "paging_state \<Rightarrow> u64 \<Rightarrow> bool" where
  "aligned_table st t \<longleftrightarrow> 4096 dvd unat (t - g_hhdm_offset st)"

lemma cell_offset:
  assumes "4096 dvd unat (a :: u64)" "i < 512"
  shows "unat (a + 8 * of_nat i) = unat a + 8 * i"
proof -
  have "unat a + 4096 \<le> 18446744073709551616"
  proof -
    obtain k where k: "unat a = 4096 * k" using assms(1) by (elim dvdE)
    then have "4096 * k < 4096 * 4503599627370496" using unat_u64_lt [of a] by simp
    then have "k < 4503599627370496" by (simp only: mult_less_cancel1)
    then show ?thesis unfolding k by simp
  qed
  moreover have "unat (8 * of_nat i :: u64) = 8 * i"
    using assms(2) by (simp add: unat_mult_u64 unat_of_nat_u64)
  ultimately show ?thesis using assms(2) by (subst unat_add_u64) auto
qed

lemma cell_inj:
  assumes "aligned_table st t" "aligned_table st t'" "i < 512" "i' < 512"
    and "cell t (of_nat i) = cell t' (of_nat i')"
  shows "t = t' \<and> i = i'"
proof -
  let ?a = "t - g_hhdm_offset st" and ?b = "t' - g_hhdm_offset st"
  have "?a + 8 * of_nat i = cell t (of_nat i) - g_hhdm_offset st" by (simp add: cell_def)
  also have "\<dots> = ?b + 8 * of_nat i'" unfolding assms(5) by (simp add: cell_def)
  finally have "unat ?a + 8 * i = unat ?b + 8 * i'"
    using cell_offset assms(1-4) unfolding aligned_table_def by metis
  moreover obtain k l where k: "unat ?a = 4096 * k" "unat ?b = 4096 * l"
    using assms(1,2) unfolding aligned_table_def by (elim dvdE) blast
  ultimately have *: "4096 * k + 8 * i = 4096 * l + 8 * i'" by simp
  have "k = l"
  proof -
    have "(4096 * k + 8 * i) div 4096 = k" "(4096 * l + 8 * i') div 4096 = l"
      using assms(3,4) by simp_all
    with * show ?thesis by simp
  qed
  with * k have i: "i = i'" and "unat ?a = unat ?b" by simp_all
  then have "?a = ?b" by (simp add: word_unat_eq_iff)
  with i show ?thesis by simp
qed

lemma read_write_entry:
  assumes "aligned_table st t" "aligned_table st t'" "i < 512" "i' < 512"
  shows "read_entry (write_entry t (of_nat i) e st) t' (of_nat i') =
    (if t' = t \<and> i' = i then e else read_entry st t' (of_nat i'))"
  using cell_inj [OF assms] by (auto simp: read_entry_def write_entry_def)

lemma read_zero_table:
  assumes "aligned_table st t" "aligned_table st t'" "i' < 512"
  shows "read_entry (zero_table t st) t' (of_nat i') = (if t' = t then 0 else read_entry st t' (of_nat i'))"
proof -
  have "cell t' (of_nat i') \<in> set (map (\<lambda>i. cell t (of_nat i)) [0..<512]) \<longleftrightarrow> t' = t"
    using cell_inj [OF assms(1,2) _ assms(3)] assms(3) by auto
  then show ?thesis unfolding read_entry_def zero_table_def by simp
qed

lemma paging_fields [simp]:
  "g_hhdm_offset (write_entry t i e st) = g_hhdm_offset st" "pg_pmm (write_entry t i e st) = pg_pmm st"
  "pg_tlb (write_entry t i e st) = pg_tlb st"
  "g_hhdm_offset (zero_table t st) = g_hhdm_offset st" "pg_pmm (zero_table t st) = pg_pmm st"
  "pg_tlb (zero_table t st) = pg_tlb st"
  "g_hhdm_offset (invalidate_tlb v st) = g_hhdm_offset st" "pg_pmm (invalidate_tlb v st) = pg_pmm st"
  "pg_tlb (invalidate_tlb v st) = v # pg_tlb st"
  by (simp_all add: write_entry_def zero_table_def invalidate_tlb_def)

section \<open>Frames\<close>

text \<open>
  If two states agree on all table entries that are not at or below a path \<open>x\<close>, they have the same
  tables and pages everywhere but at or below \<open>x\<close>.
\<close>

definition agree_outside :: "paging_state \<Rightarrow> paging_state \<Rightarrow> u64 \<Rightarrow> nat list \<Rightarrow> bool" where
  "agree_outside st st' root x \<longleftrightarrow> g_hhdm_offset st' = g_hhdm_offset st \<and>
     (\<forall>q t j. valid_path q \<and> table_at st root q = Some t \<and> j < 512 \<and> \<not> suffix x (j # q) \<longrightarrow>
        read_entry st' t (of_nat j) = read_entry st t (of_nat j))"

lemma table_at_frame:
  assumes "agree_outside st st' root x" "valid_path q" "\<not> suffix x q"
  shows "table_at st' root q = table_at st root q"
  using assms(2,3)
proof (induction q)
  case (Cons j q)
  have v: "valid_path q" "j < 512" using valid_path_Cons [OF Cons.prems(1)] by auto
  have n: "\<not> suffix x q" using Cons.prems(2) by (auto simp: suffix_ConsI)
  show ?case
  proof (cases "table_at st root q")
    case (Some t)
    have "read_entry st' t (of_nat j) = read_entry st t (of_nat j)"
      using assms(1) v Some Cons.prems(2) by (auto simp: agree_outside_def)
    with Some Cons.IH [OF v(1) n] assms(1) show ?thesis
      by (simp add: agree_outside_def child_table_def Let_def)
  qed (simp add: Cons.IH [OF v(1) n])
qed simp

lemma page_at_frame:
  assumes "agree_outside st st' root x" "valid_page_path q" "\<not> suffix x q"
  shows "page_at st' root q = page_at st root q"
proof (cases q)
  case (Cons j r)
  have v: "valid_path r" "j < 512" using assms(2) unfolding Cons by simp_all
  have n: "\<not> suffix x r" using assms(3) unfolding Cons by (auto simp: suffix_ConsI)
  note t = table_at_frame [OF assms(1) v(1) n]
  have "read_entry st' t (of_nat j) = read_entry st t (of_nat j)" if "table_at st root r = Some t" for t
    using assms(1,3) v that unfolding Cons by (auto simp: agree_outside_def)
  then show ?thesis unfolding Cons by (simp add: t split: option.splits)
qed simp

text \<open>Below a path without a table there is nothing.\<close>

lemma table_at_below:
  assumes "table_at st root x = None" "suffix x q"
  shows "table_at st root q = None"
proof -
  obtain r where q: "q = r @ x" using assms(2) by (auto simp: suffix_def)
  show ?thesis unfolding q by (induction r) (simp_all add: assms(1))
qed

lemma page_at_below:
  assumes "table_at st root x = None" "suffix x q" "q \<noteq> x"
  shows "page_at st root q = None"
proof -
  from assms(2,3) obtain j r where q: "q = j # r" "suffix x r"
    by (cases q) (auto simp: suffix_Cons)
  then show ?thesis using table_at_below [OF assms(1) q(2)] by simp
qed

section \<open>Well-formed page tables\<close>

text \<open>
  The tables of a page table lie in different pages that are in use; all but the PML4 come from the
  memory manager. The manager has no memory that a base address field cannot hold, or whose
  direct-map address is \<open>NULL\<close>.
\<close>

definition table_ok :: "paging_state \<Rightarrow> u64 \<Rightarrow> bool" where
  "table_ok st t \<longleftrightarrow> aligned_table st t \<and> t - g_hhdm_offset st \<notin> free_pages (pg_pmm st)"

definition paging_inv :: "paging_state \<Rightarrow> u64 \<Rightarrow> bool" where
  "paging_inv st root \<longleftrightarrow>
     pmm_inv (pg_pmm st) \<and>
     (\<forall>a \<in> usable_pages (pg_pmm st). unat a < 2 ^ 40 \<and> a + g_hhdm_offset st \<noteq> 0) \<and>
     (\<forall>p t. valid_path p \<and> table_at st root p = Some t \<longrightarrow>
        table_ok st t \<and> (p \<noteq> [] \<longrightarrow> t - g_hhdm_offset st \<in> usable_pages (pg_pmm st))) \<and>
     (\<forall>p q t. valid_path p \<and> valid_path q \<and> table_at st root p = Some t \<and> table_at st root q = Some t \<longrightarrow>
        p = q)"

lemma paging_inv_table:
  assumes "paging_inv st root" "valid_path p" "table_at st root p = Some t"
  shows "table_ok st t" "aligned_table st t" "t - g_hhdm_offset st \<notin> free_pages (pg_pmm st)"
    "p \<noteq> [] \<Longrightarrow> t - g_hhdm_offset st \<in> usable_pages (pg_pmm st)"
  using assms by (auto simp: paging_inv_def table_ok_def)

lemma paging_inv_inj:
  assumes "paging_inv st root" "valid_path p" "valid_path q"
    "table_at st root p = Some t" "table_at st root q = Some t"
  shows "p = q"
  using assms unfolding paging_inv_def by blast

lemma paging_invI:
  assumes "pmm_inv (pg_pmm st)"
    and "\<And>a. a \<in> usable_pages (pg_pmm st) \<Longrightarrow> unat a < 2 ^ 40 \<and> a + g_hhdm_offset st \<noteq> 0"
    and "\<And>p t. valid_path p \<Longrightarrow> table_at st root p = Some t \<Longrightarrow> aligned_table st t"
    and "\<And>p t. valid_path p \<Longrightarrow> table_at st root p = Some t \<Longrightarrow> t - g_hhdm_offset st \<notin> free_pages (pg_pmm st)"
    and "\<And>p t. valid_path p \<Longrightarrow> table_at st root p = Some t \<Longrightarrow> p \<noteq> [] \<Longrightarrow>
      t - g_hhdm_offset st \<in> usable_pages (pg_pmm st)"
    and "\<And>p q t. valid_path p \<Longrightarrow> valid_path q \<Longrightarrow> table_at st root p = Some t \<Longrightarrow>
      table_at st root q = Some t \<Longrightarrow> p = q"
  shows "paging_inv st root"
  unfolding paging_inv_def table_ok_def using assms by blast

lemma paging_inv_pmm_inv:
  assumes "paging_inv st root"
  shows "pmm_inv (pg_pmm st)"
    and "a \<in> usable_pages (pg_pmm st) \<Longrightarrow> unat a < 2 ^ 40"
    and "a \<in> usable_pages (pg_pmm st) \<Longrightarrow> a + g_hhdm_offset st \<noteq> 0"
  using assms by (auto simp: paging_inv_def)

text \<open>A write to entry \<open>i\<close> of the table at \<open>p\<close> changes nothing outside \<open>i # p\<close>.\<close>

lemma write_agrees:
  assumes inv: "paging_inv st root" and p: "valid_path p" "table_at st root p = Some t" and i: "i < 512"
  shows "agree_outside st (write_entry t (of_nat i) e st) root (i # p)"
  unfolding agree_outside_def
proof (intro conjI allI impI)
  fix q t' j
  assume a: "valid_path q \<and> table_at st root q = Some t' \<and> j < 512 \<and> \<not> suffix (i # p) (j # q)"
  then have "\<not> (t' = t \<and> j = i)" using paging_inv_inj [OF inv p(1) _ p(2)] by auto
  moreover have "aligned_table st t" "aligned_table st t'"
    using paging_inv_table(2) [OF inv] p a by blast+
  ultimately show "read_entry (write_entry t (of_nat i) e st) t' (of_nat j) = read_entry st t' (of_nat j)"
    using a i by (auto simp: read_write_entry)
qed simp

text \<open>What a write to the entry at \<open>i # p\<close> does to the tables and pages at and below it.\<close>

lemma read_written:
  assumes "paging_inv st root" "valid_path p" "table_at st root p = Some t" "i < 512"
  shows "read_entry (write_entry t (of_nat i) e st) t (of_nat i) = e"
  by (simp add: read_entry_def write_entry_def)

lemma pages_frame:
  assumes "agree_outside st st' root x" "\<not> suffix x q"
  shows "pages st' root q = pages st root q"
  using page_at_frame [OF assms(1) _ assms(2)] by (simp add: pages_def)

text \<open>
  A write of an entry that is not a pointer, where the old one is not a pointer either: no table
  changes, and the only page that may change is the one at \<open>i # p\<close>.
\<close>

lemma write_page_entry:
  assumes inv: "paging_inv st root" and p: "valid_path p" "table_at st root p = Some t" and i: "i < 512"
    and old: "table_at st root (i # p) = None" and new: "\<not> is_pointer (length p) e"
  shows "paging_inv (write_entry t (of_nat i) e st) root"
    and "pages (write_entry t (of_nat i) e st) root =
      (pages st root)(i # p := if is_page (length p) e then Some e else None)"
    and "valid_path q \<Longrightarrow> table_at (write_entry t (of_nat i) e st) root q = table_at st root q"
proof -
  let ?st = "write_entry t (of_nat i) e st"
  note frame = write_agrees [OF inv p i, of e]
  have "\<not> suffix (i # p) p" by (auto dest: suffix_length_le)
  then have pt: "table_at ?st root p = Some t" using table_at_frame [OF frame p(1)] p(2) by simp
  have x: "table_at ?st root (i # p) = None"
    using pt new read_written [OF inv p i] by (simp add: Let_def)
  have tables: "table_at ?st root q = table_at st root q" if "valid_path q" for q
    using table_at_frame [OF frame that] table_at_below [OF old] table_at_below [OF x] by metis
  then show "valid_path q \<Longrightarrow> table_at ?st root q = table_at st root q" .
  show "paging_inv ?st root"
  proof (rule paging_invI)
    show "aligned_table ?st u" if "valid_path q" "table_at ?st root q = Some u" for q u
      using paging_inv_table(2) [OF inv that(1)] that(2) tables [OF that(1)] by (simp add: aligned_table_def)
    show "q = q'" if "valid_path q" "valid_path q'" "table_at ?st root q = Some u" "table_at ?st root q' = Some u"
      for q q' u
      using paging_inv_inj [OF inv that(1,2)] that(3,4) tables that(1,2) by metis
  qed (use paging_inv_pmm_inv [OF inv] paging_inv_table(3,4) [OF inv] tables in auto)
  show "pages ?st root = (pages st root)(i # p := if is_page (length p) e then Some e else None)"
  proof
    fix q
    consider "q = i # p" | "suffix (i # p) q" "q \<noteq> i # p" | "\<not> suffix (i # p) q" by blast
    then show "pages ?st root q = ((pages st root)(i # p := if is_page (length p) e then Some e else None)) q"
    proof cases
      case 1
      then show ?thesis using pt p(1) i read_written [OF inv p i, of e] by (simp add: pages_Cons Let_def)
    next
      case 2
      then show ?thesis using page_at_below [OF old 2] page_at_below [OF x 2] by (simp add: pages_def)
    next
      case 3
      then have "q \<noteq> i # p" by auto
      then show ?thesis using pages_frame [OF frame 3] by simp
    qed
  qed
qed

text \<open>The memory manager may take or release pages that are no tables.\<close>

lemma paging_inv_pmm:
  assumes inv: "paging_inv st root" and pm: "pmm_inv pm" "usable_pages pm = usable_pages (pg_pmm st)"
    and free: "\<forall>p t. valid_path p \<and> table_at st root p = Some t \<longrightarrow> t - g_hhdm_offset st \<notin> free_pages pm"
  shows "paging_inv (st\<lparr>pg_pmm := pm\<rparr>) root" "table_at (st\<lparr>pg_pmm := pm\<rparr>) root q = table_at st root q"
    "pages (st\<lparr>pg_pmm := pm\<rparr>) root = pages st root"
proof -
  have r: "read_entry (st\<lparr>pg_pmm := pm\<rparr>) = read_entry st" "child_table (st\<lparr>pg_pmm := pm\<rparr>) = child_table st"
    by (simp_all add: read_entry_def child_table_def fun_eq_iff)
  have t: "table_at (st\<lparr>pg_pmm := pm\<rparr>) root q = table_at st root q" for q
    by (induction q) (simp_all add: r Let_def cong: if_cong option.case_cong)
  show "table_at (st\<lparr>pg_pmm := pm\<rparr>) root q = table_at st root q" by (rule t)
  have "page_at (st\<lparr>pg_pmm := pm\<rparr>) root q = page_at st root q" for q
    by (cases q) (simp_all add: r t Let_def cong: if_cong option.case_cong)
  then show "pages (st\<lparr>pg_pmm := pm\<rparr>) root = pages st root" by (simp add: pages_def fun_eq_iff)
  show "paging_inv (st\<lparr>pg_pmm := pm\<rparr>) root"
  proof (rule paging_invI)
    show "aligned_table (st\<lparr>pg_pmm := pm\<rparr>) u" if "valid_path q" "table_at (st\<lparr>pg_pmm := pm\<rparr>) root q = Some u" for q u
      using paging_inv_table(2) [OF inv that(1)] that(2) by (simp add: aligned_table_def t)
    show "q = q'" if "valid_path q" "valid_path q'" "table_at (st\<lparr>pg_pmm := pm\<rparr>) root q = Some u"
      "table_at (st\<lparr>pg_pmm := pm\<rparr>) root q' = Some u" for q q' u
      using paging_inv_inj [OF inv that(1,2)] that(3,4) by (simp add: t)
  qed (use paging_inv_pmm_inv [OF inv] paging_inv_table(4) [OF inv] pm free in \<open>auto simp: t\<close>)
qed

text \<open>Entering a new, empty table at a path that has none: no page changes.\<close>

lemma usable_page_fits:
  assumes "paging_inv st root" "a \<in> usable_pages (pg_pmm st)"
  shows "4096 dvd unat a" "field_fits 12 28 a" "aligned_table st (a + g_hhdm_offset st)"
  using usable_page_facts(2) [OF paging_inv_pmm_inv(1) [OF assms(1)] assms(2)]
    paging_inv_pmm_inv(2) [OF assms]
  by (simp_all add: field_fits_def aligned_table_def)

lemma table_entry_bits:
  assumes "n < 3"
  shows "is_pointer n (entry_word 12 28 a (PAGING_FLAG_PRESENT OR PAGING_FLAG_WRITABLE))"
    "\<not> is_page n (entry_word 12 28 a (PAGING_FLAG_PRESENT OR PAGING_FLAG_WRITABLE))"
proof -
  have "bit (PAGING_FLAG_PRESENT OR PAGING_FLAG_WRITABLE :: u64) 0"
    "\<not> bit (PAGING_FLAG_PRESENT OR PAGING_FLAG_WRITABLE :: u64) 7"
    by (simp_all add: bit_simps)
  with assms show "is_pointer n (entry_word 12 28 a (PAGING_FLAG_PRESENT OR PAGING_FLAG_WRITABLE))"
    "\<not> is_page n (entry_word 12 28 a (PAGING_FLAG_PRESENT OR PAGING_FLAG_WRITABLE))"
    by (simp_all add: is_pointer_def is_page_def bit_entry_word)
qed

lemma not_present_entry:
  assumes "table_at st root p = Some t" "\<not> bit (read_entry st t (of_nat i)) 0"
  shows "table_at st root (i # p) = None" "page_at st root (i # p) = None"
  using assms by (simp_all add: is_pointer_def is_page_def Let_def)

lemma link_table:
  assumes inv: "paging_inv st root" and p: "valid_path (i # p)" "table_at st root p = Some t"
    and old: "\<not> bit (read_entry st t (of_nat i)) 0"
    and page: "a \<in> usable_pages (pg_pmm st)" "a \<notin> free_pages (pg_pmm st)"
    and fresh: "\<forall>q u. valid_path q \<and> table_at st root q = Some u \<longrightarrow> u \<noteq> a + g_hhdm_offset st"
    and st': "st' = write_entry t (of_nat i)
        (entry_word 12 28 a (PAGING_FLAG_PRESENT OR PAGING_FLAG_WRITABLE)) (zero_table (a + g_hhdm_offset st) st)"
  shows "paging_inv st' root" "pages st' root = pages st root"
    "table_at st' root (i # p) = Some (a + g_hhdm_offset st)"
    "valid_path q \<Longrightarrow> q \<noteq> i # p \<Longrightarrow> table_at st' root q = table_at st root q"
proof -
  let ?new = "a + g_hhdm_offset st" and ?z = "zero_table (a + g_hhdm_offset st) st"
  let ?e = "entry_word 12 28 a (PAGING_FLAG_PRESENT OR PAGING_FLAG_WRITABLE)"
  have v: "valid_path p" "i < 512" "length p < 3" using valid_path_Cons [OF p(1)] by auto
  note al = paging_inv_table(2) [OF inv]
  have at: "aligned_table st t" by (rule al [OF v(1) p(2)])
  note an = usable_page_fits(3) [OF inv page(1)]
  have zal: "aligned_table ?z u = aligned_table st u" for u by (simp add: aligned_table_def)
  have rd: "read_entry st' u (of_nat j) = (if u = t \<and> j = i then ?e
      else if u = ?new then 0 else read_entry st u (of_nat j))"
    if "aligned_table st u" "j < 512" for u j
    unfolding st' read_zero_table [OF an that, symmetric]
    by (rule read_write_entry) (use that v(2) at in \<open>simp_all only: zal\<close>)
  have frame: "agree_outside st st' root (i # p)"
    unfolding agree_outside_def
  proof (intro conjI allI impI)
    fix q u j
    assume q: "valid_path q \<and> table_at st root q = Some u \<and> j < 512 \<and> \<not> suffix (i # p) (j # q)"
    then have "\<not> (u = t \<and> j = i)" using paging_inv_inj [OF inv v(1) _ p(2)] by auto
    moreover have "aligned_table st u" "u \<noteq> ?new" using q al fresh by blast+
    ultimately show "read_entry st' u (of_nat j) = read_entry st u (of_nat j)"
      using rd [of u j] q by auto
  qed (simp add: st')
  have "\<not> suffix (i # p) p" by (auto dest: suffix_length_le)
  then have pt: "table_at st' root p = Some t" using table_at_frame [OF frame v(1)] p(2) by simp
  have "read_entry st' t (of_nat i) = ?e" using rd [OF at v(2)] by simp
  moreover have "child_table st' ?e = ?new"
    using entry_base_word [OF usable_page_fits(2) [OF inv page(1)]] by (simp add: child_table_def st')
  ultimately have x: "table_at st' root (i # p) = Some ?new"
    and xp: "page_at st' root (i # p) = None"
    using pt table_entry_bits [OF v(3)] by (simp_all add: Let_def)
  then show "table_at st' root (i # p) = Some ?new" by blast
  have nt: "?new \<noteq> t" using fresh v(1) p(2) by blast
  have zero: "table_at st' root (j # i # p) = None" "page_at st' root (j # i # p) = None" if "j < 512" for j
    using rd [OF an that] x nt by (simp_all add: is_pointer_def is_page_def Let_def)
  have below: "table_at st' root q = None" "page_at st' root q = None"
    if suf: "suffix (i # p) q" and ne: "q \<noteq> i # p" and lt: "\<forall>j \<in> set q. j < 512" for q
  proof -
    obtain r where "q = r @ i # p" using suf by (auto simp: suffix_def)
    with ne obtain r' j where q: "q = r' @ j # i # p"
      by (metis append.assoc append_Cons append_Nil rev_exhaust)
    with lt have j: "j < 512" by simp
    have s: "suffix (j # i # p) q" unfolding q suffix_def by blast
    show "table_at st' root q = None" by (rule table_at_below [OF zero(1) [OF j] s])
    show "page_at st' root q = None"
      using page_at_below [OF zero(1) [OF j] s] zero(2) [OF j] by (cases "q = j # i # p") blast+
  qed
  note np = not_present_entry [OF p(2) old]
  have tables: "table_at st' root q = table_at st root q" if "valid_path q" "q \<noteq> i # p" for q
  proof (cases "suffix (i # p) q")
    case True
    with that below(1) table_at_below [OF np(1) True] show ?thesis by (simp add: valid_path_def)
  next
    case False
    show ?thesis by (rule table_at_frame [OF frame that(1) False])
  qed
  then show "valid_path q \<Longrightarrow> q \<noteq> i # p \<Longrightarrow> table_at st' root q = table_at st root q" .
  show "pages st' root = pages st root"
  proof
    fix q show "pages st' root q = pages st root q"
    proof (cases "suffix (i # p) q")
      case True
      show ?thesis
        using xp np(2) below(2) [OF True] page_at_below [OF np(1) True]
        by (cases "q = i # p") (auto simp: pages_def valid_page_path_def)
    next
      case False
      show ?thesis by (rule pages_frame [OF frame False])
    qed
  qed
  show "paging_inv st' root"
  proof (rule paging_invI)
    fix q u assume q: "valid_path q" "table_at st' root q = Some u"
    show "aligned_table st' u"
      using q tables [OF q(1)] al x an by (cases "q = i # p") (auto simp: aligned_table_def st')
    show "u - g_hhdm_offset st' \<notin> free_pages (pg_pmm st')"
      using q tables [OF q(1)] paging_inv_table(3) [OF inv q(1)] x page
      by (cases "q = i # p") (auto simp: st')
    show "u - g_hhdm_offset st' \<in> usable_pages (pg_pmm st')" if "q \<noteq> []"
      using q that tables [OF q(1)] paging_inv_table(4) [OF inv q(1)] x page
      by (cases "q = i # p") (auto simp: st')
    fix q' assume q': "valid_path q'" "table_at st' root q' = Some u"
    show "q = q'"
      using q q' tables x fresh paging_inv_inj [OF inv q(1) q'(1)] by (metis option.inject)
  qed (use paging_inv_pmm_inv [OF inv] in \<open>auto simp: st'\<close>)
qed

text \<open>Cutting off an empty table: no page changes.\<close>

lemma cut_table:
  assumes inv: "paging_inv st root" and p: "valid_path (i # p)" "table_at st root p = Some t"
    and u: "table_at st root (i # p) = Some u" "\<forall>j<512. \<not> bit (read_entry st u (of_nat j)) 0"
    and new: "\<not> bit e 0"
  shows "paging_inv (write_entry t (of_nat i) e st) root"
    "pages (write_entry t (of_nat i) e st) root = pages st root"
    "suffix (i # p) q \<Longrightarrow> table_at (write_entry t (of_nat i) e st) root q = None"
    "valid_path q \<Longrightarrow> \<not> suffix (i # p) q \<Longrightarrow>
      table_at (write_entry t (of_nat i) e st) root q = table_at st root q"
proof -
  let ?st = "write_entry t (of_nat i) e st"
  have v: "valid_path p" "i < 512" using valid_path_Cons [OF p(1)] by auto
  note frame = write_agrees [OF inv v(1) p(2) v(2), of e]
  have "\<not> suffix (i # p) p" by (auto dest: suffix_length_le)
  then have pt: "table_at ?st root p = Some t" using table_at_frame [OF frame v(1)] p(2) by simp
  have x: "table_at ?st root (i # p) = None" "page_at ?st root (i # p) = None"
    using not_present_entry [OF pt] read_written [OF inv v(1) p(2) v(2), of e] new by simp_all
  have old: "table_at st root (j # i # p) = None" "page_at st root (j # i # p) = None" if "j < 512" for j
    using not_present_entry [OF u(1)] u(2) that by blast+
  have "is_pointer (length p) (read_entry st t (of_nat i))"
    using u(1) p(2) by (auto simp: Let_def split: if_splits)
  then have oldx: "page_at st root (i # p) = None"
    using p(2) by (auto simp: is_pointer_def is_page_def Let_def)
  show below: "table_at ?st root q = None" if "suffix (i # p) q" for q
    by (rule table_at_below [OF x(1) that])
  show same: "table_at ?st root q = table_at st root q" if "valid_path q" "\<not> suffix (i # p) q" for q
    by (rule table_at_frame [OF frame that])
  show "pages ?st root = pages st root"
  proof
    fix q show "pages ?st root q = pages st root q"
    proof (cases "suffix (i # p) q \<and> q \<noteq> i # p \<and> valid_page_path q")
      case True
      then obtain r where "q = r @ i # p" by (auto simp: suffix_def)
      with True obtain r' j where q: "q = r' @ j # i # p"
        by (metis append.assoc append_Cons append_Nil rev_exhaust)
      with True have j: "j < 512" by (simp add: valid_page_path_def)
      have s: "suffix (j # i # p) q" unfolding q suffix_def by blast
      have "page_at st root q = None"
        using page_at_below [OF old(1) [OF j] s] old(2) [OF j] by (cases "q = j # i # p") blast+
      then show ?thesis using page_at_below [OF x(1)] True by (simp add: pages_def)
    next
      case False
      then consider "\<not> suffix (i # p) q" | "q = i # p" | "\<not> valid_page_path q" by blast
      then show ?thesis
        by cases (use pages_frame [OF frame] oldx x(2) in \<open>simp_all add: pages_def\<close>)
    qed
  qed
  have sub: "table_at st root q = Some w" if "valid_path q" "table_at ?st root q = Some w" for q w
    using that below same by (metis option.distinct(1))
  show "paging_inv ?st root"
  proof (rule paging_invI)
    show "aligned_table ?st w" if "valid_path q" "table_at ?st root q = Some w" for q w
      using paging_inv_table(2) [OF inv that(1) sub [OF that]] by (simp add: aligned_table_def)
    show "q = q'" if "valid_path q" "valid_path q'" "table_at ?st root q = Some w" "table_at ?st root q' = Some w"
      for q q' w
      using paging_inv_inj [OF inv that(1,2)] that sub by blast
  qed (use paging_inv_pmm_inv [OF inv] paging_inv_table(3,4) [OF inv] sub in auto)
qed

lemma clear_present_bit: "\<not> bit (set_field fs ''present'' 0 e) 0" if "field_bits fs ''present'' = (0, 1)"
  using that by (simp add: set_field_def bit_simps)

text \<open>
  A page table without empty tables: below every table but the root there is a page. During an
  unmapping this holds but for the tables on one path.
\<close>

definition compact_but :: "paging_state \<Rightarrow> u64 \<Rightarrow> nat list \<Rightarrow> bool" where
  "compact_but st root x \<longleftrightarrow> (\<forall>q. valid_path q \<and> \<not> suffix q x \<and> table_at st root q \<noteq> None \<longrightarrow>
     (\<exists>y. suffix q y \<and> pages st root y \<noteq> None))"

lemma compact_but_shorter:
  assumes "compact_but st root (i # p)" "valid_path (i # p)" "table_at st root (i # p) = Some u"
    and j: "j < 512" "bit (read_entry st u (of_nat j)) 0"
  shows "compact_but st root p"
  unfolding compact_but_def
proof (intro allI impI, elim conjE)
  fix q assume q: "valid_path q" "\<not> suffix q p" "table_at st root q \<noteq> None"
  show "\<exists>y. suffix q y \<and> pages st root y \<noteq> None"
  proof (cases "q = i # p")
    case False
    then have "\<not> suffix q (i # p)" using q(2) by (auto simp: suffix_Cons)
    then show ?thesis using assms(1) q unfolding compact_but_def by blast
  next
    case True
    let ?e = "read_entry st u (of_nat j)"
    show ?thesis
    proof (cases "is_pointer (length (i # p)) ?e")
      case pointer: True
      then have "valid_path (j # i # p)" "table_at st root (j # i # p) \<noteq> None"
        using assms(2,3) j(1) by (auto simp: valid_path_def is_pointer_def Let_def)
      moreover have "\<not> suffix (j # i # p) (i # p)" by (auto dest: suffix_length_le)
      ultimately obtain y where "suffix (j # i # p) y" "pages st root y \<noteq> None"
        using assms(1) unfolding compact_but_def by blast
      moreover from this(1) have "suffix q y" unfolding True by (rule suffix_ConsD)
      ultimately show ?thesis by blast
    next
      case leaf: False
      have "length (i # p) = 1 \<or> length (i # p) = 2 \<or> length (i # p) = 3"
        using assms(2) unfolding valid_path_def list.size(4) by arith
      with leaf j(2) have "is_page (length (i # p)) ?e" by (auto simp: is_pointer_def is_page_def)
      then have "pages st root (j # i # p) \<noteq> None" using assms(2,3) j(1) by (simp add: pages_Cons Let_def)
      then show ?thesis unfolding True by (intro exI [of _ "j # i # p"]) (simp add: suffix_Cons)
    qed
  qed
qed

lemma check_for_empty_table_correct:
  assumes inv: "paging_inv st root" and p: "valid_path (i # p)" "table_at st root p = Some t"
    and u: "table_at st root (i # p) = Some u"
  shows "\<exists>st'. paging_check_for_empty_table u t (of_nat i) st = Some st' \<and> paging_inv st' root \<and>
    pages st' root = pages st root \<and> g_hhdm_offset st' = g_hhdm_offset st \<and> pg_tlb st' = pg_tlb st \<and>
    (\<forall>q. valid_path q \<and> \<not> suffix (i # p) q \<longrightarrow> table_at st' root q = table_at st root q) \<and>
    free_pages (pg_pmm st) \<subseteq> free_pages (pg_pmm st') \<and>
    (compact_but st root (i # p) \<longrightarrow> compact_but st' root p)"
proof (cases "\<forall>j<512. \<not> bit (read_entry st u (of_nat j)) 0")
  case True
  let ?st1 = "clear_present pml4_pointer_fields t (of_nat i) st"
  let ?a = "u - g_hhdm_offset st"
  have c: "?st1 = write_entry t (of_nat i) (set_field pml4_pointer_fields ''present'' 0 (read_entry st t (of_nat i))) st"
    by (simp only: clear_present_def)
  have nb: "\<not> bit (set_field pml4_pointer_fields ''present'' 0 (read_entry st t (of_nat i))) 0"
    by (rule clear_present_bit) (simp add: field_positions)
  note cut = cut_table [OF inv p u True nb, folded c]
  have f: "g_hhdm_offset ?st1 = g_hhdm_offset st" "pg_pmm ?st1 = pg_pmm st" "pg_tlb ?st1 = pg_tlb st"
    by (simp_all add: clear_present_def)
  have a: "?a \<in> usable_pages (pg_pmm st)" "?a \<notin> free_pages (pg_pmm st)"
    using paging_inv_table(3,4) [OF inv p(1) u] by simp_all
  obtain pm where pm: "pmm_free (pg_pmm st) ?a = Some (PMM_OK, pm)" "pmm_inv pm"
      "usable_pages pm = usable_pages (pg_pmm st)" "free_pages pm = insert ?a (free_pages (pg_pmm st))"
    using pmm_pages.release_used [OF paging_inv_pmm_inv(1) [OF inv] a] by blast
  have run: "paging_check_for_empty_table u t (of_nat i) st = Some (?st1\<lparr>pg_pmm := pm\<rparr>)"
    using True by (simp add: paging_check_for_empty_table_def present_iff list_all_iff f pm(1) Let_def)
  have free: "\<forall>q w. valid_path q \<and> table_at ?st1 root q = Some w \<longrightarrow> w - g_hhdm_offset ?st1 \<notin> free_pages pm"
  proof (intro allI impI)
    fix q w assume "valid_path q \<and> table_at ?st1 root q = Some w"
    then have q: "valid_path q" "table_at ?st1 root q = Some w" by blast+
    have ns: "\<not> suffix (i # p) q" using cut(3) [of q] q(2) by auto
    then have "table_at st root q = Some w" using cut(4) [OF q(1)] q(2) by simp
    moreover have "q \<noteq> i # p" using ns by auto
    ultimately have "w \<noteq> u" using paging_inv_inj [OF inv q(1) p(1)] u by blast
    then show "w - g_hhdm_offset ?st1 \<notin> free_pages pm"
      using paging_inv_table(3) [OF cut(1) q] unfolding pm(4) f by simp
  qed
  have pm': "pmm_inv pm" "usable_pages pm = usable_pages (pg_pmm ?st1)" using pm(2,3) f(2) by simp_all
  note fin = paging_inv_pmm [OF cut(1) pm' free]
  have "compact_but (?st1\<lparr>pg_pmm := pm\<rparr>) root p" if "compact_but st root (i # p)"
    unfolding compact_but_def fin(2,3) cut(2)
  proof (intro allI impI, elim conjE)
    fix q assume q: "valid_path q" "\<not> suffix q p" "table_at ?st1 root q \<noteq> None"
    have ns: "\<not> suffix (i # p) q" using cut(3) [of q] q(3) by auto
    then have "q \<noteq> i # p" by auto
    then have "\<not> suffix q (i # p)" using q(2) by (simp add: suffix_Cons)
    moreover have "table_at st root q \<noteq> None" using q(3) cut(4) [OF q(1) ns] by simp
    ultimately show "\<exists>y. suffix q y \<and> pages st root y \<noteq> None" using that q(1) unfolding compact_but_def by blast
  qed
  moreover have "\<forall>q. valid_path q \<and> \<not> suffix (i # p) q \<longrightarrow> table_at (?st1\<lparr>pg_pmm := pm\<rparr>) root q = table_at st root q"
    unfolding fin(2) using cut(4) by simp
  moreover have "free_pages (pg_pmm st) \<subseteq> free_pages (pg_pmm (?st1\<lparr>pg_pmm := pm\<rparr>))" using pm(4) by auto
  moreover have "pages (?st1\<lparr>pg_pmm := pm\<rparr>) root = pages st root" unfolding fin(2,3) by (rule cut(2))
  ultimately show ?thesis using run fin(1) f by (intro exI [of _ "?st1\<lparr>pg_pmm := pm\<rparr>"]) simp
next
  case False
  then have "paging_check_for_empty_table u t (of_nat i) st = Some st"
    by (auto simp: paging_check_for_empty_table_def present_iff list_all_iff Let_def)
  moreover have "compact_but st root (i # p) \<longrightarrow> compact_but st root p"
    using compact_but_shorter [OF _ p(1) u] False by blast
  ultimately show ?thesis using inv by simp
qed

end
