(* ===== verification/PmmInit.thy ===== *)
theory PmmInit
  imports Pmm
begin

text \<open>
  What \<open>pmm_init\<close> (kernel/src/memory/pmm.c) establishes: from a memory map in address order,
  without overlaps and with page-aligned usable entries, it builds a well-formed state in
  which every usable page is free except those reserved for the manager's own data; and where
  the region array and the bitmaps lie in memory.
\<close>

section \<open>Memory maps\<close>

definition entry_end :: "limine_memmap_entry \<Rightarrow> nat" where
  "entry_end e = unat (me_base e) + unat (me_length e)"

definition entry_ok :: "limine_memmap_entry \<Rightarrow> bool" where
  "entry_ok e \<longleftrightarrow> init_region_ok (me_base e) (me_length e) (ucast (me_type e)) \<and>
     0 < unat (me_length e) \<and> me_type e < 2 ^ 32 \<and>
     (me_type e = 0 \<longrightarrow> 4096 dvd unat (me_base e) \<and> me_base e \<noteq> 0)"

text \<open>
  What the Limine protocol promises of a memory map (sorted, usable entries page aligned and
  disjoint), and two things it does not: that entries of other types do not overlap, and that
  usable entries have a multiple of 8 pages.
\<close>

definition memmap_ok :: "memmap \<Rightarrow> bool" where
  "memmap_ok m \<longleftrightarrow> length m < 2 ^ 32 \<and> (\<forall>e \<in> set m. entry_ok e) \<and>
     sorted_wrt (\<lambda>a b. entry_end a \<le> unat (me_base b)) m"

section \<open>The region array\<close>

lemma length_init_region_array [simp]: "length (init_region_array m bb off) = length m"
  by (induction m arbitrary: bb) (simp_all add: Let_def)

lemma init_region_array_nth:
  assumes "i < length m"
  shows "\<exists>bm. init_region_array m bb off ! i =
    pmm_region_init bm (me_base (m ! i)) (me_length (m ! i)) (ucast (me_type (m ! i)))"
  using assms
proof (induction m arbitrary: bb i)
  case (Cons e m)
  show ?case
  proof (cases i)
    case (Suc j)
    with Cons.prems have "j < length m" by simp
    from Cons.IH [OF this] Suc show ?thesis by (simp add: Let_def)
  qed (auto simp: Let_def)
qed simp

lemma entry_region_facts:
  assumes "entry_ok e" and r: "r = pmm_region_init bm (me_base e) (me_length e) (ucast (me_type e))"
  shows "r_base r = me_base e" "r_length r = me_length e" "region_end r = entry_end e"
    "r_type r = MEMMAP_TYPE_USABLE \<longleftrightarrow> me_type e = 0" "pmm_region_ok r"
    "free_idx (r_bitmap r) = (if me_type e = 0 then {..<region_pages r} else {})"
proof -
  have io: "init_region_ok (me_base e) (me_length e) (ucast (me_type e))"
    and l: "unat (me_length e) < 2 ^ 63" and t: "me_type e < 2 ^ 32"
    using assms(1) by (simp_all add: entry_ok_def init_region_ok_def)
  note f = region_init_fields [OF l r]
  show base: "r_base r = me_base e" and len: "r_length r = me_length e" by (fact f)+
  show "region_end r = entry_end e" by (simp add: region_end_def entry_end_def base len)
  have "unat (ucast (me_type e) :: u32) = unat (me_type e)"
    using t by (simp add: unsigned_ucast_eq take_bit_nat_eq_self word_less_nat_alt)
  then show type: "r_type r = MEMMAP_TYPE_USABLE \<longleftrightarrow> me_type e = 0"
    unfolding f(3) by (metis unat_eq_0)
  have inv: "region_inv r" unfolding r by (rule region_init_inv [OF io])
  show free: "free_idx (r_bitmap r) = (if me_type e = 0 then {..<region_pages r} else {})"
  proof -
    have "free_idx (r_bitmap r) =
        (if ucast (me_type e) = MEMMAP_TYPE_USABLE then {..<unat (me_length e) div 4096} else {})"
      unfolding r by (rule region_init_free [OF io])
    then show ?thesis using type unfolding f(3) f(7) by simp
  qed
  show "pmm_region_ok r"
    using assms(1) inv type free by (auto simp: pmm_region_ok_def entry_ok_def base len)
qed

lemma init_regions_ok:
  assumes "memmap_ok m" "r \<in> set (init_region_array m bb off)"
  shows "pmm_region_ok r"
proof -
  obtain i where i: "i < length m" "r = init_region_array m bb off ! i"
    using assms(2) by (auto simp: in_set_conv_nth)
  then obtain bm where "r = pmm_region_init bm (me_base (m ! i)) (me_length (m ! i)) (ucast (me_type (m ! i)))"
    using init_region_array_nth by metis
  moreover have "entry_ok (m ! i)" using assms(1) i(1) by (simp add: memmap_ok_def)
  ultimately show ?thesis using entry_region_facts(5) by blast
qed

lemma init_regions_sorted:
  assumes "memmap_ok m"
  shows "sorted_wrt (\<lambda>a b. region_end a \<le> unat (r_base b)) (init_region_array m bb off)"
  unfolding sorted_wrt_iff_nth_less
proof (intro allI impI)
  fix i j assume ij: "i < j" "j < length (init_region_array m bb off)"
  then have i: "i < length m" and j: "j < length m" by simp_all
  have ok: "entry_ok (m ! i)" "entry_ok (m ! j)"
    using assms i j by (simp_all add: memmap_ok_def)
  obtain b1 b2 where
    r: "init_region_array m bb off ! i = pmm_region_init b1 (me_base (m ! i)) (me_length (m ! i)) (ucast (me_type (m ! i)))"
      "init_region_array m bb off ! j = pmm_region_init b2 (me_base (m ! j)) (me_length (m ! j)) (ucast (me_type (m ! j)))"
    using init_region_array_nth [OF i] init_region_array_nth [OF j] by metis
  have "entry_end (m ! i) \<le> unat (me_base (m ! j))"
    using assms ij by (simp add: memmap_ok_def sorted_wrt_iff_nth_less)
  then show "region_end (init_region_array m bb off ! i) \<le> unat (r_base (init_region_array m bb off ! j))"
    using entry_region_facts(3) [OF ok(1) r(1)] entry_region_facts(1) [OF ok(2) r(2)] by simp
qed

section \<open>Reserving the metadata pages\<close>

lemma mark_metadata_pages_correct:
  assumes "region_inv r" and "r_base r = array_ptr - offset" and "distinct ps"
    and "set ps \<subseteq> free_idx (r_bitmap r)"
  shows "\<exists>r'. mark_metadata_pages r array_ptr offset ps = Some (PMM_OK, r') \<and> region_inv r' \<and>
    same_region r r' \<and> free_idx (r_bitmap r') = free_idx (r_bitmap r) - set ps"
  using assms
proof (induction ps arbitrary: r)
  case (Cons p ps)
  have p: "p \<in> free_idx (r_bitmap r)" using Cons.prems(4) by simp
  from Cons.prems(1) p obtain r1 where
    r1: "pmm_region_mark_page_used r (page_addr r p) = Some (PMM_REGION_OK, r1)"
      "region_inv r1" "same_region r r1" "free_idx (r_bitmap r1) = free_idx (r_bitmap r) - {p}"
    by (rule mark_used_free_page)
  have "r_base r1 = array_ptr - offset" using r1(3) Cons.prems(2) by (simp add: same_region_def)
  moreover have "set ps \<subseteq> free_idx (r_bitmap r1)"
    unfolding r1(4) using Cons.prems(3,4) by auto
  ultimately obtain r' where r': "mark_metadata_pages r1 array_ptr offset ps = Some (PMM_OK, r')"
    "region_inv r'" "same_region r1 r'" "free_idx (r_bitmap r') = free_idx (r_bitmap r1) - set ps"
    using Cons.IH [of r1] r1(2) Cons.prems(3) by auto
  have "same_region r r'" using r1(3) r'(3) by (simp add: same_region_def)
  moreover have "free_idx (r_bitmap r') = free_idx (r_bitmap r) - set (p # ps)"
    unfolding r'(4) r1(4) by auto
  moreover have "array_ptr - offset + of_nat p * PAGE_SIZE_BYTE = page_addr r p"
    unfolding page_addr_def Cons.prems(2) by (rule refl)
  ultimately show ?case using r1(1) r'(1,2) by simp
qed auto

lemma mark_metadata_found:
  assumes "i < length rs" and "r_base (rs ! i) = base" and "\<forall>j<i. r_base (rs ! j) \<noteq> base"
    and "mark_metadata_pages (rs ! i) array_ptr offset [0..<unat n] = Some (c, r')"
  shows "mark_metadata rs base array_ptr offset n = Some (c, rs[i := r'])"
  using assms
proof (induction rs arbitrary: i)
  case (Cons r rs)
  show ?case
  proof (cases i)
    case 0
    with Cons.prems show ?thesis by simp
  next
    case (Suc j)
    have "mark_metadata rs base array_ptr offset n = Some (c, rs[j := r'])"
      by (rule Cons.IH) (use Cons.prems Suc in auto)
    moreover have "r_base r \<noteq> base" using Cons.prems(3) Suc by auto
    ultimately show ?thesis by (simp add: Suc)
  qed
qed simp

section \<open>Number and place of the reserved pages\<close>

text \<open>The number of reserved pages for a memory map, and where they start.\<close>

definition required_pages_of :: "memmap \<Rightarrow> u64" where
  "required_pages_of m = pmm_get_num_required_pages (fst (pmm_detect_memory m)) (snd (pmm_detect_memory m))"

definition metadata_base :: "memmap \<Rightarrow> u64" where
  "metadata_base m = find_metadata_base m (required_pages_of m)"

definition metadata_pages :: "memmap \<Rightarrow> u64 set" where
  "metadata_pages m = {metadata_base m + of_nat k * PAGE_SIZE_BYTE | k. k < unat (required_pages_of m)}"

lemma required_pages_of_bound:
  assumes "length m < 2 ^ 32"
  shows "unat (required_pages_of m) < 2 ^ 51"
proof -
  let ?pages = "snd (pmm_detect_memory m)"
  have "?pages = fold (\<lambda>e n. n + me_length e) m 0 div 4096"
    by (simp add: pmm_detect_memory_def Let_def)
  then have "unat ?pages = unat (fold (\<lambda>e n. n + me_length e) m 0) div 4096"
    by (simp only: unat_div_word) simp
  moreover have "n div 4096 \<le> 18446744073709551616 div 4096" if "n < 18446744073709551616" for n :: nat
    by (rule div_le_mono) (use that in simp)
  ultimately have pages: "unat ?pages \<le> 4503599627370496"
    using unat_u64_lt [of "fold (\<lambda>e n. n + me_length e) m 0"] by simp
  have q: "unat ((?pages + 7) div 8) \<le> 562949953421312"
  proof -
    have s: "unat (?pages + 7) = unat ?pages + 7" using pages by (subst unat_add_u64) auto
    have "(unat ?pages + 7) div 8 \<le> 4503599627370503 div 8"
      by (rule div_le_mono) (use pages in simp)
    then show ?thesis unfolding unat_div_word s by simp
  qed
  have regions: "unat (of_nat (length m) * sizeof_pmm_region_t) \<le> 206158430208"
    using assms by (simp add: sizeof_pmm_region_t_def unat_mult_u64 unat_of_nat_u64)
  let ?b = "of_nat (length m) * sizeof_pmm_region_t + (?pages + 7) div 8"
  have b: "unat ?b \<le> 563156111851520"
    using regions q by (subst unat_add_u64) auto
  have n: "unat (?b + PAGE_SIZE_BYTE - 1) \<le> 563156111855615"
  proof -
    have "?b + PAGE_SIZE_BYTE - 1 = ?b + 4095" by simp
    then show ?thesis using b by (simp only:) (subst unat_add_u64; simp)
  qed
  have "unat (required_pages_of m) = unat (?b + PAGE_SIZE_BYTE - 1) div 4096"
    unfolding required_pages_of_def pmm_get_num_required_pages_def Let_def unat_div_word
    by (simp add: pmm_detect_memory_def Let_def)
  also have "\<dots> \<le> unat (?b + PAGE_SIZE_BYTE - 1)" by (rule div_le_dividend)
  also have "\<dots> \<le> 563156111855615" by (rule n)
  finally show ?thesis by simp
qed

lemma metadata_entry:
  assumes ok: "memmap_ok m" and base: "metadata_base m \<noteq> 0"
  obtains i where "i < length m" "me_base (m ! i) = metadata_base m" "me_type (m ! i) = 0"
    "unat (required_pages_of m) \<le> unat (me_length (m ! i)) div 4096"
    "\<forall>j<i. me_base (m ! j) \<noteq> metadata_base m"
proof -
  let ?n = "required_pages_of m"
  obtain i where i: "i < length m" "me_type (m ! i) = 0" "me_length (m ! i) \<ge> ?n * PAGE_SIZE_BYTE"
    and eq: "me_base (m ! i) = metadata_base m"
    using base unfolding metadata_base_def find_metadata_base_def
    by (auto split: option.splits simp: find_Some_iff)
  have len: "length m < 2 ^ 32" using ok by (simp add: memmap_ok_def)
  have n: "unat (?n * PAGE_SIZE_BYTE) = unat ?n * 4096"
    using required_pages_of_bound [OF len] by (subst unat_mult_u64) auto
  have "unat ?n * 4096 \<le> unat (me_length (m ! i))"
    using i(3) unfolding word_le_nat_alt n .
  then have fits: "unat ?n \<le> unat (me_length (m ! i)) div 4096"
    by (simp add: less_eq_div_iff_mult_less_eq)
  have "me_base (m ! j) \<noteq> metadata_base m" if "j < i" for j
  proof -
    have "entry_end (m ! j) \<le> unat (me_base (m ! i))" "0 < unat (me_length (m ! j))"
      using ok that i(1) by (auto simp: memmap_ok_def sorted_wrt_iff_nth_less entry_ok_def)
    then show ?thesis unfolding eq [symmetric] by (auto simp: entry_end_def)
  qed
  with that [OF i(1) eq i(2) fits] show ?thesis by blast
qed

section \<open>The initialized state\<close>

definition memmap_pages :: "memmap \<Rightarrow> u64 set" where
  "memmap_pages m = {me_base e + of_nat p * PAGE_SIZE_BYTE | e p. e \<in> set m \<and> me_type e = 0 \<and>
     p < unat (me_length e) div 4096}"

text \<open>The state whose region array has just been built and nothing is reserved yet.\<close>

definition regions_state :: "memmap \<Rightarrow> u64 \<Rightarrow> u64 \<Rightarrow> pmm_state" where
  "regions_state m base offset =
     \<lparr>pmm_memory_size_pages = snd (pmm_detect_memory m), pmm_num_regions = of_nat (length m),
      phys_to_virt_offset = offset, pmm_regions_ptr = phys_to_virt base offset,
      pmm_regions = init_region_array m (base + of_nat (length m) * sizeof_pmm_region_t) offset,
      region_cache = 0, bitmap_cache = 0\<rparr>"

lemma regions_state_inv:
  assumes "memmap_ok m"
  shows "pmm_inv (regions_state m base offset)"
  using init_regions_sorted [OF assms] init_regions_ok [OF assms] assms
  by (simp add: pmm_inv_def regions_state_def memmap_ok_def)

lemma regions_state_pages:
  assumes ok: "memmap_ok m"
  shows "usable_pages (regions_state m base offset) = memmap_pages m"
    and "free_pages (regions_state m base offset) = memmap_pages m"
proof -
  let ?st = "regions_state m base offset"
  have reg: "length (pmm_regions ?st) = length m" by (simp add: regions_state_def)
  have facts: "r_type (pmm_regions ?st ! i) = MEMMAP_TYPE_USABLE \<longleftrightarrow> me_type (m ! i) = 0"
      "region_pages (pmm_regions ?st ! i) = unat (me_length (m ! i)) div 4096"
      "page_addr (pmm_regions ?st ! i) p = me_base (m ! i) + of_nat p * PAGE_SIZE_BYTE"
      "free_idx (r_bitmap (pmm_regions ?st ! i)) =
         (if me_type (m ! i) = 0 then {..<unat (me_length (m ! i)) div 4096} else {})"
    if i: "i < length m" for i p
  proof -
    have e: "entry_ok (m ! i)" using ok i by (simp add: memmap_ok_def)
    obtain bm where "pmm_regions ?st ! i =
        pmm_region_init bm (me_base (m ! i)) (me_length (m ! i)) (ucast (me_type (m ! i)))"
      using init_region_array_nth [OF i] by (auto simp: regions_state_def)
    note f = entry_region_facts [OF e this]
    show "r_type (pmm_regions ?st ! i) = MEMMAP_TYPE_USABLE \<longleftrightarrow> me_type (m ! i) = 0" by (fact f)
    show p: "region_pages (pmm_regions ?st ! i) = unat (me_length (m ! i)) div 4096"
      by (simp only: region_pages_def f(2))
    show "page_addr (pmm_regions ?st ! i) p = me_base (m ! i) + of_nat p * PAGE_SIZE_BYTE"
      by (simp only: page_addr_def f(1))
    show "free_idx (r_bitmap (pmm_regions ?st ! i)) =
        (if me_type (m ! i) = 0 then {..<unat (me_length (m ! i)) div 4096} else {})"
      unfolding f(6) p by (rule refl)
  qed
  let ?M = "\<lambda>i. {me_base (m ! i) + of_nat p * PAGE_SIZE_BYTE | p. me_type (m ! i) = 0 \<and>
      p < unat (me_length (m ! i)) div 4096}"
  have nth: "memmap_pages m = (\<Union>i<length m. ?M i)"
    by (auto simp: memmap_pages_def in_set_conv_nth)
  have usable_nth: "usable_pages s = (\<Union>i<length (pmm_regions s). {page_addr (pmm_regions s ! i) p | p.
      r_type (pmm_regions s ! i) = MEMMAP_TYPE_USABLE \<and> p < region_pages (pmm_regions s ! i)})"
    and free_nth: "free_pages s = (\<Union>i<length (pmm_regions s). {page_addr (pmm_regions s ! i) p | p.
      p \<in> free_idx (r_bitmap (pmm_regions s ! i))})" for s
    by (auto simp: usable_pages_def free_pages_def in_set_conv_nth)
  show "usable_pages ?st = memmap_pages m"
    unfolding usable_nth nth reg
    by (rule SUP_cong [OF refl]) (use facts(1,2,3) in \<open>simp only: lessThan_iff\<close>)
  have "{page_addr (pmm_regions ?st ! i) p | p. p \<in> free_idx (r_bitmap (pmm_regions ?st ! i))} = ?M i"
    if "i < length m" for i
    using facts(3,4) [OF that] by (cases "me_type (m ! i) = 0") (simp_all only: if_True if_False lessThan_iff
        empty_iff simp_thms Collect_empty_eq)
  then have "free_pages ?st = memmap_pages m"
    unfolding free_nth nth reg by (intro SUP_cong [OF refl]) simp
  then show "free_pages ?st = memmap_pages m" .
qed

lemma free_pages_remove_set:
  assumes inv: "pmm_inv st" and i: "i < length (pmm_regions st)"
    and same: "same_region (pmm_regions st ! i) r'" and st': "pmm_regions st' = (pmm_regions st)[i := r']"
    and P: "P \<subseteq> {..<region_pages (pmm_regions st ! i)}"
    and free: "free_idx (r_bitmap r') = free_idx (r_bitmap (pmm_regions st ! i)) - P"
  shows "free_pages st' = free_pages st - page_addr (pmm_regions st ! i) ` P"
  unfolding free_pages_update [OF inv i same st'] free
  using free_pages_iff [OF inv i] page_addr_inj [OF inv i i] P
    free_idx_pages [OF pmm_inv_region [OF inv i]] by blast

text \<open>\<open>pmm_init\<close> in terms of the state before the reservation.\<close>

lemma pmm_init_unfold:
  assumes "metadata_base m \<noteq> 0"
    and "mark_metadata (pmm_regions (regions_state m (metadata_base m) offset)) (metadata_base m)
      (phys_to_virt (metadata_base m) offset) offset (required_pages_of m) = Some (c, rs')"
  shows "pmm_init pmm_boot_state m offset =
    Some (c, (regions_state m (metadata_base m) offset)\<lparr>pmm_regions := rs'\<rparr>)"
proof -
  obtain n k where d: "pmm_detect_memory m = (n, k)" by (cases "pmm_detect_memory m")
  then have n: "n = of_nat (length m)" by (simp add: pmm_detect_memory_def Let_def)
  have req: "pmm_get_num_required_pages n k = required_pages_of m"
    by (simp add: required_pages_of_def d)
  have b: "find_metadata_base m (required_pages_of m) = metadata_base m"
    by (simp add: metadata_base_def)
  show ?thesis
    unfolding pmm_init_def d Let_def prod.case req b if_not_P [OF assms(1)]
    using assms(2) by (simp add: pmm_init_region_structs_def pmm_boot_state_def regions_state_def d n
        del: mark_metadata.simps)
qed

lemma pmm_init_state:
  assumes ok: "memmap_ok m" and base: "metadata_base m \<noteq> 0"
  shows "\<exists>st. pmm_init pmm_boot_state m offset = Some (PMM_OK, st) \<and> pmm_inv st \<and>
    usable_pages st = memmap_pages m \<and> free_pages st = memmap_pages m - metadata_pages m \<and>
    list_all2 same_region (pmm_regions (regions_state m (metadata_base m) offset)) (pmm_regions st)"
proof -
  let ?st = "regions_state m (metadata_base m) offset" and ?n = "required_pages_of m"
  obtain i where i: "i < length m" "me_base (m ! i) = metadata_base m" "me_type (m ! i) = 0"
    "unat ?n \<le> unat (me_length (m ! i)) div 4096" "\<forall>j<i. me_base (m ! j) \<noteq> metadata_base m"
    by (rule metadata_entry [OF ok base])
  have inv: "pmm_inv ?st" by (rule regions_state_inv [OF ok])
  have reg: "length (pmm_regions ?st) = length m" by (simp add: regions_state_def)
  have bases: "r_base (pmm_regions ?st ! j) = me_base (m ! j)" if j: "j < length m" for j
  proof -
    have "entry_ok (m ! j)" using ok j by (simp add: memmap_ok_def)
    moreover obtain bm where "pmm_regions ?st ! j =
        pmm_region_init bm (me_base (m ! j)) (me_length (m ! j)) (ucast (me_type (m ! j)))"
      using init_region_array_nth [OF j] by (auto simp: regions_state_def)
    ultimately show ?thesis by (rule entry_region_facts(1))
  qed
  let ?r = "pmm_regions ?st ! i"
  have e: "entry_ok (m ! i)" using ok i(1) by (simp add: memmap_ok_def)
  obtain bm where r: "?r = pmm_region_init bm (me_base (m ! i)) (me_length (m ! i)) (ucast (me_type (m ! i)))"
    using init_region_array_nth [OF i(1)] by (auto simp: regions_state_def)
  note f = entry_region_facts [OF e r]
  have rp: "region_pages ?r = unat (me_length (m ! i)) div 4096"
    by (simp only: region_pages_def f(2))
  have free: "free_idx (r_bitmap ?r) = {..<region_pages ?r}" using f(6) i(3) by simp
  have rinv: "region_inv ?r" using f(5) by (simp only: pmm_region_ok_def)
  have "r_base ?r = phys_to_virt (metadata_base m) offset - offset"
    unfolding f(1) i(2) by (simp add: phys_to_virt_def)
  moreover have sub: "set [0..<unat ?n] \<subseteq> free_idx (r_bitmap ?r)"
    unfolding free rp using i(4) by auto
  ultimately obtain r' where r': "mark_metadata_pages ?r (phys_to_virt (metadata_base m) offset) offset
      [0..<unat ?n] = Some (PMM_OK, r')" "region_inv r'" "same_region ?r r'"
      "free_idx (r_bitmap r') = free_idx (r_bitmap ?r) - set [0..<unat ?n]"
    using mark_metadata_pages_correct [OF rinv, of _ offset "[0..<unat ?n]"] by auto
  let ?st' = "?st\<lparr>pmm_regions := (pmm_regions ?st)[i := r'], bitmap_cache := 0, region_cache := 0\<rparr>"
  have mark: "mark_metadata (pmm_regions ?st) (metadata_base m) (phys_to_virt (metadata_base m) offset)
      offset ?n = Some (PMM_OK, (pmm_regions ?st)[i := r'])"
    by (rule mark_metadata_found) (use r'(1) i bases reg in auto)
  have "pmm_init pmm_boot_state m offset = Some (PMM_OK, ?st')"
    using pmm_init_unfold [OF base mark] by (simp add: regions_state_def)
  moreover have "pmm_region_ok r'"
    by (rule pmm_region_ok_update [OF f(5) r'(2,3)]) (use f(4) i(3) in simp)
  then have "pmm_inv ?st'" using pmm_inv_update [OF inv _ _ r'(3)] i(1) reg by simp
  moreover have "usable_pages ?st' = memmap_pages m"
    using usable_pages_update_same [of i ?st r' ?st'] r'(3) i(1) reg regions_state_pages(1) [OF ok] by simp
  moreover have "free_pages ?st' = memmap_pages m - page_addr ?r ` set [0..<unat ?n]"
    using free_pages_remove_set [OF inv _ r'(3), of ?st' "set [0..<unat ?n]"] r'(4) i(1) reg sub free
      regions_state_pages(2) [OF ok] by simp
  moreover have "page_addr ?r ` set [0..<unat ?n] = metadata_pages m"
    by (auto simp: metadata_pages_def page_addr_def f(1) i(2))
  moreover have "list_all2 same_region (pmm_regions ?st) (pmm_regions ?st')"
    unfolding list_all2_conv_all_nth
  proof (intro conjI allI impI)
    fix j show "same_region (pmm_regions ?st ! j) (pmm_regions ?st' ! j)"
      using r'(3) i(1) reg by (cases "i = j") simp_all
  qed simp
  ultimately show ?thesis by auto
qed

text \<open>A memory map to run the manager on: two usable entries around a reserved one.\<close>

definition demo_memmap :: memmap where
  "demo_memmap = [\<lparr>me_base = 0x1000, me_length = 0x8000, me_type = 0\<rparr>,
     \<lparr>me_base = 0x9000, me_length = 0x1000, me_type = 1\<rparr>,
     \<lparr>me_base = 0x100000, me_length = 0x10000, me_type = 0\<rparr>]"

lemma demo_memmap_ok: "memmap_ok demo_memmap"
  by (simp add: demo_memmap_def memmap_ok_def entry_ok_def init_region_ok_def entry_end_def)

lemma demo_metadata: "required_pages_of demo_memmap = 1" "metadata_base demo_memmap = 0x1000"
  by (simp_all add: required_pages_of_def metadata_base_def demo_memmap_def pmm_detect_memory_def
      pmm_get_num_required_pages_def sizeof_pmm_region_t_def find_metadata_base_def Let_def)

section \<open>Layout of the bitmaps\<close>

text \<open>Bytes of the bitmap of an entry, and the offset of bitmap \<open>i\<close> from the metadata's base.\<close>

definition bitmap_bytes :: "limine_memmap_entry \<Rightarrow> nat" where
  "bitmap_bytes e = (unat (me_length e) div 4096 + 7) div 8"

definition bitmap_offset :: "memmap \<Rightarrow> nat \<Rightarrow> nat" where
  "bitmap_offset m i = 48 * length m + (\<Sum>e \<leftarrow> take i m. bitmap_bytes e)"

lemma bitmap_offset_Suc:
  "i < length m \<Longrightarrow> bitmap_offset m (Suc i) = bitmap_offset m i + bitmap_bytes (m ! i)"
  by (simp add: bitmap_offset_def take_Suc_conv_app_nth)

lemma bitmap_offset_mono: "i \<le> j \<Longrightarrow> bitmap_offset m i \<le> bitmap_offset m j"
proof (induction j rule: dec_induct)
  case (step j)
  then show ?case
    by (cases "j < length m") (simp_all add: bitmap_offset_def take_Suc_conv_app_nth)
qed simp

lemma init_region_array_ptr:
  assumes "\<forall>e \<in> set m. unat (me_length e) < 2 ^ 63" and "i < length m"
  shows "r_bitmap_ptr (init_region_array m bb offset ! i) =
      bb + of_nat (\<Sum>e \<leftarrow> take i m. bitmap_bytes e) + offset \<and>
    unat (r_bitmap_size (init_region_array m bb offset ! i)) = bitmap_bytes (m ! i)"
  using assms
proof (induction m arbitrary: bb i)
  case (Cons e m)
  have l: "unat (me_length e) < 2 ^ 63" using Cons.prems(1) by simp
  let ?r = "pmm_region_init (phys_to_virt bb offset) (me_base e) (me_length e) (ucast (me_type e))"
  note f = region_init_fields [OF l refl]
  have size: "unat (r_bitmap_size ?r) = bitmap_bytes e"
    unfolding f(5) bitmap_bytes_def by (rule refl)
  then have w: "r_bitmap_size ?r = of_nat (bitmap_bytes e)"
    unfolding size [symmetric] by simp
  show ?case
  proof (cases i)
    case 0
    then show ?thesis using size by (simp add: Let_def f(4) phys_to_virt_def)
  next
    case (Suc j)
    have "j < length m" "\<forall>e \<in> set m. unat (me_length e) < 2 ^ 63" using Cons.prems Suc by auto
    then show ?thesis using Cons.IH [of j] w by (simp add: Suc Let_def ac_simps)
  qed
qed simp

lemma sorted_entries_length_sum:
  assumes "sorted_wrt (\<lambda>a b. entry_end a \<le> unat (me_base b)) m"
    and "\<forall>e \<in> set m. entry_end e < 2 ^ 64"
  shows "(\<Sum>e \<leftarrow> m. unat (me_length e)) < 2 ^ 64"
proof -
  have "(\<Sum>e \<leftarrow> m. unat (me_length e)) + b \<le> c \<or> m = []"
    if "sorted_wrt (\<lambda>a b. entry_end a \<le> unat (me_base b)) m" "\<forall>e \<in> set m. entry_end e \<le> c"
      "\<forall>e \<in> set m. b \<le> unat (me_base e)" for b c
    using that
  proof (induction m arbitrary: b)
    case (Cons e m)
    have "m = [] \<or> (\<Sum>e \<leftarrow> m. unat (me_length e)) + entry_end e \<le> c"
      using Cons.IH [of "entry_end e"] Cons.prems by auto
    moreover have "entry_end e \<le> c" "b \<le> unat (me_base e)" using Cons.prems by auto
    ultimately show ?case by (auto simp: entry_end_def)
  qed simp
  note this [of "18446744073709551615" 0]
  moreover have "\<forall>e \<in> set m. entry_end e \<le> 18446744073709551615"
    using assms(2) by fastforce
  ultimately have "(\<Sum>e \<leftarrow> m. unat (me_length e)) + 0 \<le> 18446744073709551615 \<or> m = []"
    using assms(1) by blast
  then show ?thesis by auto
qed

lemma fold_lengths:
  assumes "n + (\<Sum>e \<leftarrow> m. unat (me_length e)) < 2 ^ 64"
  shows "unat (fold (\<lambda>e w. w + me_length e) m (of_nat n)) = n + (\<Sum>e \<leftarrow> m. unat (me_length e))"
  using assms
proof (induction m arbitrary: n)
  case (Cons e m)
  have "of_nat n + me_length e = (of_nat (n + unat (me_length e)) :: u64)" by simp
  moreover have "unat (fold (\<lambda>e w. w + me_length e) m (of_nat (n + unat (me_length e)))) =
      n + unat (me_length e) + (\<Sum>e \<leftarrow> m. unat (me_length e))"
    by (rule Cons.IH) (use Cons.prems in \<open>simp add: add.assoc\<close>)
  ultimately show ?case by (simp only: fold_simps list.map sum_list.Cons add.assoc)
qed (simp add: unat_of_nat_u64)

lemma metadata_total:
  assumes ok: "memmap_ok m" and dvd: "\<forall>e \<in> set m. 32768 dvd unat (me_length e)"
  shows "bitmap_offset m (length m) \<le> unat (required_pages_of m) * 4096"
proof -
  let ?t = "\<Sum>e \<leftarrow> m. unat (me_length e)"
  have len: "length m < 2 ^ 32" using ok by (simp add: memmap_ok_def)
  have ends: "\<forall>e \<in> set m. entry_end e < 2 ^ 64"
    using ok by (auto simp: memmap_ok_def entry_ok_def init_region_ok_def entry_end_def)
  have t: "?t < 2 ^ 64"
    using sorted_entries_length_sum ends ok by (simp only: memmap_ok_def)
  have bytes: "(\<Sum>e \<leftarrow> m. bitmap_bytes e) * 32768 = ?t"
    using dvd
  proof (induction m)
    case (Cons e m)
    from Cons.prems obtain k where "unat (me_length e) = 32768 * k" by (auto elim: dvdE)
    then show ?case using Cons by (simp add: bitmap_bytes_def)
  qed simp
  let ?b = "\<Sum>e \<leftarrow> m. bitmap_bytes e"
  let ?pages = "snd (pmm_detect_memory m)"
  have "unat (fold (\<lambda>e n. n + me_length e) m 0) = ?t"
    using fold_lengths [of 0 m] t by simp
  then have pages: "unat ?pages = 8 * ?b"
    using bytes by (simp add: pmm_detect_memory_def Let_def unat_div_word)
  have b: "?b < 2 ^ 49" using bytes t by simp
  have q: "unat ((?pages + 7) div 8) = ?b"
    using pages b by (simp add: unat_div_word) (subst unat_add_u64; simp)
  have n: "unat (of_nat (length m) * sizeof_pmm_region_t) = 48 * length m"
    using len by (simp add: sizeof_pmm_region_t_def unat_mult_u64 unat_of_nat_u64)
  have off: "bitmap_offset m (length m) = 48 * length m + ?b" by (simp add: bitmap_offset_def)
  have "unat (of_nat (length m) * sizeof_pmm_region_t + (?pages + 7) div 8) = bitmap_offset m (length m)"
    unfolding off using n q b len by (subst unat_add_u64) auto
  moreover have small: "bitmap_offset m (length m) < 2 ^ 50" unfolding off using b len by simp
  ultimately have "unat (of_nat (length m) * sizeof_pmm_region_t + (?pages + 7) div 8 + 4095) =
      bitmap_offset m (length m) + 4095"
    by (subst unat_add_u64) auto
  moreover have "w + PAGE_SIZE_BYTE - 1 = w + 4095" for w :: u64 by simp
  moreover have "required_pages_of m = (of_nat (length m) * sizeof_pmm_region_t + (?pages + 7) div 8 +
      PAGE_SIZE_BYTE - 1) div 4096"
    by (simp add: required_pages_of_def pmm_get_num_required_pages_def pmm_detect_memory_def Let_def)
  ultimately have "unat (required_pages_of m) = (bitmap_offset m (length m) + 4095) div 4096"
    by (simp only: unat_div_word) simp
  then show ?thesis by simp
qed

section \<open>Properties\<close>



text \<open>
  C30: the layout of the metadata. If every entry has a multiple of 8 pages, the bitmaps lie one
  after the other behind the region array, without overlaps, and all of them inside the pages
  that \<open>pmm_init\<close> reserves.
\<close>

theorem pmm_metadata_fits:
  assumes ok: "memmap_ok m" and base: "metadata_base m \<noteq> 0"
    and dvd: "\<forall>e \<in> set m. 32768 dvd unat (me_length e)"
  shows "\<exists>st. pmm_init pmm_boot_state m offset = Some (PMM_OK, st) \<and>
    (\<forall>i < length m.
       r_bitmap_ptr (pmm_regions st ! i) = metadata_base m + of_nat (bitmap_offset m i) + offset \<and>
       unat (r_bitmap_size (pmm_regions st ! i)) = bitmap_bytes (m ! i) \<and>
       48 * length m \<le> bitmap_offset m i \<and>
       bitmap_offset m i + bitmap_bytes (m ! i) \<le> unat (required_pages_of m) * 4096 \<and>
       (\<forall>j. i < j \<longrightarrow> bitmap_offset m i + bitmap_bytes (m ! i) \<le> bitmap_offset m j))"
proof -
  obtain st where st: "pmm_init pmm_boot_state m offset = Some (PMM_OK, st)"
    and same: "list_all2 same_region (pmm_regions (regions_state m (metadata_base m) offset)) (pmm_regions st)"
    using pmm_init_state [OF ok base] by blast
  have l: "\<forall>e \<in> set m. unat (me_length e) < 2 ^ 63"
    using ok by (simp add: memmap_ok_def entry_ok_def init_region_ok_def)
  { fix i assume i: "i < length m"
    note r = init_region_array_ptr [OF l i, of "metadata_base m + of_nat (length m) * sizeof_pmm_region_t" offset]
    have s: "same_region (pmm_regions (regions_state m (metadata_base m) offset) ! i) (pmm_regions st ! i)"
      using list_all2_nthD [OF same, of i] i by (simp add: regions_state_def)
    have "r_bitmap_ptr (pmm_regions st ! i) = metadata_base m + of_nat (bitmap_offset m i) + offset"
      "unat (r_bitmap_size (pmm_regions st ! i)) = bitmap_bytes (m ! i)"
      using r s by (simp_all add: same_region_def regions_state_def bitmap_offset_def sizeof_pmm_region_t_def ac_simps)
    moreover have "48 * length m \<le> bitmap_offset m i" by (simp add: bitmap_offset_def)
    moreover have "bitmap_offset m i + bitmap_bytes (m ! i) \<le> bitmap_offset m j" if "i < j" for j
      using bitmap_offset_mono [of "Suc i" j m] that by (simp add: bitmap_offset_Suc [OF i])
    moreover from this [OF i] metadata_total [OF ok dvd]
    have "bitmap_offset m i + bitmap_bytes (m ! i) \<le> unat (required_pages_of m) * 4096"
      by (rule order.trans)
    moreover note calculation }
  with st show ?thesis by blast
qed

lemma pmm_metadata_fits_witness:
  "\<exists>st. pmm_init pmm_boot_state
      [\<lparr>me_base = 0x1000, me_length = 0x8000, me_type = 0\<rparr>, \<lparr>me_base = 0x100000, me_length = 0x10000, me_type = 0\<rparr>]
      0xffff800000000000 = Some (PMM_OK, st) \<and>
    r_bitmap_ptr (pmm_regions st ! 1) = 0xffff800000001061"
proof -
  let ?m = "[\<lparr>me_base = 0x1000, me_length = 0x8000, me_type = 0\<rparr>, \<lparr>me_base = 0x100000, me_length = 0x10000, me_type = 0\<rparr>] :: memmap"
  have ok: "memmap_ok ?m"
    by (simp add: memmap_ok_def entry_ok_def init_region_ok_def entry_end_def)
  have b: "metadata_base ?m = 0x1000"
    by (simp add: required_pages_of_def metadata_base_def pmm_detect_memory_def
        pmm_get_num_required_pages_def sizeof_pmm_region_t_def find_metadata_base_def Let_def)
  have "bitmap_offset ?m 1 = 97" by (simp add: bitmap_offset_def bitmap_bytes_def)
  with pmm_metadata_fits [OF ok, of "0xffff800000000000"] show ?thesis by (fastforce simp: b)
qed

text \<open>
  C12: without that condition the reserved pages can be too few, since the bitmaps round up one by
  one and \<open>pmm_get_num_required_pages\<close> rounds their sum: with these three entries one page is
  reserved, the bitmap of the third region starts on the page after it, and that page is free.
\<close>

definition spill_memmap :: memmap where
  "spill_memmap = [\<lparr>me_base = 0x100000, me_length = 0x7b78000, me_type = 0\<rparr>,
     \<lparr>me_base = 0x8000000, me_length = 0x1000, me_type = 1\<rparr>,
     \<lparr>me_base = 0x9000000, me_length = 0x7000, me_type = 1\<rparr>]"

theorem pmm_metadata_spills:
  "\<exists>st. pmm_init pmm_boot_state spill_memmap 0 = Some (PMM_OK, st) \<and>
    0 < r_bitmap_size (pmm_regions st ! 2) \<and> r_bitmap_ptr (pmm_regions st ! 2) = 0x101000 \<and>
    0x101000 \<in> free_pages st"
proof -
  have ok: "memmap_ok spill_memmap"
    by (simp add: spill_memmap_def memmap_ok_def entry_ok_def init_region_ok_def entry_end_def)
  have req: "required_pages_of spill_memmap = 1" and b: "metadata_base spill_memmap = 0x100000"
    by (simp_all add: required_pages_of_def metadata_base_def pmm_detect_memory_def spill_memmap_def
        pmm_get_num_required_pages_def sizeof_pmm_region_t_def find_metadata_base_def Let_def)
  obtain st where st: "pmm_init pmm_boot_state spill_memmap 0 = Some (PMM_OK, st)"
      "free_pages st = memmap_pages spill_memmap - metadata_pages spill_memmap"
    and same: "list_all2 same_region (pmm_regions (regions_state spill_memmap 0x100000 0)) (pmm_regions st)"
    using pmm_init_state [OF ok, of 0] by (auto simp: b)
  have l: "\<forall>e \<in> set spill_memmap. unat (me_length e) < 2 ^ 63"
    by (simp add: spill_memmap_def)
  have len: "2 < length spill_memmap" by (simp add: spill_memmap_def)
  have r: "r_bitmap_ptr (pmm_regions (regions_state spill_memmap 0x100000 0) ! 2) = 0x101000"
    "unat (r_bitmap_size (pmm_regions (regions_state spill_memmap 0x100000 0) ! 2)) = 1"
    using init_region_array_ptr [OF l len] 
    by (simp_all add: regions_state_def) (simp_all add: spill_memmap_def bitmap_bytes_def sizeof_pmm_region_t_def)
  have "same_region (pmm_regions (regions_state spill_memmap 0x100000 0) ! 2) (pmm_regions st ! 2)"
    using list_all2_nthD [OF same, of 2] len by (simp add: regions_state_def)
  then have "r_bitmap_ptr (pmm_regions st ! 2) = 0x101000" "unat (r_bitmap_size (pmm_regions st ! 2)) = 1"
    using r by (simp_all add: same_region_def)
  moreover have "0x101000 \<in> memmap_pages spill_memmap"
    unfolding memmap_pages_def
    by (auto intro!: exI [of _ "\<lparr>me_base = 0x100000, me_length = 0x7b78000, me_type = 0\<rparr>"] exI [of _ "1::nat"]
        simp: spill_memmap_def)
  moreover have "0x101000 \<notin> metadata_pages spill_memmap"
    by (simp add: metadata_pages_def req b)
  ultimately show ?thesis using st by (auto simp: word_less_nat_alt)
qed


section \<open>Witnesses of the properties of the manager\<close>

abbreviation (input) demo_state :: pmm_state where
  "demo_state \<equiv> regions_state demo_memmap 0x1000 0"

lemma demo_state_inv: "pmm_inv demo_state"
  by (rule regions_state_inv [OF demo_memmap_ok])

lemma demo_state_regions:
  "map (\<lambda>r. (r_base r, r_length r, r_type r)) (pmm_regions demo_state) =
     [(0x1000, 0x8000, 0), (0x9000, 0x1000, 1), (0x100000, 0x10000, 0)]"
  by (simp add: regions_state_def demo_memmap_def Let_def pmm_region_init_def)

lemma demo_state_nth:
  "length (pmm_regions demo_state) = 3"
  "r_base (pmm_regions demo_state ! 2) = 0x100000" "r_length (pmm_regions demo_state ! 2) = 0x10000"
  by (simp_all add: regions_state_def demo_memmap_def Let_def pmm_region_init_def)

lemma demo_memmap_page: "0x1000 \<in> memmap_pages demo_memmap"
proof -
  have "\<lparr>me_base = 0x1000, me_length = 0x8000, me_type = 0\<rparr> \<in> set demo_memmap"
    by (simp add: demo_memmap_def)
  then show ?thesis
    unfolding memmap_pages_def by (auto intro!: exI [of _ "\<lparr>me_base = 0x1000, me_length = 0x8000, me_type = 0\<rparr>"]
        exI [of _ "0::nat"])
qed

lemma pmm_alloc_correct_witness:
  "\<exists>ptr st'. pmm_alloc demo_state = Some (ptr, st') \<and> pmm_inv st' \<and> ptr \<in> memmap_pages demo_memmap \<and>
     free_pages st' = memmap_pages demo_memmap - {ptr}"
proof -
  have ne: "memmap_pages demo_memmap \<noteq> {}" using demo_memmap_page by blast
  from pmm_alloc_correct [OF demo_state_inv]
  show ?thesis unfolding regions_state_pages [OF demo_memmap_ok] if_not_P [OF ne] by blast
qed

lemma region_lookup_correct_witness:
  "get_region_containing_page demo_state 0x102000 = Some (PMM_OK, 2)"
  using region_lookup_correct [OF demo_state_inv, of 2 "0x102000"]
  by (simp add: demo_state_nth region_contains_def region_end_def)

lemma region_lookup_missing_escapes_witness:
  "get_region_containing_page demo_state 0x50000 = None"
proof -
  have "\<forall>r \<in> set (pmm_regions demo_state). \<not> region_contains r 0x50000"
    by (simp add: regions_state_def demo_memmap_def Let_def pmm_region_init_def region_contains_def region_end_def)
  from region_lookup_missing_escapes [OF demo_state_inv _ this] show ?thesis
    by (simp add: demo_state_nth)
qed

lemma pmm_free_correct_witness:
  "\<exists>st st'. pmm_init pmm_boot_state demo_memmap 0 = Some (PMM_OK, st) \<and>
     pmm_free st 0x1000 = Some (PMM_OK, st') \<and> free_pages st' = insert 0x1000 (free_pages st)"
proof -
  obtain st where st: "pmm_init pmm_boot_state demo_memmap 0 = Some (PMM_OK, st)" "pmm_inv st"
      "usable_pages st = memmap_pages demo_memmap"
      "free_pages st = memmap_pages demo_memmap - metadata_pages demo_memmap"
    using pmm_init_state [OF demo_memmap_ok, of 0] by (auto simp: demo_metadata(2))
  have used: "0x1000 \<notin> free_pages st"
    unfolding st(4) metadata_pages_def demo_metadata by (auto intro: exI [of _ "0::nat"])
  have "0x1000 \<in> usable_pages st" unfolding st(3) by (rule demo_memmap_page)
  from pmm_free_correct [OF st(2) this used] st(1) show ?thesis by (elim exE conjE) (intro exI conjI)
qed

lemma pmm_alloc_times_distinct_witness:
  "\<exists>as st'. alloc_times pmm_alloc 1 demo_state = Some (as, st') \<and> length as = 1 \<and>
     set as \<subseteq> memmap_pages demo_memmap"
proof -
  have "free_pages demo_state \<noteq> {}"
    using demo_memmap_page by (auto simp: regions_state_pages(2) [OF demo_memmap_ok])
  then have "1 \<le> card (free_pages demo_state)"
    by (simp add: Suc_le_eq card_gt_0_iff finite_free_pages)
  from pmm_alloc_times_distinct [OF demo_state_inv this]
  show ?thesis unfolding regions_state_pages [OF demo_memmap_ok] by blast
qed

lemma pmm_check_page_value_witness:
  "pmm_check_page demo_state 0x103000 =
     Some (if 0x103000 \<in> free_pages demo_state then PMM_PAGE_FREE else 8)"
proof -
  have addr: "page_addr (pmm_regions demo_state ! 2) 3 = 0x103000"
    by (simp add: demo_state_nth page_addr_def)
  have "2 < length (pmm_regions demo_state)" "3 < region_pages (pmm_regions demo_state ! 2)"
    by (simp_all add: demo_state_nth region_pages_def)
  from pmm_check_page_value [OF demo_state_inv this] show ?thesis
    unfolding addr by simp
qed

end
