(* ===== verification/PagingCorrect.thy ===== *)
theory PagingCorrect
  imports PagingTree PmmInit
begin

text \<open>
  Correctness of mapping, unmapping and resolving (kernel/src/memory/paging.c): on well-formed page
  tables the operations are updates of and lookups in the map from paths to pages.
\<close>

section \<open>The abstract page map\<close>

definition virt_path :: "u64 \<Rightarrow> page_size_t \<Rightarrow> nat list" where
  "virt_path virt page_size =
     (let i4 = unat (pml4_index virt); i3 = unat (pdpr_index virt);
          i2 = unat (pd_index virt); i1 = unat (pt_index virt)
      in case page_size of PAGE_SIZE_1GB \<Rightarrow> [i3, i4] | PAGE_SIZE_2MB \<Rightarrow> [i2, i3, i4]
         | PAGE_SIZE_4KB \<Rightarrow> [i1, i2, i3, i4])"

fun leaf_level :: "page_size_t \<Rightarrow> page_table_level_t" where
  "leaf_level PAGE_SIZE_1GB = PDPR"
| "leaf_level PAGE_SIZE_2MB = PD"
| "leaf_level PAGE_SIZE_4KB = PT"

text \<open>The physical page of an address: the entry at the one path of it that leads to a page.\<close>

definition resolve_pages :: "(nat list \<Rightarrow> page_table_entry_t option) \<Rightarrow> u64 \<Rightarrow> u64" where
  "resolve_pages m virt =
     (case m (virt_path virt PAGE_SIZE_1GB) of Some e \<Rightarrow> entry_base 30 10 e | None \<Rightarrow>
      case m (virt_path virt PAGE_SIZE_2MB) of Some e \<Rightarrow> entry_base 21 19 e | None \<Rightarrow>
      case m (virt_path virt PAGE_SIZE_4KB) of Some e \<Rightarrow> entry_base 12 28 e | None \<Rightarrow> 0)"

lemma virt_path_valid: "valid_page_path (virt_path virt page_size)"
  by (cases page_size) (simp_all add: virt_path_def valid_path_def index_bound)

lemma virt_paths:
  "virt_path virt PAGE_SIZE_1GB = [unat (pdpr_index virt), unat (pml4_index virt)]"
  "virt_path virt PAGE_SIZE_2MB = unat (pd_index virt) # virt_path virt PAGE_SIZE_1GB"
  "virt_path virt PAGE_SIZE_4KB = unat (pt_index virt) # virt_path virt PAGE_SIZE_2MB"
  by (simp_all add: virt_path_def Let_def)

lemma virt_tables_valid:
  "valid_path [unat (pml4_index virt)]"
  "valid_path (virt_path virt PAGE_SIZE_1GB)" "valid_path (virt_path virt PAGE_SIZE_2MB)"
  by (simp_all add: virt_path_def valid_path_def index_bound)

section \<open>Resolving\<close>

lemma resolve_refines_lookup:
  "paging_resolve_virtual_address root virt st = resolve_pages (pages st root) virt"
proof -
  have p: "pages st root (virt_path virt s) = page_at st root (virt_path virt s)" for s
    by (simp add: pages_def virt_path_valid)
  show ?thesis
    unfolding resolve_pages_def p
    unfolding virt_paths paging_resolve_virtual_address_def Let_def present_iff base_field
    by (simp add: Let_def is_pointer_def is_page_def child_table_def)
qed

section \<open>Steps of the walk\<close>

definition pointer_level :: "nat \<Rightarrow> layout \<Rightarrow> page_table_level_t \<Rightarrow> bool" where
  "pointer_level n fs level \<longleftrightarrow>
     (n, fs, level) \<in> {(0, pml4_pointer_fields, PML4), (1, pdpr_pointer_fields, PDPR), (2, pd_pointer_fields, PD)}"

definition page_level :: "nat \<Rightarrow> layout \<Rightarrow> page_table_level_t \<Rightarrow> bool" where
  "page_level n fs level \<longleftrightarrow>
     (n, fs, level) \<in> {(1, pdpr_page_fields, PDPR), (2, pd_page_fields, PD), (3, pt_page_fields, PT)}"

lemma pointer_level_facts:
  assumes "pointer_level n fs level"
  shows "n < 3" "get_field fs ''present'' e = 0 \<longleftrightarrow> \<not> bit e 0"
    "push_bit 12 (get_field fs ''base_address'' e) = entry_base 12 28 e"
    "paging_create_entry a flags level PAGING_ENTRY_POINTER = entry_word 12 28 a flags"
  using assms by (auto simp: pointer_level_def present_iff base_field create_entry_word)

lemma page_level_facts:
  assumes "page_level n fs level"
  shows "0 < n" "n \<le> 3" "get_field fs ''present'' e = 0 \<longleftrightarrow> \<not> bit e 0"
    "k < 12 \<Longrightarrow> bit (paging_create_entry a flags level PAGING_ENTRY_PAGE) k = bit flags k"
  using assms by (auto simp: page_level_def present_iff create_entry_word bit_entry_word)

lemma present_kind:
  assumes "table_at st root p = Some t" "length p < 3" "page_at st root (i # p) = None"
    "bit (read_entry st t (of_nat i)) 0"
  shows "table_at st root (i # p) = Some (child_table st (read_entry st t (of_nat i)))"
proof -
  have "length p = 0 \<or> length p = 1 \<or> length p = 2" using assms(2) by arith
  then show ?thesis using assms(1,3,4) by (auto simp: is_pointer_def is_page_def Let_def split: if_splits)
qed

lemma next_table_correct:
  assumes inv: "paging_inv st root" and p: "valid_path (i # p)" "table_at st root p = Some t"
    and lv: "pointer_level (length p) fs level" and nopage: "page_at st root (i # p) = None"
    and free: "free_pages (pg_pmm st) \<noteq> {}"
  obtains t' st' where "next_table fs level t (of_nat i) st = Some (Some t', st')"
    "paging_inv st' root" "table_at st' root (i # p) = Some t'" "pages st' root = pages st root"
    "pg_tlb st' = pg_tlb st" "\<And>q. valid_path q \<Longrightarrow> q \<noteq> i # p \<Longrightarrow> table_at st' root q = table_at st root q"
    "card (free_pages (pg_pmm st)) \<le> Suc (card (free_pages (pg_pmm st')))"
    "table_at st root (i # p) \<noteq> None \<Longrightarrow> st' = st"
proof -
  note lf = pointer_level_facts [OF lv]
  show ?thesis
  proof (cases "bit (read_entry st t (of_nat i)) 0")
    case True
    let ?c = "child_table st (read_entry st t (of_nat i))"
    have "next_table fs level t (of_nat i) st = Some (Some ?c, st)"
      using True by (simp add: next_table_def lf(2,3) child_table_def)
    then show ?thesis using that [of ?c st] present_kind [OF p(2) lf(1) nopage True] inv by simp
  next
    case False
    let ?h = "g_hhdm_offset st"
    have pinv: "pmm_inv (pg_pmm st)" by (rule paging_inv_pmm_inv(1) [OF inv])
    then obtain a pm where pm: "pmm_alloc (pg_pmm st) = Some (a, pm)" "pmm_inv pm"
        "usable_pages pm = usable_pages (pg_pmm st)" "a \<in> free_pages (pg_pmm st)"
        "free_pages pm = free_pages (pg_pmm st) - {a}"
      using pmm_pages.alloc_some [OF pinv free] by blast
    have au: "a \<in> usable_pages (pg_pmm st)" using pm(4) pmm_pages.free_managed [OF pinv] by blast
    have nz: "a + ?h \<noteq> 0" by (rule paging_inv_pmm_inv(3) [OF inv au])
    let ?st1 = "st\<lparr>pg_pmm := pm\<rparr>"
    have "\<forall>q u. valid_path q \<and> table_at st root q = Some u \<longrightarrow> u - ?h \<notin> free_pages pm"
      using paging_inv_table(3) [OF inv] pm(5) by auto
    note st1 = paging_inv_pmm [OF inv pm(2,3) this]
    have rd: "read_entry ?st1 = read_entry st" by (simp add: read_entry_def fun_eq_iff)
    have h1: "g_hhdm_offset ?st1 = ?h" by simp
    have fresh: "\<forall>q u. valid_path q \<and> table_at ?st1 root q = Some u \<longrightarrow> u \<noteq> a + g_hhdm_offset ?st1"
    proof (intro allI impI notI)
      fix q u assume *: "valid_path q \<and> table_at ?st1 root q = Some u" "u = a + g_hhdm_offset ?st1"
      then have "table_at st root q = Some (a + ?h)" by (simp add: st1(2))
      then have "a + ?h - ?h \<notin> free_pages (pg_pmm st)" using paging_inv_table(3) [OF inv] * by blast
      with pm(4) show False by simp
    qed
    let ?st' = "write_entry t (of_nat i) (entry_word 12 28 a (PAGING_FLAG_PRESENT OR PAGING_FLAG_WRITABLE))
      (zero_table (a + g_hhdm_offset ?st1) ?st1)"
    have "next_table fs level t (of_nat i) st = Some (Some (a + ?h), ?st')"
      using False nz by (simp add: next_table_def lf(2,4) pm(1) Let_def)
    moreover
    have p1: "table_at ?st1 root p = Some t" unfolding st1(2) by (rule p(2))
    have old: "\<not> bit (read_entry ?st1 t (of_nat i)) 0" unfolding rd by (rule False)
    have pg: "a \<in> usable_pages (pg_pmm ?st1)" "a \<notin> free_pages (pg_pmm ?st1)" using au pm(3,5) by simp_all
    note link = link_table [OF st1(1) p(1) p1 old pg fresh refl]
    have "card (free_pages (pg_pmm st)) = Suc (card (free_pages pm))"
      using pm(4,5) finite_free_pages card_Suc_Diff1 by metis
    moreover have "table_at st root (i # p) = None" by (rule not_present_entry(1) [OF p(2) False])
    ultimately show ?thesis using that [of "a + ?h" ?st'] link st1(2,3) h1 by simp
  qed
qed

text \<open>
  What an operation on a page table leaves alone: the manager's pages and every table entry that does
  not lie in one of them, as the entries of a page table that the manager did not hand out.
\<close>

definition untouched :: "paging_state \<Rightarrow> paging_state \<Rightarrow> bool" where
  "untouched st st' \<longleftrightarrow>
     g_hhdm_offset st' = g_hhdm_offset st \<and> usable_pages (pg_pmm st') = usable_pages (pg_pmm st) \<and>
     (\<forall>t i. i < 512 \<and> aligned_table st t \<and> t - g_hhdm_offset st \<notin> usable_pages (pg_pmm st) \<longrightarrow>
        read_entry st' t (of_nat i) = read_entry st t (of_nat i))"

lemma untouched_refl [simp]: "untouched st st"
  by (simp add: untouched_def)

lemma untouched_trans: "untouched st st' \<Longrightarrow> untouched st' st'' \<Longrightarrow> untouched st st''"
  by (simp add: untouched_def aligned_table_def)

lemma untouched_write:
  assumes "aligned_table st t" "t - g_hhdm_offset st \<in> usable_pages (pg_pmm st)" "i < 512"
  shows "untouched st (write_entry t (of_nat i) e st)"
  unfolding untouched_def
proof (intro conjI allI impI)
  fix t' and j :: nat assume j: "j < 512 \<and> aligned_table st t' \<and> t' - g_hhdm_offset st \<notin> usable_pages (pg_pmm st)"
  then have "t' \<noteq> t" using assms(2) by auto
  then show "read_entry (write_entry t (of_nat i) e st) t' (of_nat j) = read_entry st t' (of_nat j)"
    using j assms(1,3) by (simp add: read_write_entry)
qed simp_all

lemma untouched_zero:
  assumes "aligned_table st t" "t - g_hhdm_offset st \<in> usable_pages (pg_pmm st)"
  shows "untouched st (zero_table t st)"
  unfolding untouched_def using read_zero_table [OF assms(1)] assms(2) by auto

lemma untouched_pmm:
  "usable_pages pm = usable_pages (pg_pmm st) \<Longrightarrow> untouched st (st\<lparr>pg_pmm := pm\<rparr>)"
  by (simp add: untouched_def read_entry_def)

lemma next_table_untouched:
  assumes "next_table fs level t (of_nat i) st = Some (Some t', st')" "pmm_inv (pg_pmm st)"
    "free_pages (pg_pmm st) \<noteq> {}" "aligned_table st t" "t - g_hhdm_offset st \<in> usable_pages (pg_pmm st)" "i < 512"
  shows "untouched st st' \<and> pg_clone st' = pg_clone st"
proof (cases "get_field fs ''present'' (read_entry st t (of_nat i)) = 0")
  case False
  then show ?thesis using assms(1) by (auto simp: next_table_def)
next
  case True
  obtain a pm where pm: "pmm_alloc (pg_pmm st) = Some (a, pm)" "usable_pages pm = usable_pages (pg_pmm st)"
      "a \<in> free_pages (pg_pmm st)"
    using pmm_pages.alloc_some [OF assms(2,3)] by blast
  let ?h = "g_hhdm_offset st" and ?st1 = "st\<lparr>pg_pmm := pm\<rparr>"
  let ?z = "zero_table (a + ?h) ?st1"
  have au: "a \<in> usable_pages (pg_pmm st)" using pm(3) pmm_pages.free_managed [OF assms(2)] by blast
  from True assms(1) pm(1) obtain e where st': "st' = write_entry t (of_nat i) e ?z"
    by (auto simp: next_table_def Let_def split: if_splits)
  have al: "aligned_table ?st1 (a + ?h)"
    using pmm_pages.managed_page [OF assms(2) au] by (simp add: aligned_table_def)
  have "untouched st ?st1" by (rule untouched_pmm [OF pm(2)])
  moreover have "untouched ?st1 ?z" by (rule untouched_zero [OF al]) (simp add: pm(2) au)
  moreover have "untouched ?z st'"
    unfolding st' by (rule untouched_write) (use assms(4-6) pm(2) in \<open>simp_all add: aligned_table_def\<close>)
  ultimately have "untouched st st'" by (blast intro: untouched_trans)
  then show ?thesis unfolding st' by (simp add: write_entry_def zero_table_def)
qed

lemma root_table_managed:
  assumes "paging_inv st root" "valid_path p" "table_at st root p = Some t"
    "root - g_hhdm_offset st \<in> usable_pages (pg_pmm st)"
  shows "t - g_hhdm_offset st \<in> usable_pages (pg_pmm st)"
  using assms paging_inv_table(4) [OF assms(1-3)] by (cases "p = []") auto

lemma next_table_step:
  assumes "paging_inv st root" "valid_path (unat idx # p)" "table_at st root p = Some t"
    "pointer_level (length p) fs level" "page_at st root (unat idx # p) = None"
    "Suc k \<le> card (free_pages (pg_pmm st))"
  obtains t' st' where "next_table fs level t idx st = Some (Some t', st')"
    "paging_inv st' root" "table_at st' root (unat idx # p) = Some t'" "pages st' root = pages st root"
    "pg_tlb st' = pg_tlb st"
    "\<And>q. valid_path q \<Longrightarrow> q \<noteq> unat idx # p \<Longrightarrow> table_at st' root q = table_at st root q"
    "k \<le> card (free_pages (pg_pmm st'))" "card (free_pages (pg_pmm st)) \<le> Suc (card (free_pages (pg_pmm st')))"
    "root - g_hhdm_offset st \<in> usable_pages (pg_pmm st) \<Longrightarrow> untouched st st' \<and> pg_clone st' = pg_clone st"
proof -
  have ne: "free_pages (pg_pmm st) \<noteq> {}" using assms(6) by auto
  from assms(1-5) ne obtain t' st' where s: "next_table fs level t (of_nat (unat idx)) st = Some (Some t', st')"
    "paging_inv st' root" "table_at st' root (unat idx # p) = Some t'" "pages st' root = pages st root"
    "pg_tlb st' = pg_tlb st"
    "\<And>q. valid_path q \<Longrightarrow> q \<noteq> unat idx # p \<Longrightarrow> table_at st' root q = table_at st root q"
    "card (free_pages (pg_pmm st)) \<le> Suc (card (free_pages (pg_pmm st')))"
    by (rule next_table_correct) blast
  have v: "valid_path p" "unat idx < 512" using valid_path_Cons [OF assms(2)] by blast+
  have u: "untouched st st' \<and> pg_clone st' = pg_clone st" if "root - g_hhdm_offset st \<in> usable_pages (pg_pmm st)"
    by (rule next_table_untouched [OF s(1) paging_inv_pmm_inv(1) [OF assms(1)] ne
        paging_inv_table(2) [OF assms(1) v(1) assms(3)] root_table_managed [OF assms(1) v(1) assms(3) that] v(2)])
  show ?thesis
    by (rule that [of t' st']) (use s u assms(6) in simp_all)
qed

lemma enter_page_correct:
  assumes inv: "paging_inv st root" and p: "valid_path p" "i < 512" "table_at st root p = Some t"
    and lv: "page_level (length p) fs level" and flags: "bit flags 0" "length p < 3 \<Longrightarrow> bit flags 7"
  shows "\<exists>c st'. enter_page fs level t (of_nat i) phys flags st = Some (c, st') \<and> paging_inv st' root \<and>
    pg_tlb st' = pg_tlb st \<and>
    (if page_at st root (i # p) = None \<and> table_at st root (i # p) = None
     then c = PAGING_OK \<and> pages st' root =
       (pages st root)(i # p \<mapsto> paging_create_entry phys flags level PAGING_ENTRY_PAGE)
     else c = PAGING_ERROR \<and> st' = st)"
proof -
  note lf = page_level_facts [OF lv]
  let ?e = "paging_create_entry phys flags level PAGING_ENTRY_PAGE"
  have len: "length p = 1 \<or> length p = 2 \<or> length p = 3" using lf(1,2) by arith
  show ?thesis
  proof (cases "bit (read_entry st t (of_nat i)) 0")
    case True
    with len have "page_at st root (i # p) \<noteq> None \<or> table_at st root (i # p) \<noteq> None"
      using p(3) by (auto simp: is_pointer_def is_page_def Let_def)
    with True inv show ?thesis by (auto simp: enter_page_def lf(3))
  next
    case False
    note np = not_present_entry [OF p(3) False]
    have "\<not> is_pointer (length p) ?e" "is_page (length p) ?e"
      using len lf(4) [of 0] lf(4) [of 7] flags by (auto simp: is_pointer_def is_page_def)
    with write_page_entry(1,2) [OF inv p(1,3,2) np(1), of ?e] False np show ?thesis
      by (simp add: enter_page_def lf(3))
  qed
qed

lemma enter_page_step:
  assumes "paging_inv st root" "valid_path p" "table_at st root p = Some t" "page_level (length p) fs level"
    "bit flags 0" "length p < 3 \<longrightarrow> bit flags 7" "x = unat idx # p" "unat idx < 512"
  shows "\<exists>c st'. enter_page fs level t idx phys flags st = Some (c, st') \<and> paging_inv st' root \<and>
    pg_tlb st' = pg_tlb st \<and>
    (if pages st root x = None \<and> table_at st root x = None
     then c = PAGING_OK \<and> pages st' root =
       (pages st root)(x \<mapsto> paging_create_entry phys flags level PAGING_ENTRY_PAGE)
     else c = PAGING_ERROR \<and> pages st' root = pages st root)"
proof -
  have "pages st root x = page_at st root x" using assms(2,7,8) by (simp add: pages_Cons)
  then show ?thesis
    using enter_page_correct [OF assms(1,2,8,3,4,5), of phys] assms(6,7)
    by (cases "page_at st root x = None \<and> table_at st root x = None") auto
qed

section \<open>Mapping and unmapping\<close>

text \<open>
  What a caller has to respect when it maps a page: the flags mark a present page, of the large kind
  if it is one, and no larger page covers the address.
\<close>

definition page_flags_ok :: "page_size_t \<Rightarrow> u64 \<Rightarrow> bool" where
  "page_flags_ok page_size flags \<longleftrightarrow> bit flags 0 \<and> (page_size \<noteq> PAGE_SIZE_4KB \<longrightarrow> bit flags 7)"

definition not_covered :: "paging_state \<Rightarrow> u64 \<Rightarrow> u64 \<Rightarrow> page_size_t \<Rightarrow> bool" where
  "not_covered st root virt page_size \<longleftrightarrow>
     (page_size \<noteq> PAGE_SIZE_1GB \<longrightarrow> pages st root (virt_path virt PAGE_SIZE_1GB) = None) \<and>
     (page_size = PAGE_SIZE_4KB \<longrightarrow> pages st root (virt_path virt PAGE_SIZE_2MB) = None)"

text \<open>Whether the entry for a page of that size is in use, by a page or by a table.\<close>

definition page_unused :: "paging_state \<Rightarrow> u64 \<Rightarrow> u64 \<Rightarrow> page_size_t \<Rightarrow> bool" where
  "page_unused st root virt page_size \<longleftrightarrow>
     pages st root (virt_path virt page_size) = None \<and> table_at st root (virt_path virt page_size) = None"

lemma pages_page_at:
  "pages st root (virt_path virt s) = page_at st root (virt_path virt s)"
  by (simp add: pages_def virt_path_valid)

lemma pml4_no_page: "page_at st root [i] = None"
  by (simp add: is_page_def Let_def)

text \<open>The walk to the leaf: it ends at the table that holds the entry of the page.\<close>

lemma suffix_tail: "suffix q p \<Longrightarrow> suffix q (i # p)"
  by (simp add: suffix_ConsI)

lemma map_walk:
  assumes inv: "paging_inv st root" and free: "3 \<le> card (free_pages (pg_pmm st))"
    and cov: "not_covered st root virt s"
  obtains fs t idx p w where
    "\<And>flags phys. paging_map_page_without_tlb_invalidation root phys virt s flags st =
       enter_page fs (leaf_level s) t idx phys flags w"
    "page_level (length p) fs (leaf_level s)" "length p < 3 \<longleftrightarrow> s \<noteq> PAGE_SIZE_4KB" "valid_path p"
    "virt_path virt s = unat idx # p" "unat idx < 512" "table_at w root p = Some t"
    "paging_inv w root" "pages w root = pages st root" "pg_tlb w = pg_tlb st"
    "\<And>q. valid_path q \<Longrightarrow> \<not> suffix q p \<Longrightarrow> table_at w root q = table_at st root q"
    "card (free_pages (pg_pmm st)) \<le> card (free_pages (pg_pmm w)) + 3"
    "root - g_hhdm_offset st \<in> usable_pages (pg_pmm st) \<Longrightarrow> untouched st w \<and> pg_clone w = pg_clone st"
proof -
  let ?i4 = "unat (pml4_index virt)" and ?i3 = "unat (pdpr_index virt)" and ?i2 = "unat (pd_index virt)"
  let ?x1 = "virt_path virt PAGE_SIZE_1GB" and ?x2 = "virt_path virt PAGE_SIZE_2MB"
  let ?managed = "\<lambda>w. root - g_hhdm_offset w \<in> usable_pages (pg_pmm w)"
  note paths = virt_paths [of virt]
  note valid = virt_tables_valid [of virt]
  have f3: "Suc 2 \<le> card (free_pages (pg_pmm st))" using free by simp
  have root: "table_at st root [] = Some root" by simp
  have l4: "pointer_level (length ([] :: nat list)) pml4_pointer_fields PML4" by (simp add: pointer_level_def)
  obtain t3 st3 where n3: "next_table pml4_pointer_fields PML4 root (pml4_index virt) st = Some (Some t3, st3)"
    and s3: "paging_inv st3 root" "table_at st3 root [?i4] = Some t3" "pages st3 root = pages st root"
      "pg_tlb st3 = pg_tlb st" "\<And>q. valid_path q \<Longrightarrow> q \<noteq> [?i4] \<Longrightarrow> table_at st3 root q = table_at st root q"
      "2 \<le> card (free_pages (pg_pmm st3))" "card (free_pages (pg_pmm st)) \<le> Suc (card (free_pages (pg_pmm st3)))"
      "?managed st \<Longrightarrow> untouched st st3 \<and> pg_clone st3 = pg_clone st"
    by (rule next_table_step [OF inv valid(1) root l4 pml4_no_page f3]) blast
  show ?thesis
  proof (cases "s = PAGE_SIZE_1GB")
    case True
    have tables: "table_at st3 root q = table_at st root q" if "valid_path q" "\<not> suffix q [?i4]" for q
      using s3(5) [OF that(1)] that(2) by auto
    show ?thesis
      by (rule that [where p = "[?i4]" and w = st3 and t = t3 and idx = "pdpr_index virt" and fs = pdpr_page_fields])
        (use True n3 s3 valid tables in \<open>simp_all add: paging_map_page_without_tlb_invalidation_def page_level_def
          paths index_bound\<close>)
  next
    case False
    have np: "page_at st3 root (?i3 # [?i4]) = None"
      using cov False by (simp add: not_covered_def pages_page_at [symmetric] s3(3) paths(1) [symmetric])
    have f2: "Suc 1 \<le> card (free_pages (pg_pmm st3))" using s3(6) by simp
    have v3: "valid_path (?i3 # [?i4])" using valid(2) by (simp only: paths(1))
    have l3: "pointer_level (length [?i4]) pdpr_pointer_fields PDPR" by (simp add: pointer_level_def)
    obtain t2 st2 where n2: "next_table pdpr_pointer_fields PDPR t3 (pdpr_index virt) st3 = Some (Some t2, st2)"
      and s2: "paging_inv st2 root" "table_at st2 root ?x1 = Some t2" "pages st2 root = pages st root"
        "pg_tlb st2 = pg_tlb st" "\<And>q. valid_path q \<Longrightarrow> q \<noteq> ?x1 \<Longrightarrow> table_at st2 root q = table_at st3 root q"
        "1 \<le> card (free_pages (pg_pmm st2))" "card (free_pages (pg_pmm st3)) \<le> Suc (card (free_pages (pg_pmm st2)))"
        "?managed st3 \<Longrightarrow> untouched st3 st2 \<and> pg_clone st2 = pg_clone st3"
      by (rule next_table_step [OF s3(1) v3 s3(2) l3 np f2]) (use s3(3,4) in \<open>simp add: paths(1)\<close>)
    have u2: "untouched st st2 \<and> pg_clone st2 = pg_clone st" if m: "?managed st"
    proof -
      have "?managed st3" using s3(8) [OF m] m by (simp add: untouched_def)
      then show ?thesis using s3(8) [OF m] s2(8) by (auto intro: untouched_trans)
    qed
    have x1: "suffix [?i4] ?x1" by (simp add: paths suffix_Cons)
    have tables2: "table_at st2 root q = table_at st root q" if "valid_path q" "\<not> suffix q ?x1" for q
      using s3(5) [OF that(1)] s2(5) [OF that(1)] that(2) x1 by auto
    show ?thesis
    proof (cases "s = PAGE_SIZE_2MB")
      case True
      show ?thesis
        by (rule that [where p = "?x1" and w = st2 and t = t2 and idx = "pd_index virt" and fs = pd_page_fields])
          (use True n3 n2 s2 s3(7) u2 valid tables2 in \<open>simp_all add: paging_map_page_without_tlb_invalidation_def
            page_level_def paths index_bound\<close>)
    next
      case f2: False
      with False have s: "s = PAGE_SIZE_4KB" by (cases s) auto
      have np: "page_at st2 root (?i2 # ?x1) = None"
        using cov s by (simp add: not_covered_def pages_page_at [symmetric] s2(3) paths(2) [symmetric])
      have f1: "Suc 0 \<le> card (free_pages (pg_pmm st2))" using s2(6) by simp
      have v2: "valid_path (?i2 # ?x1)" using valid(3) by (simp only: paths(2))
      have l2: "pointer_level (length ?x1) pd_pointer_fields PD" by (simp add: pointer_level_def paths)
      obtain t1 st1 where n1: "next_table pd_pointer_fields PD t2 (pd_index virt) st2 = Some (Some t1, st1)"
        and s1: "paging_inv st1 root" "table_at st1 root ?x2 = Some t1" "pages st1 root = pages st root"
          "pg_tlb st1 = pg_tlb st" "\<And>q. valid_path q \<Longrightarrow> q \<noteq> ?x2 \<Longrightarrow> table_at st1 root q = table_at st2 root q"
          "card (free_pages (pg_pmm st2)) \<le> Suc (card (free_pages (pg_pmm st1)))"
          "?managed st2 \<Longrightarrow> untouched st2 st1 \<and> pg_clone st1 = pg_clone st2"
        by (rule next_table_step [OF s2(1) v2 s2(2) l2 np f1]) (use s2(3,4) in \<open>simp add: paths(2)\<close>)
      have u1: "untouched st st1 \<and> pg_clone st1 = pg_clone st" if m: "?managed st"
      proof -
        have "?managed st2" using u2 [OF m] m by (simp add: untouched_def)
        then show ?thesis using u2 [OF m] s1(7) by (auto intro: untouched_trans)
      qed
      have x2: "suffix ?x1 ?x2" by (simp only: paths(2) suffix_tail suffix_order.refl)
      have tables1: "table_at st1 root q = table_at st root q" if "valid_path q" "\<not> suffix q ?x2" for q
        using tables2 [OF that(1)] s1(5) [OF that(1)] that(2) x2 by (auto dest: suffix_order.trans)
      show ?thesis
        by (rule that [where p = "?x2" and w = st1 and t = t1 and idx = "pt_index virt" and fs = pt_page_fields])
          (use s n3 n2 n1 s1 s2(7) s3(7) u1 valid tables1 in \<open>simp_all add: paging_map_page_without_tlb_invalidation_def
            page_level_def paths index_bound\<close>)
    qed
  qed
qed

lemma no_table_below_leaf: "length p = 3 \<Longrightarrow> table_at st root (i # p) = None"
  by (simp add: is_pointer_def Let_def split: option.split)

lemma leaf_table_kept:
  assumes "valid_path p" "i < 512" "\<And>q. valid_path q \<Longrightarrow> \<not> suffix q p \<Longrightarrow> table_at w root q = table_at st root q"
  shows "table_at w root (i # p) = table_at st root (i # p)"
proof (cases "length p < 3")
  case True
  then have "valid_path (i # p)" using assms(1,2) by (auto simp: valid_path_def)
  then show ?thesis by (rule assms(3)) (auto dest: suffix_length_le)
next
  case False
  then have "length p = 3" using assms(1) by (simp add: valid_path_def)
  then show ?thesis by (simp only: no_table_below_leaf)
qed

lemma map_without_tlb_correct:
  assumes inv: "paging_inv st root" and free: "3 \<le> card (free_pages (pg_pmm st))"
    and flags: "page_flags_ok s flags" and cov: "not_covered st root virt s"
  shows "\<exists>c st'. paging_map_page_without_tlb_invalidation root phys virt s flags st = Some (c, st') \<and>
    paging_inv st' root \<and> pg_tlb st' = pg_tlb st \<and>
    (if page_unused st root virt s
     then c = PAGING_OK \<and> pages st' root =
       (pages st root)(virt_path virt s \<mapsto> paging_create_entry phys flags (leaf_level s) PAGING_ENTRY_PAGE)
     else c = PAGING_ERROR \<and> pages st' root = pages st root)"
proof -
  from inv free cov obtain fs t idx p w where
    run: "paging_map_page_without_tlb_invalidation root phys virt s flags st =
       enter_page fs (leaf_level s) t idx phys flags w"
    and w: "page_level (length p) fs (leaf_level s)" "length p < 3 \<longleftrightarrow> s \<noteq> PAGE_SIZE_4KB" "valid_path p"
    "virt_path virt s = unat idx # p" "unat idx < 512" "table_at w root p = Some t"
    "paging_inv w root" "pages w root = pages st root" "pg_tlb w = pg_tlb st"
    "\<And>q. valid_path q \<Longrightarrow> \<not> suffix q p \<Longrightarrow> table_at w root q = table_at st root q"
    by (rule map_walk) blast
  have fl: "bit flags 0" "length p < 3 \<longrightarrow> bit flags 7" using flags w(2) by (auto simp: page_flags_ok_def)
  have tbl: "table_at w root (virt_path virt s) = table_at st root (virt_path virt s)"
    unfolding w(4) by (rule leaf_table_kept [OF w(3,5,10)])
  from enter_page_step [OF w(7,3,6,1) fl w(4,5)]
  show ?thesis unfolding run unfolding page_unused_def w(8,9) tbl .
qed

text \<open>A mapping keeps a page table without empty tables as one: new tables are on the way to the new page.\<close>

lemma compact_mapped:
  assumes "compact_but st root []" "pages w root = (pages st root)(x \<mapsto> e)"
    and same: "\<And>q. valid_path q \<Longrightarrow> \<not> strict_suffix q x \<Longrightarrow> table_at w root q = table_at st root q"
  shows "compact_but w root []"
  unfolding compact_but_def assms(2)
proof (intro allI impI, elim conjE)
  fix q assume q: "valid_path q" "\<not> suffix q []" "table_at w root q \<noteq> None"
  show "\<exists>y. suffix q y \<and> ((pages st root)(x \<mapsto> e)) y \<noteq> None"
  proof (cases "strict_suffix q x")
    case True
    then show ?thesis by (intro exI [of _ x]) (simp add: strict_suffix_def)
  next
    case False
    then obtain y where "suffix q y" "pages st root y \<noteq> None"
      using assms(1) q same [OF q(1) False] unfolding compact_but_def by auto
    then show ?thesis by (intro exI [of _ y]) simp
  qed
qed

text \<open>Mapping an unused page, with what it leaves alone.\<close>

lemma map_unused_tables:
  assumes inv: "paging_inv st root" and free: "3 \<le> card (free_pages (pg_pmm st))"
    and flags: "page_flags_ok s flags" and cov: "not_covered st root virt s" and unused: "page_unused st root virt s"
  obtains st' where "paging_map_page_without_tlb_invalidation root phys virt s flags st = Some (PAGING_OK, st')"
    "paging_inv st' root"
    "pages st' root =
       (pages st root)(virt_path virt s \<mapsto> paging_create_entry phys flags (leaf_level s) PAGING_ENTRY_PAGE)"
    "\<And>q. valid_path q \<Longrightarrow> \<not> strict_suffix q (virt_path virt s) \<Longrightarrow> table_at st' root q = table_at st root q"
    "card (free_pages (pg_pmm st)) \<le> card (free_pages (pg_pmm st')) + 3"
    "root - g_hhdm_offset st \<in> usable_pages (pg_pmm st) \<Longrightarrow> untouched st st' \<and> pg_clone st' = pg_clone st"
proof -
  from inv free cov obtain fs t idx p w where
    run: "paging_map_page_without_tlb_invalidation root phys virt s flags st =
       enter_page fs (leaf_level s) t idx phys flags w"
    and w: "page_level (length p) fs (leaf_level s)" "length p < 3 \<longleftrightarrow> s \<noteq> PAGE_SIZE_4KB" "valid_path p"
    "virt_path virt s = unat idx # p" "unat idx < 512" "table_at w root p = Some t"
    "paging_inv w root" "pages w root = pages st root"
    "\<And>q. valid_path q \<Longrightarrow> \<not> suffix q p \<Longrightarrow> table_at w root q = table_at st root q"
    "card (free_pages (pg_pmm st)) \<le> card (free_pages (pg_pmm w)) + 3"
    "root - g_hhdm_offset st \<in> usable_pages (pg_pmm st) \<Longrightarrow> untouched st w \<and> pg_clone w = pg_clone st"
    by (rule map_walk) blast
  let ?e = "paging_create_entry phys flags (leaf_level s) PAGING_ENTRY_PAGE"
  let ?st' = "write_entry t (of_nat (unat idx)) ?e w"
  note lf = page_level_facts [OF w(1)]
  have none: "page_at w root (unat idx # p) = None" "table_at w root (unat idx # p) = None"
    using unused leaf_table_kept [OF w(3,5,9)] w(3,5) unfolding page_unused_def w(4) w(8) [symmetric]
    by (simp_all add: pages_Cons)
  have len: "length p = 1 \<or> length p = 2 \<or> length p = 3" using lf(1,2) by arith
  then have np: "\<not> bit (read_entry w t (of_nat (unat idx))) 0"
    using none w(6) by (auto simp: is_page_def is_pointer_def Let_def split: if_splits)
  have e: "\<not> is_pointer (length p) ?e" "is_page (length p) ?e"
    using len lf(4) [of 0] lf(4) [of 7] flags w(2) by (auto simp: is_pointer_def is_page_def page_flags_ok_def)
  note wr = write_page_entry [OF w(7,3,6,5) none(2) e(1)]
  show ?thesis
  proof (rule that [of ?st'])
    show "paging_map_page_without_tlb_invalidation root phys virt s flags st = Some (PAGING_OK, ?st')"
      using np unfolding run by (simp add: enter_page_def lf(3))
    show "paging_inv ?st' root" by (rule wr(1))
    show "pages ?st' root = (pages st root)(virt_path virt s \<mapsto> ?e)" using wr(2) e(2) unfolding w(4,8) by simp
    show "table_at ?st' root q = table_at st root q" if "valid_path q" "\<not> strict_suffix q (virt_path virt s)" for q
    proof -
      have "\<not> suffix q p" using that(2) unfolding w(4) by (auto simp: strict_suffix_def suffix_tail dest: suffix_length_le)
      then show ?thesis using wr(3) [OF that(1)] w(9) [OF that(1)] by simp
    qed
    show "card (free_pages (pg_pmm st)) \<le> card (free_pages (pg_pmm ?st')) + 3" using w(10) by simp
    assume managed: "root - g_hhdm_offset st \<in> usable_pages (pg_pmm st)"
    then have u: "untouched st w" "pg_clone w = pg_clone st" using w(11) by blast+
    have mw: "root - g_hhdm_offset w \<in> usable_pages (pg_pmm w)" using u(1) managed by (simp add: untouched_def)
    have "untouched st ?st'"
      by (rule untouched_trans [OF u(1) untouched_write [OF paging_inv_table(2) [OF w(7,3,6)]
            root_table_managed [OF w(7,3,6) mw] w(5)]])
    then show "untouched st ?st' \<and> pg_clone ?st' = pg_clone st" using u(2) by (simp add: write_entry_def)
  qed
qed

lemma map_unused:
  assumes "paging_inv st root" "3 \<le> card (free_pages (pg_pmm st))" "page_flags_ok s flags"
    "not_covered st root virt s" "page_unused st root virt s" "root - g_hhdm_offset st \<in> usable_pages (pg_pmm st)"
  obtains st' where "paging_map_page_without_tlb_invalidation root phys virt s flags st = Some (PAGING_OK, st')"
    "paging_inv st' root"
    "pages st' root =
       (pages st root)(virt_path virt s \<mapsto> paging_create_entry phys flags (leaf_level s) PAGING_ENTRY_PAGE)"
    "\<And>q. valid_path q \<Longrightarrow> \<not> strict_suffix q (virt_path virt s) \<Longrightarrow> table_at st' root q = table_at st root q"
    "card (free_pages (pg_pmm st)) \<le> card (free_pages (pg_pmm st')) + 3"
    "untouched st st'" "pg_clone st' = pg_clone st"
  by (rule map_unused_tables [OF assms(1-5), of phys]) (use assms(6) that in blast)

section \<open>Unmapping\<close>

lemma page_at_table:
  assumes "page_at st root (i # p) = Some e"
  obtains t where "table_at st root p = Some t" "e = read_entry st t (of_nat i)" "is_page (length p) e"
  using assms by (auto simp: Let_def split: option.splits if_splits)

lemma table_at_table:
  assumes "table_at st root (i # p) = Some u"
  obtains t where "table_at st root p = Some t" "bit (read_entry st t (of_nat i)) 0"
    "u = entry_base 12 28 (read_entry st t (of_nat i)) + g_hhdm_offset st"
  using assms by (auto simp: Let_def is_pointer_def child_table_def split: option.splits if_splits)

text \<open>Clearing the present bit of a page removes the page; then empty tables are cut off.\<close>

lemma clear_compact:
  assumes "compact_but st root []" "pages st root (i # p) = Some e" "table_at st root (i # p) = None"
    and same: "pages w root = (pages st root)(i # p := None)" "\<And>q. valid_path q \<Longrightarrow> table_at w root q = table_at st root q"
  shows "compact_but w root p"
  unfolding compact_but_def
proof (intro allI impI, elim conjE)
  fix q assume q: "valid_path q" "\<not> suffix q p" "table_at w root q \<noteq> None"
  then have t: "table_at st root q \<noteq> None" and "\<not> suffix q []" using same(2) [OF q(1)] by (auto simp: suffix_bot.extremum_unique)
  then obtain y where y: "suffix q y" "pages st root y \<noteq> None" using assms(1) q(1) unfolding compact_but_def by blast
  moreover have "y \<noteq> i # p" using y(1) q(2) t assms(3) by (auto simp: suffix_Cons)
  ultimately show "\<exists>y. suffix q y \<and> pages w root y \<noteq> None" unfolding same(1) by auto
qed

lemma clear_page:
  assumes inv: "paging_inv st root" and p: "valid_path p" "table_at st root p = Some t" "unat idx < 512"
    and page: "page_at st root (unat idx # p) = Some e" and lv: "field_bits fs ''present'' = (0, 1)"
  shows "paging_inv (clear_present fs t idx st) root"
    "pages (clear_present fs t idx st) root = (pages st root)(unat idx # p := None)"
    "valid_path q \<Longrightarrow> table_at (clear_present fs t idx st) root q = table_at st root q"
    "compact_but st root [] \<Longrightarrow> compact_but (clear_present fs t idx st) root p"
proof -
  let ?e = "set_field fs ''present'' 0 (read_entry st t idx)"
  have c: "clear_present fs t idx st = write_entry t (of_nat (unat idx)) ?e st"
    by (simp add: clear_present_def)
  have e: "is_page (length p) (read_entry st t (of_nat (unat idx)))"
    using page p(2) by (auto simp: Let_def split: if_splits)
  then have old: "table_at st root (unat idx # p) = None"
    using p(2) by (auto simp: is_page_def is_pointer_def Let_def)
  have nb: "\<not> bit ?e 0" by (rule clear_present_bit [OF lv])
  then have n: "\<not> is_pointer (length p) ?e" "\<not> is_page (length p) ?e"
    by (simp_all add: is_pointer_def is_page_def)
  note w = write_page_entry [OF inv p(1,2,3) old n(1)]
  have same: "pages (clear_present fs t idx st) root = (pages st root)(unat idx # p := None)"
      "\<And>q. valid_path q \<Longrightarrow> table_at (clear_present fs t idx st) root q = table_at st root q"
    unfolding c using w n(2) by simp_all
  show "paging_inv (clear_present fs t idx st) root"
    "pages (clear_present fs t idx st) root = (pages st root)(unat idx # p := None)"
    "valid_path q \<Longrightarrow> table_at (clear_present fs t idx st) root q = table_at st root q"
    using same unfolding c using w n(2) by simp_all
  have "pages st root (unat idx # p) = Some e" using page p(1,3) by (simp add: pages_Cons del: page_at.simps)
  then show "compact_but (clear_present fs t idx st) root p" if "compact_but st root []"
    by (rule clear_compact [OF that _ old same])
qed

lemma check_step:
  assumes inv: "paging_inv st root" and p: "valid_path (unat idx # p)" "table_at st root p = Some t"
    and u: "table_at st root (unat idx # p) = Some u"
  obtains st' where "paging_check_for_empty_table u t idx st = Some st'" "paging_inv st' root"
    "pages st' root = pages st root" "g_hhdm_offset st' = g_hhdm_offset st" "pg_tlb st' = pg_tlb st"
    "\<And>q. valid_path q \<Longrightarrow> length q \<le> length p \<Longrightarrow> table_at st' root q = table_at st root q"
    "free_pages (pg_pmm st) \<subseteq> free_pages (pg_pmm st')" "compact_but st root (unat idx # p) \<Longrightarrow> compact_but st' root p"
proof -
  obtain st' where s: "paging_check_for_empty_table u t idx st = Some st'" "paging_inv st' root"
    "pages st' root = pages st root" "g_hhdm_offset st' = g_hhdm_offset st" "pg_tlb st' = pg_tlb st"
    "\<forall>q. valid_path q \<and> \<not> suffix (unat idx # p) q \<longrightarrow> table_at st' root q = table_at st root q"
    "free_pages (pg_pmm st) \<subseteq> free_pages (pg_pmm st')" "compact_but st root (unat idx # p) \<longrightarrow> compact_but st' root p"
    using check_for_empty_table_correct [OF inv p u] by auto
  have "table_at st' root q = table_at st root q" if "valid_path q" "length q \<le> length p" for q
  proof -
    have "\<not> suffix (unat idx # p) q" using that(2) by (auto dest: suffix_length_le)
    with s(6) that(1) show ?thesis by blast
  qed
  with s(1-5,7,8) that show ?thesis by blast
qed

lemma paging_inv_tlb: "paging_inv (invalidate_tlb v st) root \<longleftrightarrow> paging_inv st root"
  "pages (invalidate_tlb v st) root = pages st root" "compact_but (invalidate_tlb v st) root x \<longleftrightarrow> compact_but st root x"
  "free_pages (pg_pmm (invalidate_tlb v st)) = free_pages (pg_pmm st)"
proof -
  have r: "read_entry (invalidate_tlb v st) = read_entry st" "child_table (invalidate_tlb v st) = child_table st"
    by (simp_all add: read_entry_def child_table_def invalidate_tlb_def fun_eq_iff)
  have t: "table_at (invalidate_tlb v st) root q = table_at st root q" for q
    by (induction q) (simp_all add: r Let_def cong: if_cong option.case_cong)
  have "page_at (invalidate_tlb v st) root q = page_at st root q" for q
    by (cases q) (simp_all add: r t Let_def cong: if_cong option.case_cong)
  then show p: "pages (invalidate_tlb v st) root = pages st root" by (simp add: pages_def fun_eq_iff)
  show "compact_but (invalidate_tlb v st) root x \<longleftrightarrow> compact_but st root x" by (simp add: compact_but_def p t)
  show "free_pages (pg_pmm (invalidate_tlb v st)) = free_pages (pg_pmm st)" by (simp add: invalidate_tlb_def)
  show "paging_inv (invalidate_tlb v st) root \<longleftrightarrow> paging_inv st root"
    by (simp add: paging_inv_def table_ok_def aligned_table_def t)
qed

lemma unmap_page_step:
  assumes inv: "paging_inv st root" and page: "pages st root (virt_path virt s) = Some e"
  shows "\<exists>st'. paging_unmap_page root virt s st = Some (PAGING_OK, st') \<and> paging_inv st' root \<and>
    pages st' root = (pages st root)(virt_path virt s := None) \<and> pg_tlb st' = virt # pg_tlb st \<and>
    free_pages (pg_pmm st) \<subseteq> free_pages (pg_pmm st') \<and> (compact_but st root [] \<longrightarrow> compact_but st' root [])"
proof -
  let ?i4 = "unat (pml4_index virt)" and ?i3 = "unat (pdpr_index virt)"
    and ?i2 = "unat (pd_index virt)" and ?i1 = "unat (pt_index virt)"
  let ?x1 = "virt_path virt PAGE_SIZE_1GB" and ?x2 = "virt_path virt PAGE_SIZE_2MB"
    and ?x4 = "virt_path virt PAGE_SIZE_4KB"
  note paths = virt_paths [of virt] and valid = virt_tables_valid [of virt]
  have pa: "page_at st root (virt_path virt s) = Some e" using page by (simp add: pages_page_at)
  have v3: "valid_path (?i3 # [?i4])" using valid(2) by (simp only: paths(1))
  have v2: "valid_path (?i2 # ?x1)" using valid(3) by (simp only: paths(2))
  have root: "table_at st root [] = Some root" by simp
  have clr: "pg_tlb (clear_present fs t i st) = pg_tlb st" "g_hhdm_offset (clear_present fs t i st) = g_hhdm_offset st"
    "pg_pmm (clear_present fs t i st) = pg_pmm st"
    for fs t i by (simp_all add: clear_present_def)
  note b3 = field_positions(3) and b2 = field_positions(5) and b1 = field_positions(6)
  show ?thesis
  proof (cases s)
    case PAGE_SIZE_1GB
    then obtain t3 where t3: "table_at st root [?i4] = Some t3" "e = read_entry st t3 (pdpr_index virt)" "bit e 0"
      using pa by (auto simp: paths is_page_def Let_def split: option.splits if_splits)
    obtain u3: "bit (read_entry st root (pml4_index virt)) 0"
      "t3 = entry_base 12 28 (read_entry st root (pml4_index virt)) + g_hhdm_offset st"
      using table_at_table [OF t3(1)] by auto
    have pg: "page_at st root (?i3 # [?i4]) = Some e" using pa PAGE_SIZE_1GB by (simp only: paths(1))
    note c = clear_page [OF inv valid(1) t3(1) index_bound(2) pg b3]
    have t3': "table_at (clear_present pdpr_page_fields t3 (pdpr_index virt) st) root [?i4] = Some t3"
      using c(3) [OF valid(1)] t3(1) by simp
    obtain st' where st': "paging_check_for_empty_table t3 root (pml4_index virt)
          (clear_present pdpr_page_fields t3 (pdpr_index virt) st) = Some st'" "paging_inv st' root"
        "pages st' root = pages (clear_present pdpr_page_fields t3 (pdpr_index virt) st) root"
        "pg_tlb st' = pg_tlb st" "free_pages (pg_pmm st) \<subseteq> free_pages (pg_pmm st')"
        "compact_but st root [] \<longrightarrow> compact_but st' root []"
      by (rule check_step [OF c(1) valid(1) table_at.simps(1) t3']) (use clr c(4) in \<open>auto simp del: table_at.simps(2)\<close>)
    have "paging_unmap_page root virt s st = Some (PAGING_OK, invalidate_tlb virt st')"
      unfolding paging_unmap_page_def Let_def base_field
      using u3 t3 st'(1) PAGE_SIZE_1GB by (simp add: present_iff)
    then show ?thesis using st' c(2) PAGE_SIZE_1GB by (simp add: paging_inv_tlb paths(1))
  next
    case PAGE_SIZE_2MB
    then obtain t2 where t2: "table_at st root ?x1 = Some t2" "e = read_entry st t2 (pd_index virt)" "bit e 0"
      using pa by (auto simp: paths(2) is_page_def Let_def split: option.splits if_splits)
    obtain t3 where t3: "table_at st root [?i4] = Some t3" "bit (read_entry st t3 (pdpr_index virt)) 0"
      "t2 = entry_base 12 28 (read_entry st t3 (pdpr_index virt)) + g_hhdm_offset st"
      using table_at_table [OF t2(1) [unfolded paths(1)]] by auto
    obtain u3: "bit (read_entry st root (pml4_index virt)) 0"
      "t3 = entry_base 12 28 (read_entry st root (pml4_index virt)) + g_hhdm_offset st"
      using table_at_table [OF t3(1)] by auto
    have pg: "page_at st root (?i2 # ?x1) = Some e" using pa PAGE_SIZE_2MB by (simp only: paths(2))
    let ?c = "clear_present pd_page_fields t2 (pd_index virt) st"
    note c = clear_page [OF inv valid(2) t2(1) index_bound(3) pg b2]
    have t3': "table_at ?c root [?i4] = Some t3" and t2': "table_at ?c root (?i3 # [?i4]) = Some t2"
      using c(3) [OF valid(1)] c(3) [OF v3] t3(1) t2(1) by (simp_all add: paths(1))
    obtain s2 where s2: "paging_check_for_empty_table t2 t3 (pdpr_index virt) ?c = Some s2" "paging_inv s2 root"
        "pages s2 root = pages ?c root" "pg_tlb s2 = pg_tlb st" "table_at s2 root [?i4] = Some t3"
        "free_pages (pg_pmm st) \<subseteq> free_pages (pg_pmm s2)" "compact_but st root [] \<longrightarrow> compact_but s2 root [?i4]"
      by (rule check_step [OF c(1) v3 t3' t2']) (use clr t3' valid(1) c(4) [unfolded paths(1)] in \<open>auto simp del: table_at.simps(2)\<close>)
    obtain s3 where s3: "paging_check_for_empty_table t3 root (pml4_index virt) s2 = Some s3" "paging_inv s3 root"
        "pages s3 root = pages s2 root" "pg_tlb s3 = pg_tlb st"
        "free_pages (pg_pmm s2) \<subseteq> free_pages (pg_pmm s3)" "compact_but st root [] \<longrightarrow> compact_but s3 root []"
      by (rule check_step [OF s2(2) valid(1) table_at.simps(1) s2(5)]) (use s2(4,7) in \<open>auto simp del: table_at.simps(2)\<close>)
    have "paging_unmap_page root virt s st = Some (PAGING_OK, invalidate_tlb virt s3)"
      unfolding paging_unmap_page_def Let_def base_field
      using u3 t3 t2 s2(1) s3(1) PAGE_SIZE_2MB by (simp add: present_iff)
    then show ?thesis using s3 s2 c(2) PAGE_SIZE_2MB by (simp add: paging_inv_tlb paths(2))
  next
    case PAGE_SIZE_4KB
    then obtain t1 where t1: "table_at st root ?x2 = Some t1" "e = read_entry st t1 (pt_index virt)" "bit e 0"
      using pa by (auto simp: paths(3) is_page_def Let_def split: option.splits if_splits)
    obtain t2 where t2: "table_at st root ?x1 = Some t2" "bit (read_entry st t2 (pd_index virt)) 0"
      "t1 = entry_base 12 28 (read_entry st t2 (pd_index virt)) + g_hhdm_offset st"
      using table_at_table [OF t1(1) [unfolded paths(2)]] by auto
    obtain t3 where t3: "table_at st root [?i4] = Some t3" "bit (read_entry st t3 (pdpr_index virt)) 0"
      "t2 = entry_base 12 28 (read_entry st t3 (pdpr_index virt)) + g_hhdm_offset st"
      using table_at_table [OF t2(1) [unfolded paths(1)]] by auto
    obtain u3: "bit (read_entry st root (pml4_index virt)) 0"
      "t3 = entry_base 12 28 (read_entry st root (pml4_index virt)) + g_hhdm_offset st"
      using table_at_table [OF t3(1)] by auto
    have pg: "page_at st root (?i1 # ?x2) = Some e" using pa PAGE_SIZE_4KB by (simp only: paths(3))
    let ?c = "clear_present pt_page_fields t1 (pt_index virt) st"
    note c = clear_page [OF inv valid(3) t1(1) index_bound(4) pg b1]
    have t3': "table_at ?c root [?i4] = Some t3" and t2': "table_at ?c root (?i3 # [?i4]) = Some t2"
      and t1': "table_at ?c root (?i2 # ?x1) = Some t1"
      using c(3) [OF valid(1)] c(3) [OF v3] c(3) [OF v2] t3(1) t2(1) t1(1) by (simp_all add: paths(1,2))
    have t2'': "table_at ?c root ?x1 = Some t2" using t2' by (simp only: paths(1))
    obtain s1 where s1: "paging_check_for_empty_table t1 t2 (pd_index virt) ?c = Some s1" "paging_inv s1 root"
        "pages s1 root = pages ?c root" "pg_tlb s1 = pg_tlb st" "table_at s1 root [?i4] = Some t3"
        "table_at s1 root (?i3 # [?i4]) = Some t2" "free_pages (pg_pmm st) \<subseteq> free_pages (pg_pmm s1)"
        "compact_but st root [] \<longrightarrow> compact_but s1 root (?i3 # [?i4])"
      by (rule check_step [OF c(1) v2 t2'' t1']) (use clr t3' t2' valid(1) v3 c(4) [unfolded paths(2)] in \<open>auto simp: paths(1) simp del: table_at.simps(2)\<close>)
    obtain s2 where s2: "paging_check_for_empty_table t2 t3 (pdpr_index virt) s1 = Some s2" "paging_inv s2 root"
        "pages s2 root = pages s1 root" "pg_tlb s2 = pg_tlb st" "table_at s2 root [?i4] = Some t3"
        "free_pages (pg_pmm s1) \<subseteq> free_pages (pg_pmm s2)" "compact_but st root [] \<longrightarrow> compact_but s2 root [?i4]"
      by (rule check_step [OF s1(2) v3 s1(5,6)]) (use s1(4,5,8) valid(1) in \<open>auto simp del: table_at.simps(2)\<close>)
    obtain s3 where s3: "paging_check_for_empty_table t3 root (pml4_index virt) s2 = Some s3" "paging_inv s3 root"
        "pages s3 root = pages s2 root" "pg_tlb s3 = pg_tlb st"
        "free_pages (pg_pmm s2) \<subseteq> free_pages (pg_pmm s3)" "compact_but st root [] \<longrightarrow> compact_but s3 root []"
      by (rule check_step [OF s2(2) valid(1) table_at.simps(1) s2(5)]) (use s2(4,7) in \<open>auto simp del: table_at.simps(2)\<close>)
    have "paging_unmap_page root virt s st = Some (PAGING_OK, invalidate_tlb virt s3)"
      unfolding paging_unmap_page_def Let_def base_field
      using u3 t3 t2 t1 s1(1) s2(1) s3(1) PAGE_SIZE_4KB by (simp add: present_iff)
    then show ?thesis using s3 s2 s1 c(2) PAGE_SIZE_4KB by (simp add: paging_inv_tlb paths(3))
  qed
qed

section \<open>The page map after an operation\<close>

lemma map_page_step:
  assumes "paging_inv st root" "3 \<le> card (free_pages (pg_pmm st))" "page_flags_ok s flags"
    "not_covered st root virt s"
  shows "\<exists>c st'. paging_map_page root phys virt s flags st = Some (c, st') \<and> paging_inv st' root \<and>
    (if page_unused st root virt s
     then c = PAGING_OK \<and> pg_tlb st' = virt # pg_tlb st \<and> pages st' root =
       (pages st root)(virt_path virt s \<mapsto> paging_create_entry phys flags (leaf_level s) PAGING_ENTRY_PAGE)
     else c = PAGING_ERROR \<and> pg_tlb st' = pg_tlb st \<and> pages st' root = pages st root)"
proof -
  obtain c st1 where m: "paging_map_page_without_tlb_invalidation root phys virt s flags st = Some (c, st1)"
    "paging_inv st1 root" "pg_tlb st1 = pg_tlb st"
    "if page_unused st root virt s
     then c = PAGING_OK \<and> pages st1 root =
       (pages st root)(virt_path virt s \<mapsto> paging_create_entry phys flags (leaf_level s) PAGING_ENTRY_PAGE)
     else c = PAGING_ERROR \<and> pages st1 root = pages st root"
    using map_without_tlb_correct [OF assms, of phys] by blast
  then show ?thesis
    by (cases "page_unused st root virt s") (simp_all add: paging_map_page_def paging_inv_tlb)
qed

lemma virt_path_eq_iff:
  "virt_path v s = virt_path v' s' \<Longrightarrow> s = s'"
  by (cases s; cases s') (auto simp: virt_path_def Let_def)

lemma virt_path_prefix:
  "virt_path v PAGE_SIZE_2MB = virt_path v' PAGE_SIZE_2MB \<Longrightarrow> virt_path v PAGE_SIZE_1GB = virt_path v' PAGE_SIZE_1GB"
  "virt_path v PAGE_SIZE_4KB = virt_path v' PAGE_SIZE_4KB \<Longrightarrow> virt_path v PAGE_SIZE_2MB = virt_path v' PAGE_SIZE_2MB"
  by (simp_all add: virt_path_def Let_def)

text \<open>The address that a page entry of a size holds.\<close>

fun page_address :: "page_size_t \<Rightarrow> page_table_entry_t \<Rightarrow> u64" where
  "page_address PAGE_SIZE_1GB e = entry_base 30 10 e"
| "page_address PAGE_SIZE_2MB e = entry_base 21 19 e"
| "page_address PAGE_SIZE_4KB e = entry_base 12 28 e"

lemma resolve_updated:
  assumes "s \<noteq> PAGE_SIZE_1GB \<longrightarrow> m (virt_path virt PAGE_SIZE_1GB) = None"
    and "s = PAGE_SIZE_4KB \<longrightarrow> m (virt_path virt PAGE_SIZE_2MB) = None"
  shows "resolve_pages (m(virt_path virt s \<mapsto> e)) v =
    (if virt_path v s = virt_path virt s then page_address s e else resolve_pages m v)"
proof -
  have other: "(m(virt_path virt s := x)) (virt_path v s') = m (virt_path v s')" if "s' \<noteq> s" for s' x
    using virt_path_eq_iff [of v s' virt s] that by auto
  show ?thesis
  proof (cases "virt_path v s = virt_path virt s")
    case True
    have "s \<noteq> PAGE_SIZE_1GB \<Longrightarrow> virt_path v PAGE_SIZE_1GB = virt_path virt PAGE_SIZE_1GB"
      "s = PAGE_SIZE_4KB \<Longrightarrow> virt_path v PAGE_SIZE_2MB = virt_path virt PAGE_SIZE_2MB"
      using True virt_path_prefix by (cases s; blast)+
    with True assms show ?thesis
      using other [of PAGE_SIZE_1GB] other [of PAGE_SIZE_2MB]
      by (cases s) (simp_all add: resolve_pages_def)
  next
    case False
    then have "(m(virt_path virt s \<mapsto> e)) (virt_path v s') = m (virt_path v s')" for s'
      using other [of s'] by (cases "s' = s") auto
    then show ?thesis using False by (simp only: resolve_pages_def if_False)
  qed
qed

text \<open>At most one page covers an address: a page has no table at its path, hence no page below it.\<close>

lemma page_excludes:
  assumes "page_at st root x = Some e"
  shows "table_at st root x = None"
proof (cases x)
  case (Cons i p)
  with assms show ?thesis by (auto simp: is_page_def is_pointer_def Let_def split: option.splits if_splits)
qed (use assms in simp)

lemma pages_exclusive:
  assumes "pages st root (virt_path v s) = Some e" "s' \<noteq> s"
  shows "pages st root (virt_path v s') = None"
proof -
  have *: "page_at st root (virt_path v t) = None"
    if "page_at st root (virt_path v s) = Some e" "t \<noteq> s" for s t e
  proof (rule ccontr)
    assume "page_at st root (virt_path v t) \<noteq> None"
    then obtain e' where e': "page_at st root (virt_path v t) = Some e'" by blast
    have sub: "suffix (virt_path v s) (virt_path v t) \<or> suffix (virt_path v t) (virt_path v s)"
      by (cases s; cases t) (simp_all add: virt_path_def Let_def suffix_Cons)
    have ne: "virt_path v t \<noteq> virt_path v s" using that(2) virt_path_eq_iff by metis
    from sub show False
      using page_at_below [OF page_excludes [OF that(1)], of "virt_path v t"]
        page_at_below [OF page_excludes [OF e'], of "virt_path v s"] that(1) e' ne by auto
  qed
  show ?thesis using assms * by (simp add: pages_page_at)
qed

lemma resolve_removed:
  assumes "pages st root (virt_path virt s) = Some e"
  shows "resolve_pages ((pages st root)(virt_path virt s := None)) v =
    (if virt_path v s = virt_path virt s then 0 else resolve_pages (pages st root) v)"
proof -
  let ?m = "pages st root"
  have other: "(?m(virt_path virt s := None)) (virt_path v s') = ?m (virt_path v s')" if "s' \<noteq> s" for s'
    using virt_path_eq_iff [of v s' virt s] that by auto
  show ?thesis
  proof (cases "virt_path v s = virt_path virt s")
    case True
    with assms have "?m (virt_path v s') = None" if "s' \<noteq> s" for s'
      using pages_exclusive [of st root v s e s'] that by simp
    with True other have "(?m(virt_path virt s := None)) (virt_path v s') = None" for s'
      by (cases "s' = s") auto
    with True show ?thesis by (simp add: resolve_pages_def)
  next
    case False
    then have "(?m(virt_path virt s := None)) (virt_path v s') = ?m (virt_path v s')" for s'
      using other [of s'] by (cases "s' = s") auto
    then show ?thesis using False by (simp only: resolve_pages_def if_False)
  qed
qed

lemma page_address_created:
  assumes "2 ^ entry_alignment (leaf_level s) PAGING_ENTRY_PAGE dvd unat phys" "unat phys < 2 ^ 40"
  shows "page_address s (paging_create_entry phys flags (leaf_level s) PAGING_ENTRY_PAGE) = phys"
  using assms by (cases s) (simp_all add: create_entry_word entry_base_word field_fits_def)

section \<open>A page table to run the operations on\<close>

text \<open>An empty PML4 in a reserved page, and the memory manager of the demonstration memory map.\<close>

definition demo_paging :: paging_state where
  "demo_paging = \<lparr>pg_pmm = regions_state demo_memmap 0x1000 0, pg_mem = (\<lambda>_. 0),
     g_hhdm_offset = 0xffff800000000000, pg_tlb = [], pg_clone = (0, 0, 0, 0)\<rparr>"

abbreviation (input) demo_root :: u64 where "demo_root \<equiv> 0xffff800000009000"

lemma demo_table_at: "table_at demo_paging demo_root (i # p) = None"
proof -
  have "read_entry demo_paging t j = 0" for t j by (simp add: read_entry_def demo_paging_def)
  then show ?thesis by (simp add: is_pointer_def Let_def split: option.split)
qed

lemma demo_pages: "pages demo_paging demo_root = (\<lambda>_. None)"
proof
  fix p
  have "read_entry demo_paging t j = 0" for t j by (simp add: read_entry_def demo_paging_def)
  then have "page_at demo_paging demo_root p = None"
    by (cases p) (simp_all add: is_page_def Let_def split: option.split)
  then show "pages demo_paging demo_root p = None" by (simp add: pages_def)
qed

lemma memmap_pages_Cons:
  "memmap_pages (e # m) = (if me_type e = 0
     then (\<lambda>p. me_base e + of_nat p * 4096) ` {..<unat (me_length e) div 4096} else {}) \<union> memmap_pages m"
  by (auto simp: memmap_pages_def)

lemma demo_memmap_pages:
  "memmap_pages demo_memmap =
     (\<lambda>p. 0x1000 + of_nat p * 4096) ` {..<8} \<union> (\<lambda>p. 0x100000 + of_nat p * 4096) ` {..<16}"
  unfolding demo_memmap_def memmap_pages_Cons by (simp add: memmap_pages_def)

lemma demo_page_bounds:
  assumes "a \<in> memmap_pages demo_memmap"
  shows "unat a < 2 ^ 40" "a \<noteq> 0x9000"
proof -
  consider p where "p < 8" "a = 0x1000 + of_nat p * 4096" | p where "p < 16" "a = 0x100000 + of_nat p * 4096"
    using assms unfolding demo_memmap_pages by (auto simp del: of_nat_mult)
  then have "unat a < 2 ^ 40 \<and> unat a \<noteq> 0x9000"
  proof cases
    case 1
    then have "unat a = 0x1000 + p * 4096" by (simp add: unat_add_u64 unat_mult_u64 unat_of_nat_u64)
    with 1 show ?thesis by simp
  next
    case 2
    then have "unat a = 0x100000 + p * 4096" by (simp add: unat_add_u64 unat_mult_u64 unat_of_nat_u64)
    with 2 show ?thesis by simp
  qed
  then show "unat a < 2 ^ 40" "a \<noteq> 0x9000" by auto
qed

lemma demo_paging_inv: "paging_inv demo_paging demo_root"
proof (rule paging_invI)
  have pm: "pg_pmm demo_paging = regions_state demo_memmap 0x1000 0"
    and h: "g_hhdm_offset demo_paging = 0xffff800000000000"
    by (simp_all add: demo_paging_def)
  show "pmm_inv (pg_pmm demo_paging)" unfolding pm by (rule regions_state_inv [OF demo_memmap_ok])
  show "unat a < 2 ^ 40 \<and> a + g_hhdm_offset demo_paging \<noteq> 0" if "a \<in> usable_pages (pg_pmm demo_paging)" for a
  proof
    from that have m: "a \<in> memmap_pages demo_memmap"
      unfolding pm regions_state_pages(1) [OF demo_memmap_ok] .
    show lt: "unat a < 2 ^ 40" by (rule demo_page_bounds(1) [OF m])
    show "a + g_hhdm_offset demo_paging \<noteq> 0"
    proof
      assume "a + g_hhdm_offset demo_paging = 0"
      then have "a = - 0xffff800000000000" unfolding h by (simp add: add_eq_0_iff2)
      then have "unat a = 0x800000000000" by simp
      with lt show False by simp
    qed
  qed
  have p: "p = [] \<and> t = demo_root" if "table_at demo_paging demo_root p = Some t" for p t
    using that demo_table_at by (cases p) auto
  have r: "demo_root - g_hhdm_offset demo_paging = 0x9000" unfolding h by simp
  show "aligned_table demo_paging t" if "table_at demo_paging demo_root p = Some t" for p t
    using p [OF that] r by (simp add: aligned_table_def)
  show "t - g_hhdm_offset demo_paging \<notin> free_pages (pg_pmm demo_paging)"
    if "table_at demo_paging demo_root p = Some t" for p t
    using p [OF that] r demo_page_bounds(2) [of "0x9000"]
    unfolding pm regions_state_pages(2) [OF demo_memmap_ok] by auto
  show "t - g_hhdm_offset demo_paging \<in> usable_pages (pg_pmm demo_paging)"
    if "table_at demo_paging demo_root p = Some t" "p \<noteq> []" for p t
    using p that by blast
  show "p = q" if "table_at demo_paging demo_root p = Some t" "table_at demo_paging demo_root q = Some t"
    for p q t
    using p that by blast
qed

lemma demo_free_more: "6 \<le> card (free_pages (pg_pmm demo_paging))"
proof -
  let ?S = "{0x1000, 0x2000, 0x3000, 0x4000, 0x5000, 0x6000} :: u64 set"
  have "?S = (\<lambda>p. 0x1000 + of_nat p * 4096) ` {0, 1, 2, 3, 4, 5}" by simp
  also have "\<dots> \<subseteq> (\<lambda>p. 0x1000 + of_nat p * 4096) ` {..<8}" by (rule image_mono) simp
  also have "\<dots> \<subseteq> free_pages (pg_pmm demo_paging)"
    unfolding demo_paging_def paging_state.simps regions_state_pages(2) [OF demo_memmap_ok] demo_memmap_pages
    by blast
  finally have "?S \<subseteq> free_pages (pg_pmm demo_paging)" .
  from card_mono [OF finite_free_pages this] show ?thesis by simp
qed

lemma demo_free: "3 \<le> card (free_pages (pg_pmm demo_paging))"
  using demo_free_more by simp

section \<open>Properties\<close>

text \<open>
  Resolving an address is the lookup of the one page that covers it in the map from paths to
  pages: the 1 GB page, else the 2 MB page, else the 4 kB page, else \<open>NULL\<close>.
\<close>

theorem paging_resolve_refines:
  "paging_resolve_virtual_address root virt st = resolve_pages (pages st root) virt"
  by (rule resolve_refines_lookup)

text \<open>
  C3: mapping refines an update. On a well-formed page table with three pages left for new tables,
  with flags that mark a page of that size, and no larger page over the address, \<open>paging_map_page\<close>
  keeps the page table well-formed; if the entry is unused it returns \<open>PAGING_OK\<close>, the map from paths
  to pages changes at the path of the address only, and the address is invalidated in the TLB; if it
  is used it returns \<open>PAGING_ERROR\<close> and no page changes.
\<close>

theorem paging_map_page_correct:
  assumes "paging_inv st root" "3 \<le> card (free_pages (pg_pmm st))" "page_flags_ok s flags"
    "not_covered st root virt s"
  shows "\<exists>c st'. paging_map_page root phys virt s flags st = Some (c, st') \<and> paging_inv st' root \<and>
    (if page_unused st root virt s
     then c = PAGING_OK \<and> pg_tlb st' = virt # pg_tlb st \<and> pages st' root =
       (pages st root)(virt_path virt s \<mapsto> paging_create_entry phys flags (leaf_level s) PAGING_ENTRY_PAGE)
     else c = PAGING_ERROR \<and> pg_tlb st' = pg_tlb st \<and> pages st' root = pages st root)"
  by (rule map_page_step [OF assms])

lemma demo_unused:
  "not_covered demo_paging demo_root v s" "page_unused demo_paging demo_root v s"
  by (cases s; simp add: not_covered_def page_unused_def demo_pages virt_paths demo_table_at
      del: table_at.simps)+

lemma paging_map_page_correct_witness:
  "\<exists>st'. paging_map_page demo_root 0x40000000 0x80000000 PAGE_SIZE_1GB 0x83 demo_paging =
     Some (PAGING_OK, st') \<and> paging_inv st' demo_root \<and> pg_tlb st' = [0x80000000]"
proof -
  have "page_flags_ok PAGE_SIZE_1GB 0x83" by (simp add: page_flags_ok_def)
  from paging_map_page_correct [OF demo_paging_inv demo_free this demo_unused(1), of "0x40000000" "0x80000000"]
  show ?thesis using demo_unused(2) by (auto simp: demo_paging_def [THEN arg_cong, of pg_tlb])
qed

text \<open>
  C16: after mapping an unused page to an aligned physical address below 2^40, exactly the addresses
  of that page resolve to it, and every other address resolves as before.
\<close>

theorem paging_map_resolve:
  assumes "paging_inv st root" "3 \<le> card (free_pages (pg_pmm st))" "page_flags_ok s flags"
    "not_covered st root virt s" "page_unused st root virt s"
    and "2 ^ entry_alignment (leaf_level s) PAGING_ENTRY_PAGE dvd unat phys" "unat phys < 2 ^ 40"
  shows "\<exists>st'. paging_map_page root phys virt s flags st = Some (PAGING_OK, st') \<and>
    (\<forall>v. paging_resolve_virtual_address root v st' =
       (if virt_path v s = virt_path virt s then phys else paging_resolve_virtual_address root v st))"
proof -
  obtain st' where st': "paging_map_page root phys virt s flags st = Some (PAGING_OK, st')"
    "pages st' root = (pages st root)(virt_path virt s \<mapsto> paging_create_entry phys flags (leaf_level s) PAGING_ENTRY_PAGE)"
    using map_page_step [OF assms(1-4), of phys] assms(5) by auto
  have cov: "s \<noteq> PAGE_SIZE_1GB \<longrightarrow> pages st root (virt_path virt PAGE_SIZE_1GB) = None"
    "s = PAGE_SIZE_4KB \<longrightarrow> pages st root (virt_path virt PAGE_SIZE_2MB) = None"
    using assms(4) by (simp_all add: not_covered_def)
  have "paging_resolve_virtual_address root v st' =
      (if virt_path v s = virt_path virt s then phys else paging_resolve_virtual_address root v st)" for v
    unfolding resolve_refines_lookup st'(2) resolve_updated [OF cov] page_address_created [OF assms(6,7)]
    by (rule refl)
  with st'(1) show ?thesis by blast
qed

lemma paging_map_resolve_witness:
  "\<exists>st'. paging_map_page demo_root 0x5000 0xffff900000002000 PAGE_SIZE_4KB 3 demo_paging = Some (PAGING_OK, st') \<and>
     paging_resolve_virtual_address demo_root 0xffff900000002abc st' = 0x5000"
proof -
  have fl: "page_flags_ok PAGE_SIZE_4KB 3" by (simp add: page_flags_ok_def)
  have al: "2 ^ entry_alignment (leaf_level PAGE_SIZE_4KB) PAGING_ENTRY_PAGE dvd unat (0x5000 :: u64)" by simp
  have eq: "virt_path 0xffff900000002abc PAGE_SIZE_4KB = virt_path 0xffff900000002000 PAGE_SIZE_4KB"
    by (simp add: virt_path_def pml4_index_def pdpr_index_def pd_index_def pt_index_def Let_def)
  from paging_map_resolve [OF demo_paging_inv demo_free fl demo_unused al, of "0xffff900000002000"] eq
  show ?thesis by auto
qed

text \<open>
  C4: unmapping refines a removal. On a well-formed page table with a page of the given size at an
  address, \<open>paging_unmap_page\<close> succeeds, keeps the page table well-formed (also where it releases
  empty tables), removes exactly that page and invalidates the address; afterwards the addresses of
  that page resolve to \<open>NULL\<close> and all others as before.
\<close>

theorem paging_unmap_page_correct:
  assumes "paging_inv st root" and "pages st root (virt_path virt s) = Some e"
  shows "\<exists>st'. paging_unmap_page root virt s st = Some (PAGING_OK, st') \<and> paging_inv st' root \<and>
    pages st' root = (pages st root)(virt_path virt s := None) \<and> pg_tlb st' = virt # pg_tlb st \<and>
    (\<forall>v. paging_resolve_virtual_address root v st' =
       (if virt_path v s = virt_path virt s then 0 else paging_resolve_virtual_address root v st))"
proof -
  obtain st' where st': "paging_unmap_page root virt s st = Some (PAGING_OK, st')" "paging_inv st' root"
    "pages st' root = (pages st root)(virt_path virt s := None)" "pg_tlb st' = virt # pg_tlb st"
    using unmap_page_step [OF assms] by blast
  have "paging_resolve_virtual_address root v st' =
      (if virt_path v s = virt_path virt s then 0 else paging_resolve_virtual_address root v st)" for v
    unfolding resolve_refines_lookup st'(3) by (rule resolve_removed [OF assms(2)])
  with st' show ?thesis by blast
qed

lemma paging_unmap_page_correct_witness:
  "\<exists>st1 st2. paging_map_page demo_root 0x40000000 0x80000000 PAGE_SIZE_1GB 0x83 demo_paging =
     Some (PAGING_OK, st1) \<and> paging_unmap_page demo_root 0x80000000 PAGE_SIZE_1GB st1 = Some (PAGING_OK, st2) \<and>
     pages st2 demo_root (virt_path 0x80000000 PAGE_SIZE_1GB) = None"
proof -
  have fl: "page_flags_ok PAGE_SIZE_1GB 0x83" by (simp add: page_flags_ok_def)
  obtain st1 where st1: "paging_map_page demo_root 0x40000000 0x80000000 PAGE_SIZE_1GB 0x83 demo_paging =
      Some (PAGING_OK, st1)" "paging_inv st1 demo_root"
      "pages st1 demo_root (virt_path 0x80000000 PAGE_SIZE_1GB) \<noteq> None"
    using map_page_step [OF demo_paging_inv demo_free fl demo_unused(1), of "0x40000000" "0x80000000"]
      demo_unused(2) by auto
  from st1(3) obtain e where "pages st1 demo_root (virt_path 0x80000000 PAGE_SIZE_1GB) = Some e" by blast
  from paging_unmap_page_correct [OF st1(2) this] st1(1) show ?thesis by auto
qed

text \<open>
  Mapping an unused page and unmapping it again restores the map from paths to pages, whatever
  tables were allocated and released on the way.
\<close>

theorem paging_map_unmap_roundtrip:
  assumes "paging_inv st root" "3 \<le> card (free_pages (pg_pmm st))" "page_flags_ok s flags"
    "not_covered st root virt s" "page_unused st root virt s"
  shows "\<exists>st1 st2. paging_map_page root phys virt s flags st = Some (PAGING_OK, st1) \<and>
    paging_unmap_page root virt s st1 = Some (PAGING_OK, st2) \<and> paging_inv st2 root \<and>
    pages st2 root = pages st root"
proof -
  obtain st1 where st1: "paging_map_page root phys virt s flags st = Some (PAGING_OK, st1)" "paging_inv st1 root"
    "pages st1 root = (pages st root)(virt_path virt s \<mapsto> paging_create_entry phys flags (leaf_level s) PAGING_ENTRY_PAGE)"
    using map_page_step [OF assms(1-4), of phys] assms(5) by auto
  then have "pages st1 root (virt_path virt s) =
      Some (paging_create_entry phys flags (leaf_level s) PAGING_ENTRY_PAGE)" by simp
  from unmap_page_step [OF st1(2) this] obtain st2 where st2:
    "paging_unmap_page root virt s st1 = Some (PAGING_OK, st2)" "paging_inv st2 root"
    "pages st2 root = (pages st1 root)(virt_path virt s := None)"
    by blast
  have "pages st root (virt_path virt s) = None" using assms(5) by (simp add: page_unused_def)
  then have "pages st2 root = pages st root" unfolding st2(3) st1(3) by (simp add: fun_upd_idem)
  with st1(1) st2(1,2) show ?thesis by blast
qed

lemma paging_map_unmap_roundtrip_witness:
  "\<exists>st1 st2. paging_map_page demo_root 0x200000 0x7f0000200000 PAGE_SIZE_2MB 0x83 demo_paging = Some (PAGING_OK, st1) \<and>
    paging_unmap_page demo_root 0x7f0000200000 PAGE_SIZE_2MB st1 = Some (PAGING_OK, st2) \<and>
    pages st2 demo_root = pages demo_paging demo_root"
proof -
  have "page_flags_ok PAGE_SIZE_2MB 0x83" by (simp add: page_flags_ok_def)
  from paging_map_unmap_roundtrip [OF demo_paging_inv demo_free this demo_unused] show ?thesis by blast
qed



text \<open>
  A clone does not clear the new PML4. If no entry of the old one is present, cloning succeeds with
  a fresh page as the new PML4 and writes nothing to it: its entries are what the page held before.
\<close>

theorem paging_clone_keeps_old_contents:
  assumes "\<forall>i<512. \<not> bit (read_entry st old (of_nat i)) 0"
    and "pmm_inv (pg_pmm st)" "free_pages (pg_pmm st) \<noteq> {}" "g_hhdm_offset st = 0xffff800000000000"
    and "\<forall>a \<in> usable_pages (pg_pmm st). unat a < 2 ^ 40"
  shows "\<exists>a pm. a \<in> free_pages (pg_pmm st) \<and>
    paging_clone_page_table old 0 PML4 st = Some (PAGING_OK, a + g_hhdm_offset st, st\<lparr>pg_pmm := pm\<rparr>) \<and>
    pg_mem (st\<lparr>pg_pmm := pm\<rparr>) = pg_mem st"
proof -
  obtain a pm where a: "pmm_alloc (pg_pmm st) = Some (a, pm)" "a \<in> free_pages (pg_pmm st)"
    using pmm_pages.alloc_some [OF assms(2,3)] by blast
  have "unat a < 2 ^ 40" using assms(5) a(2) pmm_pages.free_managed [OF assms(2)] by blast
  moreover have "unat (- 0xffff800000000000 :: u64) = 0x800000000000" by simp
  ultimately have nz: "a + g_hhdm_offset st \<noteq> 0"
    unfolding assms(4) by (auto simp: add_eq_0_iff2)
  have skip: "clone_entries old new PML4 is w = Some w"
    if "\<forall>i \<in> set is. \<not> bit (read_entry w old (of_nat i)) 0" for new "is" w
    using that by (induction "is") (auto simp: present_iff Let_def split: prod.splits)
  have "read_entry (st\<lparr>pg_pmm := pm\<rparr>) = read_entry st" by (simp add: read_entry_def fun_eq_iff)
  then have "clone_entries old new PML4 [0..<512] (st\<lparr>pg_pmm := pm\<rparr>) = Some (st\<lparr>pg_pmm := pm\<rparr>)" for new
    by (intro skip) (use assms(1) in auto)
  then have "paging_clone_page_table old 0 PML4 st = Some (PAGING_OK, a + g_hhdm_offset st, st\<lparr>pg_pmm := pm\<rparr>)"
    using nz by (simp add: paging_clone_page_table_def a(1) Let_def del: upt_rec_numeral)
  then show ?thesis using a(2) by auto
qed

lemma paging_clone_keeps_old_contents_witness:
  "\<exists>a st'. paging_clone_page_table demo_root 0 PML4 demo_paging = Some (PAGING_OK, a, st') \<and>
     pg_mem st' = pg_mem demo_paging"
proof -
  have z: "\<forall>i<512. \<not> bit (read_entry demo_paging demo_root (of_nat i)) 0"
    by (simp add: read_entry_def demo_paging_def)
  have ne: "free_pages (pg_pmm demo_paging) \<noteq> {}" using demo_free by auto
  have h: "g_hhdm_offset demo_paging = 0xffff800000000000" by (simp add: demo_paging_def)
  have s: "\<forall>a \<in> usable_pages (pg_pmm demo_paging). unat a < 2 ^ 40"
    using paging_inv_pmm_inv(2) [OF demo_paging_inv] by blast
  from paging_clone_keeps_old_contents [OF z paging_inv_pmm_inv(1) [OF demo_paging_inv] ne h s]
  show ?thesis by blast
qed

text \<open>
  The dump finds the next table only below 2 GB: it shifts the 28-bit address field as an
  \<open>int\<close>. Where bit 31 of a table's address is set, it descends to a sign-extended address.
\<close>

theorem dump_child_sign_extends:
  "dump_child pml4_pointer_fields e hhdm =
     (if bit e 31 then (entry_base 12 20 e OR NOT (mask 32)) + hhdm else entry_base 12 20 e + hhdm)"
proof -
  have "scast (push_bit 12 (ucast (get_field pml4_pointer_fields ''base_address'' e) :: 32 word)) =
      (if bit e 31 then entry_base 12 20 e OR NOT (mask 32) else entry_base 12 20 e)"
  proof (rule bit_word_eqI)
    fix n
    assume "n < LENGTH(64)"
    consider "n < 31" | "n = 31" | "32 \<le> n" by arith
    then show "bit (scast (push_bit 12 (ucast (get_field pml4_pointer_fields ''base_address'' e) :: 32 word)) :: u64) n =
        bit (if bit e 31 then entry_base 12 20 e OR NOT (mask 32) else entry_base 12 20 e) n"
      by cases (use \<open>n < LENGTH(64)\<close> in
        \<open>auto simp: get_field_def field_positions bit_simps bit_entry_base min_def\<close>)
  qed
  then show ?thesis unfolding dump_child_def by simp
qed

end
