(* ===== verification/PagingClone.thy ===== *)
theory PagingClone
  imports PagingCorrect
begin

text \<open>
  Correctness of the recursive clone of a page table (\<open>paging_clone_page_table\<close> in
  kernel/src/memory/paging.c): the new page table has the pages of the old one. The old page table
  is the boot loader's, which lies outside the memory the manager hands out, so that the clone, which
  writes to the manager's pages only, leaves it as it is.
\<close>

section \<open>A page table outside the memory of the manager\<close>

definition foreign :: "paging_state \<Rightarrow> u64 \<Rightarrow> bool" where
  "foreign st old \<longleftrightarrow>
     (\<forall>p t. valid_path p \<and> table_at st old p = Some t \<longrightarrow>
        aligned_table st t \<and> t - g_hhdm_offset st \<notin> usable_pages (pg_pmm st))"

lemma untouched_entry:
  assumes "untouched st st'" "foreign st old" "valid_path p" "table_at st old p = Some t" "i < 512"
  shows "read_entry st' t (of_nat i) = read_entry st t (of_nat i)"
  using assms unfolding untouched_def foreign_def by blast

lemma untouched_table:
  assumes "untouched st st'" "foreign st old" "valid_path p"
  shows "table_at st' old p = table_at st old p"
  using assms(3)
proof (induction p)
  case (Cons i p)
  have v: "valid_path p" "i < 512" using valid_path_Cons [OF Cons.prems] by blast+
  have h: "g_hhdm_offset st' = g_hhdm_offset st" using assms(1) by (simp add: untouched_def)
  show ?case
  proof (cases "table_at st old p")
    case (Some t)
    show ?thesis
      using Cons.IH [OF v(1)] Some untouched_entry [OF assms(1,2) v(1) Some v(2)] h
      by (simp add: child_table_def Let_def)
  qed (simp add: Cons.IH [OF v(1)])
qed simp

lemma untouched_pages:
  assumes "untouched st st'" "foreign st old"
  shows "pages st' old = pages st old"
proof
  fix q show "pages st' old q = pages st old q"
  proof (cases q)
    case (Cons i p)
    show ?thesis
    proof (cases "valid_path p \<and> i < 512")
      case True
      then have "read_entry st' t (of_nat i) = read_entry st t (of_nat i)" if "table_at st old p = Some t" for t
        using untouched_entry [OF assms] that by blast
      then show ?thesis
        using untouched_table [OF assms, of p] True by (simp add: Cons pages_Cons Let_def split: option.split)
    qed (auto simp: Cons pages_Cons)
  qed simp
qed

lemma untouched_foreign:
  assumes "untouched st st'" "foreign st old"
  shows "foreign st' old"
  using untouched_table [OF assms] assms unfolding foreign_def untouched_def aligned_table_def by auto

lemma clone_statics [simp]:
  "read_entry (st\<lparr>pg_clone := c\<rparr>) t i = read_entry st t i"
  "table_at (st\<lparr>pg_clone := c\<rparr>) root p = table_at st root p"
  "page_at (st\<lparr>pg_clone := c\<rparr>) root p = page_at st root p"
  "pages (st\<lparr>pg_clone := c\<rparr>) root q = pages st root q"
  "aligned_table (st\<lparr>pg_clone := c\<rparr>) t = aligned_table st t"
  "paging_inv (st\<lparr>pg_clone := c\<rparr>) root = paging_inv st root"
  "foreign (st\<lparr>pg_clone := c\<rparr>) root = foreign st root"
  "untouched (st\<lparr>pg_clone := c\<rparr>) st' = untouched st st'"
proof -
  show r: "read_entry (st\<lparr>pg_clone := c\<rparr>) t i = read_entry st t i" for t i by (simp add: read_entry_def)
  have ch: "child_table (st\<lparr>pg_clone := c\<rparr>) e = child_table st e" for e by (simp add: child_table_def)
  show t: "table_at (st\<lparr>pg_clone := c\<rparr>) root p = table_at st root p" for root p
    by (induction p) (simp_all add: r ch Let_def cong: if_cong option.case_cong)
  show p: "page_at (st\<lparr>pg_clone := c\<rparr>) root p = page_at st root p" for p
    by (cases p) (simp_all add: r t Let_def cong: if_cong option.case_cong)
  then show "pages (st\<lparr>pg_clone := c\<rparr>) root q = pages st root q" by (simp add: pages_def)
  show a: "aligned_table (st\<lparr>pg_clone := c\<rparr>) t = aligned_table st t" for t by (simp add: aligned_table_def)
  show "paging_inv (st\<lparr>pg_clone := c\<rparr>) root = paging_inv st root" by (simp add: paging_inv_def table_ok_def t a)
  show "foreign (st\<lparr>pg_clone := c\<rparr>) root = foreign st root" by (simp add: foreign_def t a)
  show "untouched (st\<lparr>pg_clone := c\<rparr>) st' = untouched st st'" by (simp add: untouched_def r a)
qed

lemma compact_statics [simp]: "compact_but (st\<lparr>pg_clone := c\<rparr>) root x = compact_but st root x"
  by (simp add: compact_but_def)

section \<open>Entries and addresses at a path\<close>

text \<open>The level of the table with \<open>n\<close> indices above it, the size of its pages, a copied entry.\<close>

definition level_of :: "nat \<Rightarrow> page_table_level_t" where
  "level_of n = (if n = 0 then PML4 else if n = 1 then PDPR else if n = 2 then PD else PT)"

definition size_of :: "nat \<Rightarrow> page_size_t" where
  "size_of n = (if n = 1 then PAGE_SIZE_1GB else if n = 2 then PAGE_SIZE_2MB else PAGE_SIZE_4KB)"

definition copied :: "nat \<Rightarrow> page_table_entry_t \<Rightarrow> page_table_entry_t" where
  "copied n e =
     paging_create_entry (entry_base_address e (level_of n) PAGING_ENTRY_PAGE)
       (paging_get_flags_from_entry e (level_of n) PAGING_ENTRY_PAGE) (level_of n) PAGING_ENTRY_PAGE"

fun virt_of :: "nat list \<Rightarrow> u64" where
  "virt_of [a3, a4] = paging_get_virt_address_from_indices (of_nat a4) (of_nat a3) 0 0"
| "virt_of [a2, a3, a4] = paging_get_virt_address_from_indices (of_nat a4) (of_nat a3) (of_nat a2) 0"
| "virt_of [a1, a2, a3, a4] =
     paging_get_virt_address_from_indices (of_nat a4) (of_nat a3) (of_nat a2) (of_nat a1)"
| "virt_of _ = 0"

text \<open>The static index variables hold the indices of the path above the table being walked.\<close>

fun statics_at :: "u64 \<times> u64 \<times> u64 \<times> u64 \<Rightarrow> nat list \<Rightarrow> bool" where
  "statics_at (i4, i3, i2, i1) [a4] \<longleftrightarrow> i4 = of_nat a4"
| "statics_at (i4, i3, i2, i1) [a3, a4] \<longleftrightarrow> i4 = of_nat a4 \<and> i3 = of_nat a3"
| "statics_at (i4, i3, i2, i1) [a2, a3, a4] \<longleftrightarrow> i4 = of_nat a4 \<and> i3 = of_nat a3 \<and> i2 = of_nat a2"
| "statics_at _ _ \<longleftrightarrow> True"

lemma path_cases:
  assumes "length p \<le> 3"
  obtains "p = []" | a where "p = [a]" | a b where "p = [a, b]" | a b c where "p = [a, b, c]"
  using assms that by (auto simp: le_Suc_eq numeral_3_eq_3 length_Suc_conv)

lemma statics_at_tail: "statics_at c (i # p) \<Longrightarrow> length p < 3 \<Longrightarrow> statics_at c p"
  by (cases c; rule path_cases [of p]) auto

lemma virt_path_of:
  assumes "valid_path p" "i < 512" "p \<noteq> []"
  shows "virt_path (virt_of (i # p)) (size_of (length p)) = i # p"
proof -
  have "length p \<le> 3" using assms(1) by (simp add: valid_path_def)
  then show ?thesis
    by (rule path_cases)
      (use assms in \<open>simp_all add: virt_path_def size_of_def valid_path_def virt_indices unat_of_nat_u64\<close>)
qed

lemma field_fits_entry_base:
  assumes "off + w \<le> 64"
  shows "field_fits off w (entry_base off w e)"
proof -
  have "entry_base off w e = push_bit off (take_bit w (drop_bit off e))"
    by (simp add: entry_base_def take_bit_eq_mask)
  moreover have "unat (push_bit off (take_bit w (drop_bit off e)) :: u64) =
      2 ^ off * unat (take_bit w (drop_bit off e))"
  proof -
    have lt: "unat (take_bit w (drop_bit off e)) < 2 ^ w"
      by (simp add: unsigned_take_bit_eq take_bit_nat_less_exp)
    then have "2 ^ off * unat (take_bit w (drop_bit off e)) < 2 ^ (off + w)" by (simp add: power_add)
    also have "\<dots> \<le> 2 ^ 64" using assms by (intro power_increasing) simp_all
    finally have "push_bit off (unat (take_bit w (drop_bit off e))) < 2 ^ 64"
      by (simp only: push_bit_eq_mult mult.commute)
    then show ?thesis
      unfolding unsigned_push_bit_eq by (simp add: take_bit_nat_eq_self push_bit_eq_mult mult.commute)
  qed
  moreover have "unat (take_bit w (drop_bit off e)) < 2 ^ w"
    by (simp add: unsigned_take_bit_eq take_bit_nat_less_exp)
  ultimately show ?thesis by (simp add: field_fits_def power_add)
qed

text \<open>A copied entry has the base address and the flags of the original.\<close>

lemma copied_same:
  assumes "0 < n" "n \<le> 3"
  shows "entry_base_address (copied n e) (level_of n) PAGING_ENTRY_PAGE =
      entry_base_address e (level_of n) PAGING_ENTRY_PAGE"
    "paging_get_flags_from_entry (copied n e) (level_of n) PAGING_ENTRY_PAGE =
      paging_get_flags_from_entry e (level_of n) PAGING_ENTRY_PAGE"
proof -
  have "n = 1 \<or> n = 2 \<or> n = 3" using assms by arith
  then show "entry_base_address (copied n e) (level_of n) PAGING_ENTRY_PAGE =
      entry_base_address e (level_of n) PAGING_ENTRY_PAGE"
    "paging_get_flags_from_entry (copied n e) (level_of n) PAGING_ENTRY_PAGE =
      paging_get_flags_from_entry e (level_of n) PAGING_ENTRY_PAGE"
    by (auto simp: copied_def level_of_def entry_base_address_def base_field create_entry_word entry_base_word
        field_fits_entry_base paging_get_flags_from_entry_def flags_masks flags_entry_word)
qed

lemma copied_flags:
  assumes "is_page n e"
  shows "page_flags_ok (size_of n) (paging_get_flags_from_entry e (level_of n) PAGING_ENTRY_PAGE)"
  using assms by (auto simp: is_page_def page_flags_ok_def size_of_def level_of_def paging_get_flags_from_entry_def
      flags_masks bit_simps)

lemma leaf_level_of: "0 < n \<Longrightarrow> n \<le> 3 \<Longrightarrow> leaf_level (size_of n) = level_of n"
  by (auto simp: size_of_def level_of_def)

section \<open>One round of the loop\<close>

lemma clone_absent:
  "\<not> bit (read_entry w t (of_nat i)) 0 \<Longrightarrow>
   clone_entries t new level (i # is) w = clone_entries t new level is w"
  by (cases "pg_clone w") (simp add: present_iff Let_def)

lemma clone_leaf:
  assumes "is_page (length p) (read_entry w t (of_nat i))" "statics_at (pg_clone w) p" "length p \<le> 3"
  obtains c where "statics_at c p"
    "\<And>is. clone_entries t new (level_of (length p)) (i # is) w =
       do {
         r \<leftarrow> paging_map_page_without_tlb_invalidation new
           (entry_base_address (read_entry w t (of_nat i)) (level_of (length p)) PAGING_ENTRY_PAGE)
           (virt_of (i # p)) (size_of (length p))
           (paging_get_flags_from_entry (read_entry w t (of_nat i)) (level_of (length p)) PAGING_ENTRY_PAGE)
           (w\<lparr>pg_clone := c\<rparr>);
         clone_entries t new (level_of (length p)) is (snd r)
       }"
proof -
  let ?e = "read_entry w t (of_nat i)"
  obtain i4 i3 i2 i1 where c: "pg_clone w = (i4, i3, i2, i1)" by (cases "pg_clone w")
  have present: "bit ?e 0" using assms(1) by (simp add: is_page_def)
  from assms(3) show ?thesis
  proof (rule path_cases)
    assume "p = []"
    with assms(1) show ?thesis by (simp add: is_page_def)
  next
    fix a assume p: "p = [a]"
    show ?thesis
      by (rule that [of "(i4, of_nat i, i2, i1)"])
        (use assms(1,2) present in \<open>simp_all add: p c is_page_def present_iff level_of_def size_of_def
          entry_base_address_def Let_def case_prod_beta\<close>)
  next
    fix a b assume p: "p = [a, b]"
    show ?thesis
      by (rule that [of "(i4, i3, of_nat i, i1)"])
        (use assms(1,2) present in \<open>simp_all add: p c is_page_def present_iff level_of_def size_of_def
          entry_base_address_def Let_def case_prod_beta\<close>)
  next
    fix a b d assume p: "p = [a, b, d]"
    show ?thesis
      by (rule that [of "(i4, i3, i2, of_nat i)"])
        (use assms(1,2) present in \<open>simp_all add: p c is_page_def present_iff level_of_def size_of_def
          entry_base_address_def Let_def case_prod_beta\<close>)
  qed
qed

lemma clone_pointer:
  assumes "is_pointer (length p) (read_entry w t (of_nat i))" "statics_at (pg_clone w) p"
  obtains c where "statics_at c (i # p)"
    "\<And>is. clone_entries t new (level_of (length p)) (i # is) w =
       do {
         w' \<leftarrow> clone_entries (child_table w (read_entry w t (of_nat i))) new (level_of (Suc (length p))) [0..<512]
                 (w\<lparr>pg_clone := c\<rparr>);
         clone_entries t new (level_of (length p)) is w'
       }"
proof -
  let ?e = "read_entry w t (of_nat i)"
  obtain i4 i3 i2 i1 where c: "pg_clone w = (i4, i3, i2, i1)" by (cases "pg_clone w")
  have present: "bit ?e 0" "length p < 3" using assms(1) by (simp_all add: is_pointer_def)
  then have "length p \<le> 3" by simp
  then show ?thesis
  proof (rule path_cases)
    assume p: "p = []"
    show ?thesis
      by (rule that [of "(of_nat i, i3, i2, i1)"])
        (use assms present in \<open>simp_all add: p c present_iff level_of_def child_table_def base_field Let_def
          del: upt_rec_numeral\<close>)
  next
    fix a assume p: "p = [a]"
    show ?thesis
      by (rule that [of "(i4, of_nat i, i2, i1)"])
        (use assms present in \<open>simp_all add: p c present_iff is_pointer_def level_of_def child_table_def base_field
          Let_def del: upt_rec_numeral\<close>)
  next
    fix a b assume p: "p = [a, b]"
    show ?thesis
      by (rule that [of "(i4, i3, of_nat i, i1)"])
        (use assms present in \<open>simp_all add: p c present_iff is_pointer_def level_of_def child_table_def base_field
          Let_def del: upt_rec_numeral\<close>)
  qed (use present in simp)
qed

section \<open>The loop\<close>

text \<open>The paths at or below the entries with the indices that are left of the table at \<open>p\<close>.\<close>

definition below :: "nat list \<Rightarrow> nat list \<Rightarrow> nat list \<Rightarrow> bool" where
  "below is p q \<longleftrightarrow> (\<exists>i \<in> set is. suffix (i # p) q)"

definition pages_below :: "paging_state \<Rightarrow> u64 \<Rightarrow> nat list \<Rightarrow> nat list \<Rightarrow> nat list set" where
  "pages_below w old is p = {q. below is p q \<and> pages w old q \<noteq> None}"

text \<open>
  Before the loop over the indices \<open>is\<close> of the old table at \<open>p\<close> nothing has been entered in the new
  page table at or below them, and the manager has three pages for each page that is still to come.
\<close>

definition clone_pre :: "u64 \<Rightarrow> u64 \<Rightarrow> nat list \<Rightarrow> nat list \<Rightarrow> paging_state \<Rightarrow> bool" where
  "clone_pre old new p is w \<longleftrightarrow>
     paging_inv w new \<and> new - g_hhdm_offset w \<in> usable_pages (pg_pmm w) \<and> foreign w old \<and>
     valid_path p \<and> statics_at (pg_clone w) p \<and> distinct is \<and> set is \<subseteq> {..<512} \<and>
     (\<forall>i \<in> set is. table_at w new (i # p) = None \<and> page_at w new (i # p) = None) \<and>
     (\<forall>q. suffix q p \<longrightarrow> page_at w new q = None) \<and>
     3 * card (pages_below w old is p) \<le> card (free_pages (pg_pmm w))"

definition clone_post :: "u64 \<Rightarrow> u64 \<Rightarrow> nat list \<Rightarrow> nat list \<Rightarrow> paging_state \<Rightarrow> paging_state \<Rightarrow> bool" where
  "clone_post old new p is w w' \<longleftrightarrow>
     paging_inv w' new \<and> untouched w w' \<and> statics_at (pg_clone w') p \<and>
     (\<forall>q. pages w' new q =
       (if below is p q then map_option (copied (length q - 1)) (pages w old q) else pages w new q)) \<and>
     (\<forall>q. valid_path q \<and> \<not> suffix q p \<and> \<not> below is p q \<longrightarrow> table_at w' new q = table_at w new q) \<and>
     card (free_pages (pg_pmm w)) \<le> card (free_pages (pg_pmm w')) + 3 * card (pages_below w old is p) \<and>
     (compact_but w new [] \<longrightarrow> compact_but w' new [])"

lemma below_simps [simp]:
  "\<not> below [] p q" "below [i] p q \<longleftrightarrow> suffix (i # p) q"
  "below (i # is) p q \<longleftrightarrow> suffix (i # p) q \<or> below is p q"
  by (auto simp: below_def)

lemma suffix_same_length: "suffix (i # p) q \<Longrightarrow> suffix (j # p) q \<Longrightarrow> i = j"
  by (auto simp: suffix_def)

lemma not_below: "\<not> suffix (i # p) p" "i \<notin> set is \<Longrightarrow> \<not> below is p (i # p)" "suffix q p \<Longrightarrow> \<not> below is p q"
proof -
  show n: "\<not> suffix (i # p) p" for i by (auto dest: suffix_length_le)
  show "i \<notin> set is \<Longrightarrow> \<not> below is p (i # p)" by (auto simp: below_def dest: suffix_same_length)
  show "suffix q p \<Longrightarrow> \<not> below is p q"
    using n by (auto simp: below_def dest: suffix_order.trans)
qed

lemma finite_pages_below: "finite (pages_below w old is p)"
proof (rule finite_subset)
  show "pages_below w old is p \<subseteq> {q. set q \<subseteq> {..<512} \<and> length q \<le> 4}"
    by (auto simp: pages_below_def pages_def valid_page_path_def split: if_splits)
  show "finite {q. set q \<subseteq> {..<512 :: nat} \<and> length q \<le> 4}" by (rule finite_lists_length_le) simp
qed

lemma card_pages_below:
  assumes "i \<notin> set is"
  shows "card (pages_below w old (i # is) p) = card (pages_below w old [i] p) + card (pages_below w old is p)"
proof -
  have "pages_below w old (i # is) p = pages_below w old [i] p \<union> pages_below w old is p"
    by (auto simp: pages_below_def)
  moreover have "pages_below w old [i] p \<inter> pages_below w old is p = {}"
    using assms by (auto simp: pages_below_def below_def dest: suffix_same_length)
  ultimately show ?thesis by (simp add: card_Un_disjoint finite_pages_below)
qed

lemma pages_below_untouched:
  "untouched w w' \<Longrightarrow> foreign w old \<Longrightarrow> pages_below w' old is p = pages_below w old is p"
  by (simp add: pages_below_def untouched_pages)

lemma pre_first:
  assumes "clone_pre old new p (i # is) w"
  shows "clone_pre old new p [i] w"
  using assms card_pages_below [of i "is" w old p] unfolding clone_pre_def by auto

text \<open>What is left after one index, and after one index and the rest.\<close>

lemma pre_rest:
  assumes pre: "clone_pre old new p (i # is) w" and post: "clone_post old new p [i] w w1"
  shows "clone_pre old new p is w1"
proof -
  have pr: "foreign w old" "valid_path p" "distinct (i # is)" "set (i # is) \<subseteq> {..<512}"
      "new - g_hhdm_offset w \<in> usable_pages (pg_pmm w)"
      "\<forall>j \<in> set (i # is). table_at w new (j # p) = None \<and> page_at w new (j # p) = None"
      "\<forall>q. suffix q p \<longrightarrow> page_at w new q = None"
      "3 * card (pages_below w old (i # is) p) \<le> card (free_pages (pg_pmm w))"
    using pre unfolding clone_pre_def by blast+
  have po: "paging_inv w1 new" "untouched w w1" "statics_at (pg_clone w1) p"
      "\<And>q. pages w1 new q = (if below [i] p q then map_option (copied (length q - 1)) (pages w old q)
         else pages w new q)"
      "\<And>q. valid_path q \<Longrightarrow> \<not> suffix q p \<Longrightarrow> \<not> below [i] p q \<Longrightarrow> table_at w1 new q = table_at w new q"
      "card (free_pages (pg_pmm w)) \<le> card (free_pages (pg_pmm w1)) + 3 * card (pages_below w old [i] p)"
    using post unfolding clone_post_def by blast+
  have "table_at w1 new (j # p) = None \<and> page_at w1 new (j # p) = None" if j: "j \<in> set is" for j
  proof
    have ij: "j \<noteq> i" "j < 512" using j pr(3,4) by auto
    have nb: "\<not> below [i] p (j # p)" using ij(1) by (auto dest: suffix_length_le simp: suffix_Cons)
    show "table_at w1 new (j # p) = None"
    proof (cases "length p < 3")
      case True
      then have "valid_path (j # p)" using pr(2) ij(2) by (auto simp: valid_path_def)
      from po(5) [OF this not_below(1) nb] show ?thesis using pr(6) j by simp
    next
      case False
      then have "length p = 3" using pr(2) by (simp add: valid_path_def)
      then show ?thesis by (rule no_table_below_leaf)
    qed
    show "page_at w1 new (j # p) = None"
      using po(4) [of "j # p"] nb pr(2,6) ij(2) j by (simp add: pages_Cons del: page_at.simps)
  qed
  moreover have "page_at w1 new q = None" if q: "suffix q p" for q
  proof (cases q)
    case (Cons j r)
    have "valid_page_path q"
      using q pr(2) by (auto simp: valid_page_path_def valid_path_def suffix_def)
    then show ?thesis
      using po(4) [of q] not_below(3) [OF q, of "[i]"] pr(7) q by (simp add: pages_def)
  qed simp
  moreover have "foreign w1 old" by (rule untouched_foreign [OF po(2) pr(1)])
  moreover have "new - g_hhdm_offset w1 \<in> usable_pages (pg_pmm w1)" using po(2) pr(5) by (simp add: untouched_def)
  moreover have "3 * card (pages_below w1 old is p) \<le> card (free_pages (pg_pmm w1))"
    using pr(3,8) po(6) card_pages_below [of i "is" w old p] by (simp add: pages_below_untouched [OF po(2) pr(1)])
  ultimately show ?thesis using po(1,3) pr(2-4) unfolding clone_pre_def by auto
qed

lemma post_trans:
  assumes pre: "clone_pre old new p (i # is) w" and first: "clone_post old new p [i] w w1"
    and rest: "clone_post old new p is w1 w'"
  shows "clone_post old new p (i # is) w w'"
proof -
  have pr: "foreign w old" "i \<notin> set is" using pre unfolding clone_pre_def by auto
  have u: "untouched w w1" using first unfolding clone_post_def by blast
  note same = untouched_pages [OF u pr(1)] pages_below_untouched [OF u pr(1)]
  have disj: "\<not> (suffix (i # p) q \<and> below is p q)" for q
    using pr(2) by (auto simp: below_def dest: suffix_same_length)
  have "pages w' new q = (if below (i # is) p q then map_option (copied (length q - 1)) (pages w old q)
      else pages w new q)" for q
    using first rest disj [of q] unfolding clone_post_def same by simp
  moreover have "untouched w w'" using u rest unfolding clone_post_def by (blast intro: untouched_trans)
  moreover have "table_at w' new q = table_at w new q" if "valid_path q" "\<not> suffix q p" "\<not> below (i # is) p q" for q
    using first rest that unfolding clone_post_def by simp
  moreover have "card (free_pages (pg_pmm w)) \<le>
      card (free_pages (pg_pmm w')) + 3 * card (pages_below w old (i # is) p)"
    using first rest card_pages_below [OF pr(2), of w old p] unfolding clone_post_def same by simp
  moreover have "compact_but w new [] \<longrightarrow> compact_but w' new []"
    using first rest unfolding clone_post_def by blast
  ultimately show ?thesis using rest unfolding clone_post_def by simp
qed

lemma virt_path_strict:
  "s \<noteq> PAGE_SIZE_1GB \<Longrightarrow> strict_suffix (virt_path virt PAGE_SIZE_1GB) (virt_path virt s)"
  "s = PAGE_SIZE_4KB \<Longrightarrow> strict_suffix (virt_path virt PAGE_SIZE_2MB) (virt_path virt s)"
  by (cases s; simp add: virt_path_def Let_def strict_suffix_def suffix_Cons)+

lemma pages_not_below:
  assumes "table_at st root x = None" "suffix x q" "q \<noteq> x"
  shows "pages st root q = None"
  using page_at_below [OF assms] by (simp add: pages_def)

lemma pages_below_none:
  assumes "table_at st root x = None" "page_at st root x = None" "suffix x q"
  shows "pages st root q = None"
  using pages_not_below [OF assms(1,3)] assms(2) by (cases "q = x") (auto simp: pages_def)

lemma clone_post_nothing:
  assumes pre: "clone_pre old new p [i] w" and none: "\<And>q. suffix (i # p) q \<Longrightarrow> pages w old q = None"
  shows "clone_post old new p [i] w w"
proof -
  have "pages w new q = None" if "suffix (i # p) q" for q
    using pre pages_below_none [of w new "i # p" q] that by (simp add: clone_pre_def del: table_at.simps page_at.simps)
  then show ?thesis using pre none by (simp add: clone_pre_def clone_post_def)
qed

lemma clone_step_leaf:
  assumes pre: "clone_pre old new p [i] w" and t: "table_at w old p = Some t"
    and page: "is_page (length p) (read_entry w t (of_nat i))"
  shows "\<exists>w1. clone_post old new p [i] w w1 \<and>
    (\<forall>is. clone_entries t new (level_of (length p)) (i # is) w = clone_entries t new (level_of (length p)) is w1)"
proof -
  let ?e = "read_entry w t (of_nat i)" and ?n = "length p" and ?x = "i # p"
  let ?phys = "entry_base_address ?e (level_of ?n) PAGING_ENTRY_PAGE"
    and ?flags = "paging_get_flags_from_entry ?e (level_of ?n) PAGING_ENTRY_PAGE"
  have pr: "paging_inv w new" "new - g_hhdm_offset w \<in> usable_pages (pg_pmm w)" "foreign w old"
      "valid_path p" "statics_at (pg_clone w) p" "i < 512"
      "table_at w new ?x = None" "page_at w new ?x = None" "\<And>q. suffix q p \<Longrightarrow> page_at w new q = None"
      "3 * card (pages_below w old [i] p) \<le> card (free_pages (pg_pmm w))"
    using pre by (simp_all add: clone_pre_def del: table_at.simps page_at.simps)
  have n: "0 < ?n" "?n \<le> 3" using page pr(4) by (auto simp: is_page_def valid_path_def)
  have pg: "page_at w old ?x = Some ?e" and nt: "table_at w old ?x = None"
    using t page by (auto simp: is_page_def is_pointer_def Let_def)
  have oldx: "pages w old ?x = Some ?e" using pg pr(4,6) by (simp add: pages_Cons del: page_at.simps)
  have only: "pages w old q = None" if "suffix ?x q" "q \<noteq> ?x" for q
    by (rule pages_not_below [OF nt that])
  have one: "pages_below w old [i] p = {?x}"
  proof
    show "pages_below w old [i] p \<subseteq> {?x}" using only by (auto simp: pages_below_def) (metis option.distinct(1))
    show "{?x} \<subseteq> pages_below w old [i] p" using oldx by (simp add: pages_below_def)
  qed
  have p: "p \<noteq> []" using n(1) by auto
  have path: "virt_path (virt_of ?x) (size_of ?n) = ?x" by (rule virt_path_of [OF pr(4,6) p])
  obtain c where c: "statics_at c p"
    and run: "\<And>is. clone_entries t new (level_of ?n) (i # is) w =
       do {
         r \<leftarrow> paging_map_page_without_tlb_invalidation new ?phys (virt_of ?x) (size_of ?n) ?flags (w\<lparr>pg_clone := c\<rparr>);
         clone_entries t new (level_of ?n) is (snd r)
       }"
    by (rule clone_leaf [OF page pr(5) n(2), of new]) blast
  let ?w = "w\<lparr>pg_clone := c\<rparr>"
  have unused: "page_unused ?w new (virt_of ?x) (size_of ?n)"
    using pr(4,6,7,8) by (simp add: page_unused_def path pages_Cons del: table_at.simps page_at.simps)
  have above: "pages w new q = None" if "strict_suffix q ?x" for q
    using that pr(9) [of q] by (auto simp: pages_def strict_suffix_def suffix_Cons)
  have cov: "not_covered ?w new (virt_of ?x) (size_of ?n)"
    using virt_path_strict [where virt = "virt_of ?x" and s = "size_of ?n", unfolded path] above
    unfolding not_covered_def clone_statics by blast
  have free: "3 \<le> card (free_pages (pg_pmm ?w))" using pr(10) by (simp add: one)
  have inv: "paging_inv ?w new" and man: "new - g_hhdm_offset ?w \<in> usable_pages (pg_pmm ?w)"
    using pr(1,2) by simp_all
  obtain w1 where w1: "paging_map_page_without_tlb_invalidation new ?phys (virt_of ?x) (size_of ?n) ?flags ?w =
      Some (PAGING_OK, w1)" "paging_inv w1 new"
    "pages w1 new = (pages ?w new)(?x \<mapsto> paging_create_entry ?phys ?flags (level_of ?n) PAGING_ENTRY_PAGE)"
    "\<And>q. valid_path q \<Longrightarrow> \<not> strict_suffix q ?x \<Longrightarrow> table_at w1 new q = table_at ?w new q"
    "card (free_pages (pg_pmm ?w)) \<le> card (free_pages (pg_pmm w1)) + 3"
    "untouched ?w w1" "pg_clone w1 = c"
    by (rule map_unused [OF inv free copied_flags [OF page] cov unused man, of ?phys])
      (simp add: path leaf_level_of [OF n])
  have new: "pages w1 new q = (if suffix ?x q then map_option (copied (length q - 1)) (pages w old q)
      else pages w new q)" for q
    using w1(3) oldx only [of q] pages_not_below [OF pr(7), of q] by (cases "q = ?x") (auto simp: copied_def)
  have "\<not> strict_suffix q ?x" if "\<not> suffix q p" for q
    using that by (auto simp: strict_suffix_def suffix_Cons)
  moreover have "compact_but w new [] \<longrightarrow> compact_but w1 new []"
    using compact_mapped [OF _ w1(3,4)] by simp
  ultimately have "clone_post old new p [i] w w1"
    using w1 c new by (simp add: clone_post_def one del: table_at.simps)
  moreover have "clone_entries t new (level_of ?n) (i # is) w = clone_entries t new (level_of ?n) is w1" for "is"
    unfolding run by (simp add: w1(1))
  ultimately show ?thesis by blast
qed

lemma below_all:
  assumes "pages st root q \<noteq> None" "suffix x q" "q \<noteq> x"
  shows "below [0..<512] x q"
proof -
  obtain r where q: "q = r @ x" using assms(2) by (auto simp: suffix_def)
  with assms(3) obtain r' j where r: "r = r' @ [j]" by (cases r rule: rev_exhaust) auto
  have "valid_page_path q" using assms(1) by (auto simp: pages_def split: if_splits)
  then have "j < 512" by (simp add: q r valid_page_path_def)
  moreover have "suffix (j # x) q" by (simp add: q r suffix_def)
  ultimately show ?thesis by (auto simp: below_def)
qed

lemma below_path: "below is x q \<Longrightarrow> suffix x q \<and> q \<noteq> x"
  using not_below(3) [of x x "is"] by (auto simp: below_def dest: suffix_order.trans [OF suffix_tail [OF suffix_order.refl]])

lemma clone_step_pointer:
  assumes pre: "clone_pre old new p [i] w" and t: "table_at w old p = Some t"
    and ptr: "is_pointer (length p) (read_entry w t (of_nat i))"
    and IH: "\<And>w' t'. clone_pre old new (i # p) [0..<512] w' \<Longrightarrow> table_at w' old (i # p) = Some t' \<Longrightarrow>
      \<exists>w''. clone_entries t' new (level_of (Suc (length p))) [0..<512] w' = Some w'' \<and>
        clone_post old new (i # p) [0..<512] w' w''"
  shows "\<exists>w1. clone_post old new p [i] w w1 \<and>
    (\<forall>is. clone_entries t new (level_of (length p)) (i # is) w = clone_entries t new (level_of (length p)) is w1)"
proof -
  let ?e = "read_entry w t (of_nat i)" and ?n = "length p" and ?x = "i # p"
  have pr: "paging_inv w new" "new - g_hhdm_offset w \<in> usable_pages (pg_pmm w)" "foreign w old"
      "valid_path p" "statics_at (pg_clone w) p" "i < 512"
      "table_at w new ?x = None" "page_at w new ?x = None" "\<And>q. suffix q p \<Longrightarrow> page_at w new q = None"
      "3 * card (pages_below w old [i] p) \<le> card (free_pages (pg_pmm w))"
    using pre by (simp_all add: clone_pre_def del: table_at.simps page_at.simps)
  have n: "?n < 3" using ptr by (simp add: is_pointer_def)
  have x: "valid_path ?x" using pr(4,6) n by (auto simp: valid_path_def)
  have tx: "table_at w old ?x = Some (child_table w ?e)" using t ptr by (simp add: Let_def)
  have npg: "page_at w old ?x = None" using t ptr by (auto simp: is_page_def is_pointer_def Let_def)
  obtain c where c: "statics_at c ?x"
    and run: "\<And>is. clone_entries t new (level_of ?n) (i # is) w =
       do {
         w' \<leftarrow> clone_entries (child_table w ?e) new (level_of (Suc ?n)) [0..<512] (w\<lparr>pg_clone := c\<rparr>);
         clone_entries t new (level_of ?n) is w'
       }"
    by (rule clone_pointer [OF ptr pr(5), of new]) blast
  let ?w = "w\<lparr>pg_clone := c\<rparr>"
  have oldx: "pages w old ?x = None" using npg by (simp add: pages_def del: page_at.simps)
  have all: "below [0..<512] ?x q \<longleftrightarrow> suffix ?x q" if "pages w old q \<noteq> None" for q
    using below_all [OF that] below_path that oldx by (cases "q = ?x") auto
  have same: "pages_below w old [0..<512] ?x = pages_below w old [i] p"
    using all by (auto simp: pages_below_def)
  have nonew: "pages w new q = None" if "suffix ?x q" for q
    by (rule pages_below_none [OF pr(7,8) that])
  have "table_at w new (j # ?x) = None \<and> page_at w new (j # ?x) = None" for j
    using pr(7) by (simp del: table_at.simps(2)) (simp only: table_at.simps(2) [of _ _ j] page_at.simps pr(7), simp)
  moreover have "page_at w new q = None" if "suffix q ?x" for q
    using that pr(8) pr(9) [of q] by (auto simp: suffix_Cons simp del: page_at.simps)
  moreover have "pages_below ?w old [0..<512] ?x = pages_below w old [i] p"
    unfolding same [symmetric] by (simp add: pages_below_def)
  ultimately have "clone_pre old new ?x [0..<512] ?w"
    using pr(1-3,10) x c unfolding clone_pre_def clone_statics by auto
  moreover have "table_at ?w old ?x = Some (child_table w ?e)" by (simp only: clone_statics tx)
  ultimately obtain w1
    where w1: "clone_entries (child_table w ?e) new (level_of (Suc ?n)) [0..<512] ?w = Some w1"
      and post: "clone_post old new ?x [0..<512] ?w w1"
    using IH by blast
  have po: "paging_inv w1 new" "untouched w w1" "statics_at (pg_clone w1) ?x"
      "\<And>q. pages w1 new q = (if below [0..<512] ?x q then map_option (copied (length q - 1)) (pages w old q)
         else pages w new q)"
      "\<And>q. valid_path q \<Longrightarrow> \<not> suffix q ?x \<Longrightarrow> \<not> below [0..<512] ?x q \<Longrightarrow> table_at w1 new q = table_at w new q"
      "card (free_pages (pg_pmm w)) \<le> card (free_pages (pg_pmm w1)) + 3 * card (pages_below w old [0..<512] ?x)"
      "compact_but w new [] \<longrightarrow> compact_but w1 new []"
    using post unfolding clone_post_def clone_statics by (simp_all add: pages_below_def del: upt_rec_numeral)
  have "pages w1 new q = (if suffix ?x q then map_option (copied (length q - 1)) (pages w old q)
      else pages w new q)" for q
  proof (cases "pages w old q = None")
    case True
    then show ?thesis using po(4) [of q] nonew [of q] below_path [of "[0..<512]" ?x q] by auto
  next
    case False
    then show ?thesis using po(4) [of q] all [of q] by simp
  qed
  moreover have "table_at w1 new q = table_at w new q" if "valid_path q" "\<not> suffix q p" "\<not> suffix ?x q" for q
  proof (rule po(5) [OF that(1)])
    show "\<not> suffix q ?x" using that(2,3) by (auto simp: suffix_Cons)
    show "\<not> below [0..<512] ?x q" using that(3) below_path by blast
  qed
  ultimately have "clone_post old new p [i] w w1"
    using po(1,2,6,7) statics_at_tail [OF po(3) n] by (simp add: clone_post_def same del: table_at.simps)
  moreover have "clone_entries t new (level_of ?n) (i # is) w = clone_entries t new (level_of ?n) is w1" for "is"
    unfolding run by (simp only: w1) simp
  ultimately show ?thesis by blast
qed

text \<open>An entry is absent, a page or a pointer.\<close>

lemma clone_step_absent:
  assumes pre: "clone_pre old new p [i] w" and t: "table_at w old p = Some t"
    and absent: "\<not> bit (read_entry w t (of_nat i)) 0"
  shows "clone_post old new p [i] w w"
  by (rule clone_post_nothing [OF pre pages_below_none [OF not_present_entry [OF t absent]]])

lemma entry_kinds:
  assumes "bit e 0" "n \<le> 3"
  shows "is_page n e \<or> is_pointer n e"
proof -
  have "n = 0 \<or> n = 1 \<or> n = 2 \<or> n = 3" using assms(2) by arith
  then show ?thesis using assms(1) by (auto simp: is_page_def is_pointer_def)
qed

lemma clone_entries_correct:
  assumes "clone_pre old new p is w" "table_at w old p = Some t"
  shows "\<exists>w'. clone_entries t new (level_of (length p)) is w = Some w' \<and> clone_post old new p is w w'"
  using assms
proof (induction "3 - length p" arbitrary: p "is" w t rule: less_induct)
  case outer: less
  show ?case
    using outer.prems
  proof (induction "is" arbitrary: w)
    case Nil
    then show ?case by (simp add: clone_pre_def clone_post_def pages_below_def)
  next
    case (Cons i "is")
    let ?run = "\<lambda>is. clone_entries t new (level_of (length p)) is"
    note pre = pre_first [OF Cons.prems(1)]
    have len: "length p \<le> 3" using pre by (simp add: clone_pre_def valid_path_def)
    have "\<exists>w1. clone_post old new p [i] w w1 \<and> (\<forall>is. ?run (i # is) w = ?run is w1)"
    proof (cases "bit (read_entry w t (of_nat i)) 0")
      case False
      with clone_step_absent [OF pre Cons.prems(2)] clone_absent show ?thesis by blast
    next
      case True
      from entry_kinds [OF this len] show ?thesis
      proof
        assume "is_page (length p) (read_entry w t (of_nat i))"
        then show ?thesis by (rule clone_step_leaf [OF pre Cons.prems(2)])
      next
        assume ptr: "is_pointer (length p) (read_entry w t (of_nat i))"
        then have "3 - length (i # p) < 3 - length p" by (auto simp: is_pointer_def)
        from outer.hyps [OF this] show ?thesis
          by (intro clone_step_pointer [OF pre Cons.prems(2) ptr]) simp
      qed
    qed
    then obtain w1 where w1: "clone_post old new p [i] w w1" "?run (i # is) w = ?run is w1" by blast
    have "untouched w w1" "foreign w old" "valid_path p"
      using w1(1) pre unfolding clone_post_def clone_pre_def by blast+
    then have "table_at w1 old p = Some t" using untouched_table Cons.prems(2) by simp
    from Cons.IH [OF pre_rest [OF Cons.prems(1) w1(1)] this] obtain w'
      where w': "?run is w1 = Some w'" "clone_post old new p is w1 w'" by blast
    with post_trans [OF Cons.prems(1) w1(1) w'(2)] show ?case unfolding w1(2) by blast
  qed
qed

section \<open>The clone\<close>

lemma empty_table:
  assumes "\<forall>i<512. \<not> bit (read_entry st root (of_nat i)) 0" "valid_page_path p" "p \<noteq> []"
  shows "table_at st root p = None" "page_at st root p = None"
proof -
  from assms(3) obtain r i where p: "p = r @ [i]" by (cases p rule: rev_exhaust) auto
  have "i < 512" using assms(2) by (simp add: p valid_page_path_def)
  then have np: "\<not> bit (read_entry st root (of_nat i)) 0" using assms(1) by blast
  have root: "table_at st root [] = Some root" by simp
  have s: "suffix [i] p" by (simp add: p suffix_def)
  note n = not_present_entry [OF root np]
  show "table_at st root p = None" by (rule table_at_below [OF n(1) s])
  show "page_at st root p = None" using page_at_below [OF n(1) s] n(2) by (cases "p = [i]") auto
qed

lemma fresh_root:
  assumes pm: "pmm_inv pm" and small: "\<forall>a \<in> usable_pages pm. unat a < 2 ^ 40 \<and> a + g_hhdm_offset st \<noteq> 0"
    and a: "a \<in> usable_pages pm" "a \<notin> free_pages pm"
    and zero: "\<forall>i<512. \<not> bit (read_entry st (a + g_hhdm_offset st) (of_nat i)) 0"
  shows "paging_inv (st\<lparr>pg_pmm := pm\<rparr>) (a + g_hhdm_offset st)"
proof -
  let ?st = "st\<lparr>pg_pmm := pm\<rparr>" and ?new = "a + g_hhdm_offset st"
  have z: "\<forall>i<512. \<not> bit (read_entry ?st ?new (of_nat i)) 0" using zero by (simp add: read_entry_def)
  have only: "p = [] \<and> t = ?new" if "valid_path p" "table_at ?st ?new p = Some t" for p t
    using empty_table(1) [OF z, of p] that by (cases "p = []") (auto simp: valid_path_def valid_page_path_def)
  have al: "aligned_table ?st ?new"
    using pmm_pages.managed_page [OF pm a(1)] by (simp add: aligned_table_def)
  show ?thesis
  proof (rule paging_invI)
    show "unat b < 2 ^ 40 \<and> b + g_hhdm_offset ?st \<noteq> 0" if "b \<in> usable_pages (pg_pmm ?st)" for b
      using small that by simp
    show "p = q" if "valid_path p" "valid_path q" "table_at ?st ?new p = Some t" "table_at ?st ?new q = Some t"
      for p q t
      using only that by blast
  qed (use pm a only al in \<open>force+\<close>)
qed

lemma clone_page_table_correct:
  assumes pm: "pmm_inv (pg_pmm st)"
    and small: "\<forall>a \<in> usable_pages (pg_pmm st). unat a < 2 ^ 40 \<and> a + g_hhdm_offset st \<noteq> 0"
    and foreign: "foreign st old" and room: "3 * card (dom (pages st old)) < card (free_pages (pg_pmm st))"
    and zero: "\<forall>a \<in> free_pages (pg_pmm st). \<forall>i<512. \<not> bit (read_entry st (a + g_hhdm_offset st) (of_nat i)) 0"
  obtains new st' where "paging_clone_page_table old 0 PML4 st = Some (PAGING_OK, new, st')"
    "paging_inv st' new" "new - g_hhdm_offset st \<in> usable_pages (pg_pmm st)"
    "\<And>q. pages st' new q = map_option (copied (length q - 1)) (pages st old q)" "untouched st st'"
    "card (free_pages (pg_pmm st)) \<le> Suc (card (free_pages (pg_pmm st')) + 3 * card (dom (pages st old)))"
    "compact_but st' new []"
proof -
  have "free_pages (pg_pmm st) \<noteq> {}" using room by auto
  then obtain a pm where a: "pmm_alloc (pg_pmm st) = Some (a, pm)" "pmm_inv pm"
      "usable_pages pm = usable_pages (pg_pmm st)" "a \<in> free_pages (pg_pmm st)"
      "free_pages pm = free_pages (pg_pmm st) - {a}"
    using pmm_pages.alloc_some [OF pm] by blast
  have au: "a \<in> usable_pages (pg_pmm st)" using a(4) pmm_pages.free_managed [OF pm] by blast
  let ?st1 = "st\<lparr>pg_pmm := pm\<rparr>" and ?new = "a + g_hhdm_offset st"
  have card: "card (free_pages (pg_pmm st)) = Suc (card (free_pages pm))"
    using a(4,5) finite_free_pages card_Suc_Diff1 by metis
  have u: "untouched st ?st1" by (rule untouched_pmm [OF a(3)])
  note old = untouched_pages [OF u foreign] untouched_foreign [OF u foreign]
  have z: "\<forall>i<512. \<not> bit (read_entry ?st1 ?new (of_nat i)) 0" using zero a(4) by (simp add: read_entry_def)
  have inv: "paging_inv ?st1 ?new"
    by (rule fresh_root [OF a(2)]) (use small a(3,4,5) au zero in auto)
  have all: "below [0..<512] [] q" if "pages st old q \<noteq> None" for q
    using below_all [OF that, of "[]"] that by (cases q) auto
  have none: "pages ?st1 ?new q = None" for q
    using empty_table(2) [OF z, of q] by (cases "q = []") (auto simp: pages_def)
  have same: "pages_below ?st1 old [0..<512] [] = dom (pages st old)"
    using all by (auto simp: pages_below_def old(1))
  have "table_at ?st1 ?new [i] = None \<and> page_at ?st1 ?new [i] = None" if "i < 512" for i
    using empty_table [OF z, of "[i]"] that by (simp add: valid_path_def del: table_at.simps page_at.simps)
  moreover have "set [0..<512] \<subseteq> {..<512 :: nat}" by auto
  ultimately have "clone_pre old ?new [] [0..<512] ?st1"
    using inv old(2) au a(3) room card by (simp add: clone_pre_def same valid_path_def del: upt_rec_numeral)
  from clone_entries_correct [OF this, of old] obtain st'
    where run: "clone_entries old ?new PML4 [0..<512] ?st1 = Some st'"
      and post: "clone_post old ?new [] [0..<512] ?st1 st'"
    by (auto simp: level_of_def simp del: upt_rec_numeral)
  have "table_at ?st1 ?new q = None" if "valid_path q" "q \<noteq> []" for q
    using empty_table(1) [OF z, of q] that by (simp add: valid_path_def valid_page_path_def del: table_at.simps)
  then have compact: "compact_but ?st1 ?new []" by (auto simp: compact_but_def simp del: table_at.simps)
  have nz: "?new \<noteq> 0" using small au by blast
  show ?thesis
  proof (rule that [of ?new st'])
    show "paging_clone_page_table old 0 PML4 st = Some (PAGING_OK, ?new, st')"
      using nz run by (simp add: paging_clone_page_table_def a(1) Let_def del: upt_rec_numeral)
    show "paging_inv st' ?new" using post by (simp add: clone_post_def)
    show "?new - g_hhdm_offset st \<in> usable_pages (pg_pmm st)" using au by simp
    show "pages st' ?new q = map_option (copied (length q - 1)) (pages st old q)" for q
    proof (cases "pages st old q = None")
      case True
      then show ?thesis using post none by (simp add: clone_post_def old(1) del: upt_rec_numeral)
    next
      case False
      then show ?thesis using post all [of q] by (simp add: clone_post_def old(1) del: upt_rec_numeral)
    qed
    show "untouched st st'" using u post unfolding clone_post_def by (blast intro: untouched_trans)
    show "card (free_pages (pg_pmm st)) \<le> Suc (card (free_pages (pg_pmm st')) + 3 * card (dom (pages st old)))"
      using post card by (simp add: clone_post_def same del: upt_rec_numeral)
    show "compact_but st' ?new []" using post compact by (simp add: clone_post_def del: upt_rec_numeral)
  qed
qed

lemma resolve_copied:
  assumes "\<And>q. m' q = map_option (copied (length q - 1)) (m q)"
  shows "resolve_pages m' virt = resolve_pages m virt"
proof -
  have "entry_base 30 10 (copied 1 e) = entry_base 30 10 e" "entry_base 21 19 (copied 2 e) = entry_base 21 19 e"
    "entry_base 12 28 (copied 3 e) = entry_base 12 28 e" for e
    using copied_same(1) [of 1 e] copied_same(1) [of 2 e] copied_same(1) [of 3 e]
    by (simp_all add: entry_base_address_def level_of_def base_field)
  then show ?thesis
    unfolding resolve_pages_def assms by (auto simp: virt_path_def Let_def numeral_eq_Suc split: option.splits)
qed

section \<open>Properties\<close>


text \<open>A page table with one page of 1 GB, next to the memory of the manager.\<close>

definition demo_cloning :: paging_state where
  "demo_cloning = demo_paging\<lparr>pg_mem :=
     (\<lambda>_. 0)(0xffff800000009000 := 0xa003, 0xffff80000000a028 := 0x40000083)\<rparr>"

abbreviation (input) demo_pdpr :: u64 where "demo_pdpr \<equiv> 0xffff80000000a000"

lemma demo_cloning_fields:
  "pg_pmm demo_cloning = pg_pmm demo_paging" "g_hhdm_offset demo_cloning = 0xffff800000000000"
  by (simp_all add: demo_cloning_def demo_paging_def)

lemma demo_cloning_entry:
  assumes "aligned_table demo_cloning t" "i < 512"
  shows "read_entry demo_cloning t (of_nat i) =
    (if t = demo_root \<and> i = 0 then 0xa003 else if t = demo_pdpr \<and> i = 5 then 0x40000083 else 0)"
proof -
  have al: "aligned_table demo_cloning demo_root" "aligned_table demo_cloning demo_pdpr"
    by (simp_all add: aligned_table_def demo_cloning_fields)
  have "cell demo_root (of_nat 0) = 0xffff800000009000" "cell demo_pdpr (of_nat 5) = 0xffff80000000a028"
    by (simp_all add: cell_def)
  moreover have "cell t (of_nat i) = cell demo_root (of_nat 0) \<longleftrightarrow> t = demo_root \<and> i = 0"
    using cell_inj [OF assms(1) al(1) assms(2), of 0] by auto
  moreover have "cell t (of_nat i) = cell demo_pdpr (of_nat 5) \<longleftrightarrow> t = demo_pdpr \<and> i = 5"
    using cell_inj [OF assms(1) al(2) assms(2), of 5] by auto
  ultimately show ?thesis by (auto simp: read_entry_def demo_cloning_def)
qed

lemma demo_cloning_tables:
  assumes "valid_path p" "table_at demo_cloning demo_root p = Some t"
  shows "p = [] \<and> t = demo_root \<or> p = [0] \<and> t = demo_pdpr"
  using assms
proof (induction p arbitrary: t)
  case (Cons i p)
  have v: "valid_path p" "i < 512" using valid_path_Cons [OF Cons.prems(1)] by blast+
  obtain u where u: "table_at demo_cloning demo_root p = Some u"
      and i: "is_pointer (length p) (read_entry demo_cloning u (of_nat i))"
        "t = child_table demo_cloning (read_entry demo_cloning u (of_nat i))"
    using Cons.prems(2) by (auto simp: Let_def split: option.splits if_splits)
  have al: "aligned_table demo_cloning u"
    using Cons.IH [OF v(1) u] by (auto simp: aligned_table_def demo_cloning_fields)
  have ne: "demo_root \<noteq> demo_pdpr" by simp
  have "entry_base 12 28 0xa003 = 0xa000" by (simp add: entry_base_def mask_eq_exp_minus_1)
  then show ?case
    using Cons.IH [OF v(1) u] i ne unfolding demo_cloning_entry [OF al v(2)]
    by (auto simp: is_pointer_def child_table_def demo_cloning_fields split: if_splits)
qed simp

lemma demo_cloning_pages: "dom (pages demo_cloning demo_root) \<subseteq> {[5, 0]}"
proof
  fix q assume "q \<in> dom (pages demo_cloning demo_root)"
  then obtain e where e: "pages demo_cloning demo_root q = Some e" by blast
  then obtain i p where q: "q = i # p" by (cases q) auto
  have v: "valid_path p" "i < 512" and "page_at demo_cloning demo_root (i # p) = Some e"
    using e by (auto simp: q pages_Cons split: if_splits)
  then obtain t where t: "table_at demo_cloning demo_root p = Some t" "e = read_entry demo_cloning t (of_nat i)"
      "is_page (length p) e"
    by (elim page_at_table) blast
  note k = demo_cloning_tables [OF v(1) t(1)]
  then have al: "aligned_table demo_cloning t" by (auto simp: aligned_table_def demo_cloning_fields)
  have ne: "demo_root \<noteq> demo_pdpr" by simp
  show "q \<in> {[5, 0]}"
    using k t(2,3) ne unfolding demo_cloning_entry [OF al v(2)] by (auto simp: q is_page_def split: if_splits)
qed

lemma demo_page_outside:
  assumes "a \<in> memmap_pages demo_memmap"
  shows "a \<noteq> 0xa000"
proof -
  consider p where "p < 8" "a = 0x1000 + of_nat p * 4096" | p where "p < 16" "a = 0x100000 + of_nat p * 4096"
    using assms unfolding demo_memmap_pages by (auto simp del: of_nat_mult)
  then have "unat a < 0xa000 \<or> 0x100000 \<le> unat a"
    by cases (simp_all add: unat_add_u64 unat_mult_u64 unat_of_nat_u64)
  then show ?thesis by auto
qed

lemma demo_page_clear:
  assumes m: "a \<in> memmap_pages demo_memmap" and i: "i < 512"
  shows "\<not> bit (read_entry demo_cloning (a + 0xffff800000000000) (of_nat i)) 0"
proof -
  have u: "a \<in> usable_pages (pg_pmm demo_paging)"
    unfolding demo_paging_def paging_state.simps regions_state_pages [OF demo_memmap_ok] by (rule m)
  then have "4096 dvd unat a" by (rule usable_page_fits(1) [OF demo_paging_inv])
  then have al: "aligned_table demo_cloning (a + 0xffff800000000000)"
    by (simp add: aligned_table_def demo_cloning_fields)
  have "a + 0xffff800000000000 \<noteq> demo_root" "a + 0xffff800000000000 \<noteq> demo_pdpr"
    using demo_page_bounds(2) [OF m] demo_page_outside [OF m]
    by (auto simp: eq_diff_eq [symmetric])
  then show ?thesis unfolding demo_cloning_entry [OF al i] by simp
qed


end
