(* ===== verification/PagingSession.thy ===== *)
theory PagingSession
  imports PagingClone
begin

text \<open>
  Sequences of operations on a page table (kernel/src/memory/paging.c) refine sequences of operations on
  an address space, a map from paths to pages, in which no table occurs: an operation gives the result the
  abstract one gives, and the states stay related.
\<close>

section \<open>The abstract address space\<close>

type_synonym address_space = "nat list \<Rightarrow> page_table_entry_t option"

text \<open>\<open>Map_page phys virt size flags\<close> and \<open>Unmap_page virt size\<close>.\<close>

datatype paging_op = Map_page u64 u64 page_size_t u64 | Unmap_page u64 page_size_t

definition in_use :: "address_space \<Rightarrow> nat list \<Rightarrow> bool" where
  "in_use m path \<longleftrightarrow> (\<exists>y. suffix path y \<and> m y \<noteq> None)"

fun spec_op :: "paging_op \<Rightarrow> address_space \<Rightarrow> paging_error_codes_t \<times> address_space" where
  "spec_op (Map_page phys virt s flags) m =
     (if in_use m (virt_path virt s) then (PAGING_ERROR, m)
      else (PAGING_OK, m(virt_path virt s \<mapsto> paging_create_entry phys flags (leaf_level s) PAGING_ENTRY_PAGE)))"
| "spec_op (Unmap_page virt s) m = (PAGING_OK, m(virt_path virt s := None))"

text \<open>What a caller has to respect: no mapping under a larger page, and only what is mapped is unmapped.\<close>

fun allowed :: "address_space \<Rightarrow> paging_op \<Rightarrow> bool" where
  "allowed m (Map_page phys virt s flags) \<longleftrightarrow> page_flags_ok s flags \<and>
     (s \<noteq> PAGE_SIZE_1GB \<longrightarrow> m (virt_path virt PAGE_SIZE_1GB) = None) \<and>
     (s = PAGE_SIZE_4KB \<longrightarrow> m (virt_path virt PAGE_SIZE_2MB) = None)"
| "allowed m (Unmap_page virt s) \<longleftrightarrow> m (virt_path virt s) \<noteq> None"

fun pages_needed :: "paging_op \<Rightarrow> nat" where
  "pages_needed (Map_page phys virt s flags) = 3"
| "pages_needed (Unmap_page virt s) = 0"

fun spec_ops :: "paging_op list \<Rightarrow> address_space \<Rightarrow> paging_error_codes_t list \<times> address_space" where
  "spec_ops [] m = ([], m)"
| "spec_ops (op # ops) m = (let (c, m) = spec_op op m; (cs, m) = spec_ops ops m in (c # cs, m))"

fun allowed_ops :: "address_space \<Rightarrow> paging_op list \<Rightarrow> bool" where
  "allowed_ops m [] \<longleftrightarrow> True"
| "allowed_ops m (op # ops) \<longleftrightarrow> allowed m op \<and> allowed_ops (snd (spec_op op m)) ops"

section \<open>The operations of the code\<close>

fun run_op :: "u64 \<Rightarrow> paging_op \<Rightarrow> paging_state \<Rightarrow> (paging_error_codes_t \<times> paging_state) option" where
  "run_op root (Map_page phys virt s flags) st = paging_map_page root phys virt s flags st"
| "run_op root (Unmap_page virt s) st = paging_unmap_page root virt s st"

fun run_ops :: "u64 \<Rightarrow> paging_op list \<Rightarrow> paging_state \<Rightarrow> (paging_error_codes_t list \<times> paging_state) option" where
  "run_ops root [] st = Some ([], st)"
| "run_ops root (op # ops) st =
     do {
       (c, st) \<leftarrow> run_op root op st;
       (cs, st) \<leftarrow> run_ops root ops st;
       Some (c # cs, st)
     }"

section \<open>Simulation\<close>

text \<open>The relation: a well-formed page table without empty tables that has the pages of the address space.\<close>

definition represents :: "paging_state \<Rightarrow> u64 \<Rightarrow> address_space \<Rightarrow> bool" where
  "represents st root m \<longleftrightarrow> paging_inv st root \<and> compact_but st root [] \<and> pages st root = m"

lemma compact_inhabited:
  assumes "compact_but st root []" "valid_path q" "q \<noteq> []" "table_at st root q \<noteq> None"
  obtains y where "suffix q y" "pages st root y \<noteq> None"
  using assms unfolding compact_but_def by auto

lemma table_at_valid: "table_at st root (virt_path virt s) \<noteq> None \<Longrightarrow> valid_path (virt_path virt s)"
  by (cases s) (auto simp: virt_path_def Let_def is_pointer_def valid_path_def index_bound split: option.splits)

lemma page_unused_iff:
  assumes "compact_but st root []"
  shows "page_unused st root virt s \<longleftrightarrow> \<not> in_use (pages st root) (virt_path virt s)"
proof
  assume u: "page_unused st root virt s"
  have "pages st root y = None" if "suffix (virt_path virt s) y" for y
  proof (cases "y = virt_path virt s")
    case False
    with page_at_below [OF _ that] u show ?thesis by (simp add: page_unused_def pages_def)
  qed (use u in \<open>simp add: page_unused_def\<close>)
  then show "\<not> in_use (pages st root) (virt_path virt s)" by (auto simp: in_use_def)
next
  assume n: "\<not> in_use (pages st root) (virt_path virt s)"
  have "virt_path virt s \<noteq> []" by (cases s) (simp_all add: virt_path_def Let_def)
  then have "table_at st root (virt_path virt s) = None"
    using n compact_inhabited [OF assms table_at_valid] unfolding in_use_def by blast
  moreover have "pages st root (virt_path virt s) = None" using n unfolding in_use_def by blast
  ultimately show "page_unused st root virt s" by (simp add: page_unused_def)
qed

lemma in_use_leaf:
  assumes "represents st root m" "length x = 4"
  shows "in_use m x \<longleftrightarrow> m x \<noteq> None"
proof -
  have m: "m = pages st root" using assms(1) by (simp add: represents_def)
  have "y = x" if "suffix x y" "m y \<noteq> None" for y
  proof -
    have "length y \<le> 4" using that(2) by (auto simp: m pages_def valid_page_path_def split: if_splits)
    with that(1) assms(2) show ?thesis by (auto simp: suffix_def)
  qed
  then show ?thesis unfolding in_use_def by blast
qed

lemma map_used_compact:
  assumes inv: "paging_inv st root" and free: "3 \<le> card (free_pages (pg_pmm st))"
    and cov: "not_covered st root virt s" and compact: "compact_but st root []" and used: "\<not> page_unused st root virt s"
    and run: "paging_map_page root phys virt s flags st = Some (PAGING_ERROR, st')"
  shows "compact_but st' root []" "card (free_pages (pg_pmm st)) \<le> card (free_pages (pg_pmm st')) + 3"
proof -
  obtain fs t idx p w where w:
    "paging_map_page_without_tlb_invalidation root phys virt s flags st = enter_page fs (leaf_level s) t idx phys flags w"
    "virt_path virt s = unat idx # p" "pages w root = pages st root"
    "\<And>q. valid_path q \<Longrightarrow> \<not> suffix q p \<Longrightarrow> table_at w root q = table_at st root q"
    "card (free_pages (pg_pmm st)) \<le> card (free_pages (pg_pmm w)) + 3"
    by (rule map_walk [OF inv free cov]) blast
  have st': "st' = w" using run unfolding paging_map_page_def w(1) enter_page_def by (auto split: if_splits)
  show "card (free_pages (pg_pmm st)) \<le> card (free_pages (pg_pmm st')) + 3" using w(5) st' by simp
  have "in_use (pages st root) (virt_path virt s)" using used page_unused_iff [OF compact] by blast
  then obtain y where y: "suffix (virt_path virt s) y" "pages st root y \<noteq> None" by (auto simp: in_use_def)
  show "compact_but st' root []"
    unfolding compact_but_def st' w(3)
  proof (intro allI impI, elim conjE)
    fix q assume q: "valid_path q" "\<not> suffix q []" "table_at w root q \<noteq> None"
    show "\<exists>y. suffix q y \<and> pages st root y \<noteq> None"
    proof (cases "suffix q p")
      case True
      then have "suffix q (virt_path virt s)" unfolding w(2) by (rule suffix_tail)
      then show ?thesis using y by (auto dest: suffix_order.trans)
    next
      case False
      then show ?thesis using compact q w(4) [OF q(1) False] unfolding compact_but_def by simp
    qed
  qed
qed

lemma map_unused_compact:
  assumes inv: "paging_inv st root" and free: "3 \<le> card (free_pages (pg_pmm st))"
    and flags: "page_flags_ok s flags" and cov: "not_covered st root virt s" and compact: "compact_but st root []"
    and unused: "page_unused st root virt s" and run: "paging_map_page root phys virt s flags st = Some (PAGING_OK, st')"
  shows "compact_but st' root []" "card (free_pages (pg_pmm st)) \<le> card (free_pages (pg_pmm st')) + 3"
proof -
  obtain w where w: "paging_map_page_without_tlb_invalidation root phys virt s flags st = Some (PAGING_OK, w)"
    "pages w root = (pages st root)(virt_path virt s \<mapsto> paging_create_entry phys flags (leaf_level s) PAGING_ENTRY_PAGE)"
    "\<And>q. valid_path q \<Longrightarrow> \<not> strict_suffix q (virt_path virt s) \<Longrightarrow> table_at w root q = table_at st root q"
    "card (free_pages (pg_pmm st)) \<le> card (free_pages (pg_pmm w)) + 3"
    by (rule map_unused_tables [OF inv free flags cov unused]) blast
  have st': "st' = invalidate_tlb virt w" using run by (simp add: paging_map_page_def w(1))
  show "card (free_pages (pg_pmm st)) \<le> card (free_pages (pg_pmm st')) + 3" using w(4) by (simp add: st' paging_inv_tlb)
  show "compact_but st' root []"
    unfolding st' paging_inv_tlb(3) by (rule compact_mapped [OF compact w(2,3)])
qed

text \<open>One operation.\<close>

lemma op_simulation:
  assumes rel: "represents st root m" and ok: "allowed m op" and free: "pages_needed op \<le> card (free_pages (pg_pmm st))"
  obtains st' where "run_op root op st = Some (fst (spec_op op m), st')" "represents st' root (snd (spec_op op m))"
    "card (free_pages (pg_pmm st)) \<le> card (free_pages (pg_pmm st')) + pages_needed op"
proof -
  have inv: "paging_inv st root" and compact: "compact_but st root []" and m: "pages st root = m"
    using rel by (simp_all add: represents_def)
  show thesis
  proof (cases op)
    case (Map_page phys virt s flags)
    have flags: "page_flags_ok s flags" and cov: "not_covered st root virt s" and three: "3 \<le> card (free_pages (pg_pmm st))"
      using ok free by (simp_all add: Map_page not_covered_def m)
    obtain c st' where run: "paging_map_page root phys virt s flags st = Some (c, st')" "paging_inv st' root"
      "if page_unused st root virt s
       then c = PAGING_OK \<and> pg_tlb st' = virt # pg_tlb st \<and> pages st' root =
         (pages st root)(virt_path virt s \<mapsto> paging_create_entry phys flags (leaf_level s) PAGING_ENTRY_PAGE)
       else c = PAGING_ERROR \<and> pg_tlb st' = pg_tlb st \<and> pages st' root = pages st root"
      using map_page_step [OF inv three flags cov, of phys] by blast
    show thesis
    proof (cases "page_unused st root virt s")
      case True
      then have "paging_map_page root phys virt s flags st = Some (PAGING_OK, st')" using run by simp
      note k = map_unused_compact [OF inv three flags cov compact True this]
      show thesis by (rule that [of st'])
        (use run True k page_unused_iff [OF compact] in \<open>simp_all add: Map_page represents_def m\<close>)
    next
      case False
      then have "paging_map_page root phys virt s flags st = Some (PAGING_ERROR, st')" using run by simp
      note k = map_used_compact [OF inv three cov compact False this]
      show thesis by (rule that [of st'])
        (use run False k page_unused_iff [OF compact] in \<open>simp_all add: Map_page represents_def m\<close>)
    qed
  next
    case (Unmap_page virt s)
    then obtain e where "pages st root (virt_path virt s) = Some e" using ok m by auto
    from unmap_page_step [OF inv this] obtain st' where st': "paging_unmap_page root virt s st = Some (PAGING_OK, st')"
      "paging_inv st' root" "pages st' root = (pages st root)(virt_path virt s := None)"
      "free_pages (pg_pmm st) \<subseteq> free_pages (pg_pmm st')" "compact_but st' root []"
      using compact by blast
    show thesis by (rule that [of st'])
      (use st' card_mono [OF finite_free_pages st'(4)] in \<open>simp_all add: Unmap_page represents_def m\<close>)
  qed
qed

lemma ops_simulation:
  assumes "represents st root m" "allowed_ops m ops" "sum_list (map pages_needed ops) \<le> card (free_pages (pg_pmm st))"
  shows "\<exists>st'. run_ops root ops st = Some (fst (spec_ops ops m), st') \<and> represents st' root (snd (spec_ops ops m))"
  using assms
proof (induction ops arbitrary: st m)
  case (Cons op ops)
  obtain c m1 where one: "spec_op op m = (c, m1)" by (rule prod.exhaust)
  obtain cs m2 where more: "spec_ops ops m1 = (cs, m2)" by (rule prod.exhaust)
  have ok: "allowed m op" "allowed_ops m1 ops" using Cons.prems(2) one by simp_all
  have need: "pages_needed op \<le> card (free_pages (pg_pmm st))" using Cons.prems(3) by simp
  obtain st1 where st1: "run_op root op st = Some (c, st1)" "represents st1 root m1"
    "card (free_pages (pg_pmm st)) \<le> card (free_pages (pg_pmm st1)) + pages_needed op"
    by (rule op_simulation [OF Cons.prems(1) ok(1) need]) (use one in simp)
  have "sum_list (map pages_needed ops) \<le> card (free_pages (pg_pmm st1))" using Cons.prems(3) st1(3) by simp
  from Cons.IH [OF st1(2) ok(2) this] more obtain st2 where
    "run_ops root ops st1 = Some (cs, st2)" "represents st2 root m2" by auto
  then show ?case using st1(1) one more by simp
qed simp

section \<open>Properties\<close>

text \<open>
  C5: page tables refine address spaces. On a well-formed page table without empty tables, any sequence
  of mappings and unmappings that the caller may ask for, with three free pages for each mapping, returns
  exactly what the operations on the address space return: a mapping is refused if and only if a page lies
  at or below its place. The page table stays well-formed and without empty tables, its pages are those of the
  address space, and every address resolves in it.
\<close>

theorem paging_session_refines:
  assumes "paging_inv st root" "compact_but st root []"
    and "allowed_ops (pages st root) ops" "sum_list (map pages_needed ops) \<le> card (free_pages (pg_pmm st))"
  shows "\<exists>st'. run_ops root ops st = Some (fst (spec_ops ops (pages st root)), st') \<and>
    paging_inv st' root \<and> compact_but st' root [] \<and> pages st' root = snd (spec_ops ops (pages st root)) \<and>
    (\<forall>virt. paging_resolve_virtual_address root virt st' = resolve_pages (snd (spec_ops ops (pages st root))) virt)"
proof -
  have "represents st root (pages st root)" using assms(1,2) by (simp add: represents_def)
  from ops_simulation [OF this assms(3,4)] show ?thesis
    by (auto simp: represents_def resolve_refines_lookup)
qed

text \<open>A large page is mapped twice, the second time in vain, and unmapped.\<close>

lemma paging_session_refines_witness:
  "\<exists>st'. run_ops demo_root [Map_page 0x40000000 0x80000000 PAGE_SIZE_1GB 0x83,
       Map_page 0x80000000 0x80000000 PAGE_SIZE_1GB 0x83, Unmap_page 0x80000000 PAGE_SIZE_1GB] demo_paging =
       Some ([PAGING_OK, PAGING_ERROR, PAGING_OK], st') \<and> paging_inv st' demo_root \<and> pages st' demo_root = pages demo_paging demo_root"
proof -
  let ?ops = "[Map_page 0x40000000 0x80000000 PAGE_SIZE_1GB 0x83,
       Map_page 0x80000000 0x80000000 PAGE_SIZE_1GB 0x83, Unmap_page 0x80000000 PAGE_SIZE_1GB]"
  have none: "pages demo_paging demo_root = (\<lambda>_. None)" by (simp add: demo_pages fun_eq_iff)
  have compact: "compact_but demo_paging demo_root []"
  proof -
    have "table_at demo_paging demo_root q = None" if "q \<noteq> []" for q
      using that demo_table_at by (cases q) (simp_all del: table_at.simps)
    then show ?thesis unfolding compact_but_def by auto
  qed
  have flags: "page_flags_ok PAGE_SIZE_1GB 0x83" by (simp add: page_flags_ok_def)
  have used: "\<not> in_use (\<lambda>_. None) x" "in_use (m(x \<mapsto> e)) x" for m x e by (auto simp: in_use_def)
  have spec: "spec_ops ?ops (pages demo_paging demo_root) = ([PAGING_OK, PAGING_ERROR, PAGING_OK], pages demo_paging demo_root)"
    unfolding none by (simp add: used)
  have ok: "allowed_ops (pages demo_paging demo_root) ?ops" unfolding none by (simp add: used flags)
  have "sum_list (map pages_needed ?ops) \<le> card (free_pages (pg_pmm demo_paging))" using demo_free_more by simp
  from paging_session_refines [OF demo_paging_inv compact ok this] show ?thesis unfolding spec by auto
qed

end
