(* ===== verification/KeyboardStart.thy ===== *)
theory KeyboardStart
  imports Ps2Init
begin

text \<open>
  The initialization of the controller (theory Ps2Init) on a machine with one keyboard: a controller that
  passes its tests and a keyboard that acknowledges what it is sent. What each step does with the bytes the
  device has left is a rule of its own, so that the whole run is put together from them.
\<close>

section \<open>Runs that deliver given bytes\<close>

text \<open>\<open>leads m Q\<close>: the operation returns, with a result that has the property.\<close>

definition leads :: "'a option \<Rightarrow> ('a \<Rightarrow> bool) \<Rightarrow> bool" where
  "leads m Q \<longleftrightarrow> (\<exists>x. m = Some x \<and> Q x)"

lemma leads_bind: "leads m (\<lambda>x. leads (f x) Q) \<Longrightarrow> leads (Option.bind m f) Q"
  by (auto simp: leads_def)

lemma leads_Some: "Q x \<Longrightarrow> leads (Some x) Q"
  by (simp add: leads_def)

lemma leads_mono: "leads m P \<Longrightarrow> (\<And>x. P x \<Longrightarrow> Q x) \<Longrightarrow> leads m Q"
  by (auto simp: leads_def)

text \<open>
  \<open>feeds dev bs idle tr\<close>: the device has the bytes \<open>bs\<close> left to deliver; with \<open>idle\<close> the status port
  was not polled just before, so that the next poll finds no byte.
\<close>

definition feeds :: "device \<Rightarrow> u8 list \<Rightarrow> bool \<Rightarrow> io_trace \<Rightarrow> bool" where
  "feeds dev bs idle tr \<longleftrightarrow>
     (\<exists>bytes. plays dev bytes \<and> drop (data_reads tr) bytes = bs) \<and> (if idle then \<not> polled tr else True)"

lemma drop_eq_Cons: "drop n xs = y # ys \<Longrightarrow> n < length xs \<and> xs ! n = y \<and> drop (Suc n) xs = ys"
  by (metis drop_Suc drop_eq_Nil2 hd_drop_conv_nth linorder_not_le list.distinct(1) list.sel(1,3) tl_drop)

lemma feeds_receive:
  assumes "feeds dev (b # bs) True tr" "\<And>tr'. feeds dev bs True tr' \<Longrightarrow> Q ((PS2_OK, b), tr')"
  shows "leads (ps2_receive_byte dev tr) Q"
proof -
  obtain bytes where b: "plays dev bytes" "drop (data_reads tr) bytes = b # bs" and idle: "\<not> polled tr"
    using assms(1) by (auto simp: feeds_def)
  let ?tr = "In PS2_DATA b # In PS2_STATUS 1 # In PS2_STATUS 0 # tr"
  have "feeds dev bs True ?tr"
    unfolding feeds_def using b(1) drop_eq_Cons [OF b(2)] by auto
  moreover have "ps2_receive_byte dev tr = Some ((PS2_OK, b), ?tr)"
    using plays_receive [OF b(1) idle] drop_eq_Cons [OF b(2)] by (simp add: Let_def)
  ultimately show ?thesis using assms(2) by (simp add: leads_def)
qed

lemma feeds_receive_end:
  assumes "feeds dev [] True tr" "\<And>tr'. feeds dev [] True tr' \<Longrightarrow> Q ((PS2_OK, 0), tr')"
  shows "leads (ps2_receive_byte dev tr) Q"
proof -
  obtain bytes where b: "plays dev bytes" "length bytes \<le> data_reads tr" and idle: "\<not> polled tr"
    using assms(1) by (auto simp: feeds_def)
  let ?tr = "In PS2_DATA 0 # In PS2_STATUS 1 # In PS2_STATUS 0 # tr"
  have "feeds dev [] True ?tr" unfolding feeds_def using b by auto
  moreover have "ps2_receive_byte dev tr = Some ((PS2_OK, 0), ?tr)"
    using plays_receive [OF b(1) idle] b(2) by (simp add: Let_def)
  ultimately show ?thesis using assms(2) by (simp add: leads_def)
qed

lemma feeds_command:
  assumes "feeds dev bs idle tr" "c \<noteq> PS2_CMD_DISABLE_PORT_1" "\<And>tr'. feeds dev bs True tr' \<Longrightarrow> Q tr'"
  shows "leads (ps2_send_command dev c tr) Q"
proof -
  obtain bytes where b: "plays dev bytes" "drop (data_reads tr) bytes = bs"
    using assms(1) by (auto simp: feeds_def)
  then have "feeds dev bs True (Out PS2_COMMAND c # In PS2_STATUS s # tr)" for s
    unfolding feeds_def using assms(2) by auto
  then show ?thesis using plays_send [OF b(1), of c tr] assms(3) by (simp add: leads_def)
qed

lemma feeds_flush:
  assumes "feeds dev bs True tr" "\<And>tr'. feeds dev bs False tr' \<Longrightarrow> Q tr'"
  shows "leads (ps2_flush_output_buffer dev tr) Q"
proof -
  obtain bytes where b: "plays dev bytes" "drop (data_reads tr) bytes = bs" and idle: "\<not> polled tr"
    using assms(1) by (auto simp: feeds_def)
  then have "feeds dev bs False (In PS2_STATUS 0 # tr)" by (auto simp: feeds_def)
  then show ?thesis using plays_flush [OF b(1) idle] assms(2) by (simp add: leads_def)
qed

lemma feeds_raw_send:
  assumes "feeds dev bs idle tr" "\<And>tr'. feeds dev bs True tr' \<Longrightarrow> Q (PS2_OK, tr')"
  shows "leads (ps2_raw_send_byte dev port data tr) Q"
proof -
  have send: "leads (poll_limited dev PS2_STATUS (\<lambda>b. \<not> ps2_input_buffer_full b) PS2_TIMEOUT tr1)
      (\<lambda>(ready, tr2). ready \<and> feeds dev bs True (port_write_byte PS2_DATA data tr2))" if tr1: "feeds dev bs i tr1" for i tr1
  proof -
    obtain bytes where b: "plays dev bytes" "drop (data_reads tr1) bytes = bs"
      using tr1 by (auto simp: feeds_def)
    then show ?thesis by (auto simp: leads_def plays_poll [OF b(1)] feeds_def port_write_byte_def)
  qed
  have step: "leads (Option.bind (poll_limited dev PS2_STATUS (\<lambda>b. \<not> ps2_input_buffer_full b) PS2_TIMEOUT tr1)
      (\<lambda>(ready, tr). Some (if ready then (PS2_OK, port_write_byte PS2_DATA data tr) else (PS2_ERROR_TIMEOUT, tr)))) Q"
    if "feeds dev bs i tr1" for i tr1
    by (intro leads_bind leads_mono [OF send [OF that]]) (auto intro!: leads_Some assms(2))
  show ?thesis
  proof (cases "port = PS2_PORT_2")
    case True
    show ?thesis unfolding ps2_raw_send_byte_def if_P [OF True]
      by (intro leads_bind [OF feeds_command [OF assms(1)]] step) simp_all
  next
    case False
    show ?thesis unfolding ps2_raw_send_byte_def if_not_P [OF False]
      by (intro leads_bind [OF leads_Some] step [OF assms(1)])
  qed
qed

lemma feeds_ack:
  assumes "feeds dev (PS2_DEV_ACK # bs) idle tr" "\<And>tr'. feeds dev bs True tr' \<Longrightarrow> Q (PS2_OK, tr')"
  shows "leads (ps2_send_byte dev port data tr) Q"
  unfolding five_attempts ps2_send_attempts.simps(2)
  by (intro leads_bind feeds_raw_send [OF assms(1)])
    (auto intro!: leads_bind leads_Some assms(2) elim!: feeds_receive)

lemma feeds_no_ack:
  assumes "feeds dev [] idle tr" "\<And>tr'. feeds dev [] True tr' \<Longrightarrow> Q (PS2_ERROR_NO_ACK, tr')"
  shows "leads (ps2_send_byte dev port data tr) Q"
proof -
  have "leads (ps2_send_attempts dev port data (Suc n) tr) Q" if "feeds dev [] i tr" for n i tr
    using that
  proof (induction n arbitrary: i tr)
    case 0
    show ?case unfolding ps2_send_attempts.simps
      by (intro leads_bind feeds_raw_send [OF 0]) (auto intro!: leads_bind leads_Some assms(2) elim!: feeds_receive_end)
  next
    case (Suc n)
    show ?case unfolding ps2_send_attempts.simps(2) [of dev port data "Suc n"]
      by (intro leads_bind feeds_raw_send [OF Suc.prems])
        (auto intro!: leads_bind Suc.IH elim!: feeds_receive_end simp del: ps2_send_attempts.simps)
  qed
  from this [OF assms(1)] show ?thesis unfolding five_attempts .
qed

section \<open>The steps of the initialization\<close>

lemma write_config_feeds:
  assumes "feeds dev bs idle tr" "\<And>tr'. feeds dev bs True tr' \<Longrightarrow> Q tr'"
  shows "leads (ps2_write_config dev config tr) Q"
  unfolding ps2_write_config_def
  by (intro leads_bind feeds_command [OF assms(1)]) (auto intro!: leads_bind leads_Some assms(2) elim!: feeds_raw_send)

lemma feeds_start:
  assumes "plays dev bytes" "\<And>tr'. feeds dev bytes True tr' \<Longrightarrow> Q tr'"
  shows "leads (ps2_send_command dev PS2_CMD_DISABLE_PORT_1 tr) Q"
proof -
  have "feeds dev bytes True (Out PS2_COMMAND PS2_CMD_DISABLE_PORT_1 # tr')" for tr'
    using assms(1) by (auto simp: feeds_def)
  then show ?thesis using plays_send [OF assms(1)] assms(2) by (simp add: leads_def)
qed

lemma test_controller_feeds:
  assumes "plays dev (config # 0x55 # bs)" "\<not> polled tr"
    and "\<And>config' tr'. feeds dev bs True tr' \<Longrightarrow> Q ((PS2_OK, config'), tr')"
  shows "leads (ps2_test_controller dev tr) Q"
  unfolding ps2_test_controller_def plays_flush [OF assms(1,2)] bind.bind_lunit Let_def
  by (intro leads_bind feeds_start [OF assms(1)])
    (auto intro!: leads_bind leads_Some assms(3) elim!: feeds_flush feeds_command feeds_receive write_config_feeds)

lemma probe_port_2_feeds:
  assumes "feeds dev (config # bs) True tr" "bit config 1"
    and "\<And>tr'. feeds dev bs True tr' \<Longrightarrow> Q ((PS2_OK, st\<lparr>ps2_port_2_supported := False\<rparr>), tr')"
  shows "leads (ps2_probe_port_2 dev cb st tr) Q"
proof -
  have "bit (config AND push_bit 1 1) 1" using assms(2) by (simp add: bit_simps)
  then have "config AND push_bit 1 1 \<noteq> 0" by (intro notI) (simp only: bit_0_eq bot_apply bot_bool_def)
  then show ?thesis unfolding ps2_probe_port_2_def
    by (intro leads_bind feeds_command [OF assms(1)]) (auto intro!: leads_bind leads_Some assms(3) elim!: feeds_command feeds_receive)
qed

lemma test_port_1_feeds:
  assumes "feeds dev (0 # bs) True tr" 
    and "\<And>tr'. feeds dev bs True tr' \<Longrightarrow> Q ((PS2_OK, st\<lparr>ps2_port_1_works := True\<rparr>), tr')"
  shows "leads (ps2_test_port_1 dev st tr) Q"
  unfolding ps2_test_port_1_def
    by (intro leads_bind feeds_command [OF assms(1)]) (auto intro!: leads_bind leads_Some assms(2) elim!: feeds_command feeds_receive)

lemma enable_ports_feeds:
  assumes "feeds dev bs True tr" "ps2_port_1_works st" "\<not> ps2_port_2_works st"
    and "\<And>tr'. feeds dev bs True tr' \<Longrightarrow> Q tr'"
  shows "leads (ps2_enable_ports dev cb st tr) Q"
  using assms(1-3) unfolding ps2_enable_ports_def
  by (auto intro!: leads_bind leads_Some elim!: feeds_command write_config_feeds assms(4) simp: Let_def)

lemma reset_ports_feeds:
  assumes "feeds dev (PS2_DEV_ACK # r # bs) True tr" "ps2_port_1_works st" "\<not> ps2_port_2_works st"
    and "\<And>tr'. feeds dev bs True tr' \<Longrightarrow> Q (st\<lparr>ps2_ports := (ps2_ports st)\<lparr>port_1_populated := True\<rparr>\<rparr>, tr')"
  shows "leads (ps2_reset_ports dev st tr) Q"
  using assms(1-3) unfolding ps2_reset_ports_def ps2_reset_device_def
  by (auto intro!: leads_bind leads_Some feeds_ack [OF assms(1)] elim!: feeds_receive assms(4))

lemma identify_feeds:
  assumes "feeds dev (PS2_DEV_ACK # config # PS2_DEV_ACK # hi # lo # bs) True tr"
    and "\<And>tr'. feeds dev bs True tr' \<Longrightarrow> Q ((PS2_OK, push_bit 8 (ucast hi) OR ucast lo), tr')"
  shows "leads (ps2_identify_device dev port t tr) Q"
  unfolding ps2_identify_device_def Let_def
  by (intro leads_bind feeds_flush [OF assms(1)])
    (auto intro!: leads_bind leads_Some assms(2) elim!: feeds_ack feeds_command feeds_receive feeds_raw_send)

lemma identify_none_feeds:
  assumes "feeds dev [] True tr" "\<And>tr'. Q ((PS2_ERROR_NO_ACK, t), tr')"
  shows "leads (ps2_identify_device dev port t tr) Q"
  unfolding ps2_identify_device_def
  by (intro leads_bind feeds_flush [OF assms(1)])
    (auto intro!: leads_bind leads_Some assms(2) elim!: feeds_no_ack)

lemma kbd_init_feeds:
  assumes "feeds dev [PS2_DEV_ACK, PS2_DEV_ACK, r, PS2_DEV_ACK, PS2_DEV_ACK, PS2_DEV_ACK] True tr"
    "ps2_kbd_state st = PS2_KBD_STATE_UNINITIALIZED"
    and "\<And>tr'. feeds dev [] True tr' \<Longrightarrow> Q ((PS2_KBD_OK, st\<lparr>ps2_kbd_port := port, ps2_kbd_state := PS2_KBD_STATE_NORMAL\<rparr>), tr')"
  shows "leads (ps2_kbd_init dev port st tr) Q"
  using assms(2) unfolding ps2_kbd_init_def Let_def ps2_kbd_set_scancode_set_def
  by (subst set_scancode_set_loop.simps)
    (auto intro!: leads_bind leads_Some feeds_ack [OF assms(1)] assms(3) elim!: feeds_ack feeds_receive)

lemma identify_ports_feeds:
  assumes "feeds dev [PS2_DEV_ACK, config, PS2_DEV_ACK, hi, lo, PS2_DEV_ACK, PS2_DEV_ACK, r, PS2_DEV_ACK, PS2_DEV_ACK, PS2_DEV_ACK] True tr"
    "port_1_populated (ps2_ports st)" "ps2_kbd_state (ps2_kbd st) = PS2_KBD_STATE_UNINITIALIZED"
    "ps2_device_is_keyboard (push_bit 8 (ucast hi) OR ucast lo)" "\<not> ps2_device_is_keyboard (device_type_port_2 (ps2_ports st))"
    and "\<And>tr'. Q (st\<lparr>ps2_kbd := (ps2_kbd st)\<lparr>ps2_kbd_port := PS2_PORT_1, ps2_kbd_state := PS2_KBD_STATE_NORMAL\<rparr>,
      ps2_ports := (ps2_ports st)\<lparr>device_type_port_1 := push_bit 8 (ucast hi) OR ucast lo\<rparr>\<rparr>, tr')"
  shows "leads (ps2_identify_ports dev st tr) Q"
  using assms(2-5) unfolding ps2_identify_ports_def ps2_start_driver_def
  by (auto intro!: leads_bind leads_Some identify_feeds [OF assms(1)] assms(6) elim!: kbd_init_feeds identify_none_feeds)

section \<open>A keyboard on the first port\<close>

text \<open>
  What the controller and the keyboard answer: two configuration bytes around the test of the controller,
  the test of the port, the reset, the identification with another read of the configuration, and the
  commands of the keyboard driver.
\<close>

abbreviation (input) answers :: "u8 \<Rightarrow> u8 \<Rightarrow> u8 \<Rightarrow> u8 \<Rightarrow> u8 \<Rightarrow> u8 \<Rightarrow> u8 \<Rightarrow> u8 list" where
  "answers config1 config2 reset config3 hi lo resp \<equiv>
     [config1, 0x55, config2, 0, PS2_DEV_ACK, reset, PS2_DEV_ACK, config3, PS2_DEV_ACK, hi, lo, PS2_DEV_ACK,
      PS2_DEV_ACK, resp, PS2_DEV_ACK, PS2_DEV_ACK, PS2_DEV_ACK]"

definition keyboard_attached :: "device \<Rightarrow> u32 \<Rightarrow> bool" where
  "keyboard_attached dev ty \<longleftrightarrow> ps2_device_is_keyboard ty \<and>
     (\<exists>config1 config2 reset config3 hi lo resp. plays dev (answers config1 config2 reset config3 hi lo resp) \<and>
        bit config2 1 \<and> ty = push_bit 8 (ucast hi) OR ucast lo)"

lemma keyboard_starts:
  assumes attached: "keyboard_attached dev ty" and idle: "\<not> polled tr"
  obtains st tr' where "ps2_init_controller dev ps2_boot tr = Some ((PS2_OK, st), tr')"
     "port_1_populated (ps2_ports st)" "device_type_port_1 (ps2_ports st) = ty"
     "ps2_kbd st = ps2_kbd_boot\<lparr>ps2_kbd_port := PS2_PORT_1, ps2_kbd_state := PS2_KBD_STATE_NORMAL\<rparr>"
proof -
  obtain config1 config2 reset config3 hi lo resp where
    script: "plays dev (answers config1 config2 reset config3 hi lo resp)" "bit config2 1"
    and ty: "ps2_device_is_keyboard (push_bit 8 (ucast hi) OR ucast lo)" "ty = push_bit 8 (ucast hi) OR ucast lo"
    using attached by (auto simp: keyboard_attached_def)
  have no_second: "ps2_test_port_2 dev st tr = Some ((PS2_OK, st), tr)" if "\<not> ps2_port_2_supported st" for st tr
    using that by (simp add: ps2_test_port_2_def)
  have none: "\<not> ps2_device_is_keyboard 0" by (simp add: ps2_device_is_keyboard_def)
  have irq: "leads (pic_enable_irq dev 1 tr) Q" if "\<And>tr'. Q tr'" for tr Q
    using that by (simp add: pic_enable_irq_def pic_line_def port_read_byte_def leads_def)
  have "leads (ps2_init_controller dev ps2_boot tr) (\<lambda>((c, st), tr'). c = PS2_OK \<and> port_1_populated (ps2_ports st) \<and>
      device_type_port_1 (ps2_ports st) = ty \<and>
      ps2_kbd st = ps2_kbd_boot\<lparr>ps2_kbd_port := PS2_PORT_1, ps2_kbd_state := PS2_KBD_STATE_NORMAL\<rparr>)"
    unfolding ps2_init_controller_def
    by (intro leads_bind test_controller_feeds [OF script(1) idle])
      (auto intro!: leads_bind leads_Some irq elim!: probe_port_2_feeds [OF _ script(2)] test_port_1_feeds enable_ports_feeds
         reset_ports_feeds identify_ports_feeds [OF _ _ _ ty(1)] simp: no_second none ty(2) ps2_boot_def ps2_kbd_boot_def)
  then show thesis using that by (auto simp: leads_def)
qed
section \<open>Properties\<close>


text \<open>A keyboard that answers with the type of an MF2 keyboard.\<close>

lemma mf2_keyboard_attached:
  "plays dev (answers 0x47 0x22 0xaa 0x47 0xab 0x83 0xfa) \<Longrightarrow> keyboard_attached dev 0xab83"
  unfolding keyboard_attached_def
  by (intro conjI exI, simp add: ps2_device_is_keyboard_def, assumption, simp_all add: bit_simps push_bit_eq_mult)


end
