(* ===== verification/BootCorrect.thy ===== *)
theory BootCorrect
  imports Boot PagingSession KeyboardStart
begin

text \<open>
  Correctness of the entry of the kernel (theory Boot): with what the boot protocol promises it gets to
  its end on its own page table and keeps running there; where something is missing it gives up at the
  check for it and leaves the processor on the loader's page table.
\<close>

section \<open>The stage of the memory\<close>

text \<open>The loader's page table: its root, and the memory as the kernel sees it at the start.\<close>

definition loader_root :: "u64 \<Rightarrow> machine \<Rightarrow> u64" where
  "loader_root offset m = (m_cr3 m AND NOT 0x7ff) + offset"

definition loader_state :: "u64 \<Rightarrow> machine \<Rightarrow> paging_state" where
  "loader_state offset m = paging_init offset (m_paging m)"

text \<open>
  What is needed of the memory: a map that the manager can work with, usable pages below the bound of an
  entry's address field, the loader's tables outside of them, and free pages enough for the clone and
  the test, without present entries in them.
\<close>

definition memory_ok :: "memmap \<Rightarrow> u64 \<Rightarrow> machine \<Rightarrow> bool" where
  "memory_ok mm offset m \<longleftrightarrow>
     (let st = loader_state offset m; root = loader_root offset m; free = memmap_pages mm - metadata_pages mm in
      pg_pmm (m_paging m) = pmm_boot_state \<and> memmap_ok mm \<and> metadata_base mm \<noteq> 0 \<and>
      (\<forall>a \<in> memmap_pages mm. unat a < 2 ^ 40 \<and> a + offset \<noteq> 0) \<and>
      (\<forall>p t. valid_path p \<and> table_at st root p = Some t \<longrightarrow>
         4096 dvd unat (t - offset) \<and> t - offset \<notin> memmap_pages mm) \<and>
      3 * card (dom (pages st root)) + 4 \<le> card free \<and>
      (\<forall>a \<in> free. \<forall>i<512. \<not> bit (read_entry st (a + offset) (of_nat i)) 0))"

text \<open>The tables do not depend on the state of the manager.\<close>

lemma table_at_pmm [simp]: "table_at (st\<lparr>pg_pmm := pm\<rparr>) root p = table_at st root p"
  by (induction p) (simp_all add: read_entry_def child_table_def Let_def split: option.split)

lemma pages_pmm [simp]: "pages (st\<lparr>pg_pmm := pm\<rparr>) root = pages st root"
proof
  fix q show "pages (st\<lparr>pg_pmm := pm\<rparr>) root q = pages st root q"
    by (cases q) (simp_all add: pages_Cons Let_def read_entry_def split: option.split)
qed

text \<open>
  The state of paging the stage leaves: an own page table with the pages of the loader's, through which
  every address resolves as before, and pages to spare.
\<close>

definition loader_pages :: "u64 \<Rightarrow> machine \<Rightarrow> address_space" where
  "loader_pages offset m = (\<lambda>q. map_option (copied (length q - 1)) (pages (loader_state offset m) (loader_root offset m) q))"

definition cloned :: "u64 \<Rightarrow> machine \<Rightarrow> u64 \<Rightarrow> paging_state \<Rightarrow> bool" where
  "cloned offset m root pg \<longleftrightarrow> represents pg root (loader_pages offset m)"

lemma cloned_resolve:
  assumes "cloned offset m root pg"
  shows "paging_resolve_virtual_address root virt pg =
    paging_resolve_virtual_address (loader_root offset m) virt (loader_state offset m)"
  unfolding resolve_refines_lookup
  by (rule resolve_copied) (use assms in \<open>simp add: cloned_def represents_def loader_pages_def\<close>)

text \<open>The pages that the clone, and then also the test, may take from the manager.\<close>

definition clone_room :: "u64 \<Rightarrow> machine \<Rightarrow> nat" where
  "clone_room offset m = Suc (3 * card (dom (pages (loader_state offset m) (loader_root offset m))))"

definition free_at_start :: "memmap \<Rightarrow> nat" where
  "free_at_start mm = card (memmap_pages mm - metadata_pages mm)"

lemma clone_loader:
  assumes ok: "memory_ok mm offset m"
  obtains pm root pg where "pmm_init (pg_pmm (m_paging m)) mm offset = Some (PMM_OK, pm)"
    "paging_clone_page_table (loader_root offset m) 0 PML4 (paging_init offset ((m_paging m)\<lparr>pg_pmm := pm\<rparr>)) =
       Some (PAGING_OK, root, pg)"
    "cloned offset m root pg" "free_at_start mm \<le> card (free_pages (pg_pmm pg)) + clone_room offset m"
proof -
  let ?st = "loader_state offset m" and ?old = "loader_root offset m"
  note ok = ok [unfolded memory_ok_def Let_def]
  obtain pm where pm: "pmm_init pmm_boot_state mm offset = Some (PMM_OK, pm)" "pmm_inv pm"
      "usable_pages pm = memmap_pages mm" "free_pages pm = memmap_pages mm - metadata_pages mm"
    using pmm_init_state [of mm offset] ok by blast
  let ?st1 = "?st\<lparr>pg_pmm := pm\<rparr>"
  have st1: "g_hhdm_offset ?st1 = offset" "pg_pmm ?st1 = pm" "pages ?st1 ?old = pages ?st ?old"
    "paging_init offset ((m_paging m)\<lparr>pg_pmm := pm\<rparr>) = ?st1" "read_entry ?st1 = read_entry ?st"
    by (simp_all add: loader_state_def paging_init_def read_entry_def fun_eq_iff)
  have small: "\<forall>a \<in> usable_pages (pg_pmm ?st1). unat a < 2 ^ 40 \<and> a + g_hhdm_offset ?st1 \<noteq> 0"
    using ok unfolding st1(1,2) pm(3) by blast
  have foreign: "foreign ?st1 ?old"
    using ok unfolding foreign_def aligned_table_def table_at_pmm st1(1,2) pm(3) by blast
  have room: "3 * card (dom (pages ?st1 ?old)) < card (free_pages (pg_pmm ?st1))"
    using ok unfolding st1(2,3) pm(4) by linarith
  have zero: "\<forall>a \<in> free_pages (pg_pmm ?st1). \<forall>i<512.
      \<not> bit (read_entry ?st1 (a + g_hhdm_offset ?st1) (of_nat i)) 0"
    using ok unfolding st1(1,2,5) pm(4) by blast
  obtain root pg where c: "paging_clone_page_table ?old 0 PML4 ?st1 = Some (PAGING_OK, root, pg)"
    "paging_inv pg root" "root - g_hhdm_offset ?st1 \<in> usable_pages (pg_pmm ?st1)"
    "\<And>q. pages pg root q = map_option (copied (length q - 1)) (pages ?st1 ?old q)" "untouched ?st1 pg"
    "card (free_pages (pg_pmm ?st1)) \<le> Suc (card (free_pages (pg_pmm pg)) + 3 * card (dom (pages ?st1 ?old)))"
    "compact_but pg root []"
    using clone_page_table_correct [OF _ small foreign room zero] pm(2) st1(2) by metis
  have "free_at_start mm \<le> card (free_pages (pg_pmm pg)) + clone_room offset m"
    using c(6) unfolding st1(2,3) pm(4) free_at_start_def clone_room_def by linarith
  moreover have "cloned offset m root pg"
    using c(2,4,7) st1(3) by (simp add: cloned_def represents_def loader_pages_def fun_eq_iff)
  moreover have "pmm_init (pg_pmm (m_paging m)) mm offset = Some (PMM_OK, pm)" using pm(1) ok by simp
  ultimately show thesis using that c(1) st1(4) by metis
qed

lemma kmain_memory_ok:
  assumes "memory_ok mm offset m" "memmap_response info = Some mm" "hhdm_response info = Some offset"
    and log: "boot_env_ok env" "serial_takes (be_dev env)" "logs_to (serial_backend (be_dev env) 0x3f8) m"
  obtains root pg tr where "kmain_memory env info m =
      Some (Inr (root, m\<lparr>m_paging := pg, m_cr3 := root - offset, m_out := (m_out m)\<lparr>o_trace := tr\<rparr>\<rparr>))"
    "cloned offset m root pg" "free_at_start mm \<le> card (free_pages (pg_pmm pg)) + clone_room offset m"
proof -
  obtain pm root pg where c: "pmm_init (pg_pmm (m_paging m)) mm offset = Some (PMM_OK, pm)"
    "paging_clone_page_table (loader_root offset m) 0 PML4 (paging_init offset ((m_paging m)\<lparr>pg_pmm := pm\<rparr>)) =
       Some (PAGING_OK, root, pg)"
    "cloned offset m root pg" "free_at_start mm \<le> card (free_pages (pg_pmm pg)) + clone_room offset m"
    by (rule clone_loader [OF assms(1)])
  let ?log = "\<lambda>msg. log_line env (be_file env) LOGGING_LEVEL_INFO msg" and ?m = "m\<lparr>m_paging := pg\<rparr>"
  have f: "name_ok (be_file env)" using log(1) by (simp add: boot_env_ok_def)
  have w: "logs_to (serial_backend (be_dev env) 0x3f8) ?m" using log(3) by simp
  obtain tr1 where l1: "?log ''Successfully cloned the page table.'' ?m = Some (set_trace tr1 ?m)"
    by (rule log_line_serial [OF log(1,2) w f messages_plain(7)])
  have w1: "logs_to (serial_backend (be_dev env) 0x3f8) (set_trace tr1 ?m)" using w by simp
  obtain tr2 where l2: "?log ''Before loading cr3'' (set_trace tr1 ?m) = Some (set_trace tr2 (set_trace tr1 ?m))"
    by (rule log_line_serial [OF log(1,2) w1 f messages_plain(8)])
  let ?m2 = "set_trace tr2 (set_trace tr1 ?m)"
  have w2: "logs_to (serial_backend (be_dev env) 0x3f8) ?m2" using w by simp
  obtain tr3 where l3: "set_cr3 env (root - offset) ?m2 =
      Some (?m2\<lparr>m_cr3 := root - offset, m_out := (m_out ?m2)\<lparr>o_trace := tr3\<rparr>\<rparr>)"
    by (rule set_cr3_ok [OF log(1,2) w2])
  let ?m3 = "?m2\<lparr>m_cr3 := root - offset, m_out := (m_out ?m2)\<lparr>o_trace := tr3\<rparr>\<rparr>"
  have w3: "logs_to (serial_backend (be_dev env) 0x3f8) ?m3" using w by simp
  obtain tr4 where l4: "?log ''after loading cr3'' ?m3 = Some (set_trace tr4 ?m3)"
    by (rule log_line_serial [OF log(1,2) w3 f messages_plain(9)])
  have "kmain_memory env info m =
      Some (Inr (root, m\<lparr>m_paging := pg, m_cr3 := root - offset, m_out := (m_out m)\<lparr>o_trace := tr4\<rparr>\<rparr>))"
    using c(1,2) l1 l2 l3 l4 by (simp add: kmain_memory_def assms(2,3) Let_def loader_root_def)
  then show thesis using that c(3,4) by blast
qed

section \<open>The test and the whole entry\<close>

text \<open>The page that the kernel maps for a test is not mapped by the loader.\<close>

definition test_page_unused :: "u64 \<Rightarrow> machine \<Rightarrow> bool" where
  "test_page_unused offset m \<longleftrightarrow>
     (\<forall>s. pages (loader_state offset m) (loader_root offset m) (virt_path 0x7fb000 s) = None)"

lemma kmain_test_ok:
  assumes c: "cloned offset m0 root (m_paging m)" and free: "3 \<le> card (free_pages (pg_pmm (m_paging m)))"
    and unused: "test_page_unused offset m0"
    and log: "boot_env_ok env" "serial_takes (be_dev env)" "logs_to (serial_backend (be_dev env) 0x3f8) m"
  obtains pg tr where "kmain_test env root m = Some (m\<lparr>m_paging := pg, m_out := (m_out m)\<lparr>o_trace := tr\<rparr>\<rparr>)"
    "cloned offset m0 root pg" "card (free_pages (pg_pmm (m_paging m))) \<le> card (free_pages (pg_pmm pg)) + 3"
proof -
  let ?pg = "m_paging m" and ?v = "0x7fb000 :: u64" and ?flags = "PAGING_FLAG_PRESENT OR PAGING_FLAG_WRITABLE"
  let ?path = "virt_path ?v PAGE_SIZE_4KB" and ?map = "Map_page ?v ?v PAGE_SIZE_4KB ?flags" and ?unmap = "Unmap_page ?v PAGE_SIZE_4KB"
  let ?e = "paging_create_entry ?v ?flags (leaf_level PAGE_SIZE_4KB) PAGING_ENTRY_PAGE"
  have f: "name_ok (be_file env)" using log(1) by (simp add: boot_env_ok_def)
  have rel: "represents ?pg root (loader_pages offset m0)" using c by (simp add: cloned_def)
  have none: "loader_pages offset m0 (virt_path ?v s) = None" for s
    using unused by (simp add: loader_pages_def test_page_unused_def)
  have "in_use (loader_pages offset m0) ?path \<longleftrightarrow> loader_pages offset m0 ?path \<noteq> None"
    by (rule in_use_leaf [OF rel]) (simp add: virt_path_def Let_def)
  then have free_path: "\<not> in_use (loader_pages offset m0) ?path" using none [of PAGE_SIZE_4KB] by simp
  have "page_flags_ok PAGE_SIZE_4KB ?flags" by (simp add: page_flags_ok_def)
  then have ok: "allowed (loader_pages offset m0) ?map" using none by simp
  obtain pg1 where pg1: "paging_map_page root ?v ?v PAGE_SIZE_4KB ?flags ?pg = Some (PAGING_OK, pg1)"
      "represents pg1 root ((loader_pages offset m0)(?path \<mapsto> ?e))"
      "card (free_pages (pg_pmm ?pg)) \<le> card (free_pages (pg_pmm pg1)) + 3"
    by (rule op_simulation [OF rel ok]) (use free free_path in simp_all)
  have ok: "allowed ((loader_pages offset m0)(?path \<mapsto> ?e)) ?unmap" by simp
  have same: "(loader_pages offset m0)(?path := None) = loader_pages offset m0" using none by (simp add: fun_upd_idem)
  obtain pg2 where pg2: "paging_unmap_page root ?v PAGE_SIZE_4KB pg1 = Some (PAGING_OK, pg2)"
      "cloned offset m0 root pg2" "card (free_pages (pg_pmm pg1)) \<le> card (free_pages (pg_pmm pg2))"
    by (rule op_simulation [OF pg1(2) ok]) (use same in \<open>simp_all add: cloned_def\<close>)
  obtain tr1 where l1: "log_line env (be_file env) LOGGING_LEVEL_INFO ''Test mapping and unmapping a page...'' m =
      Some (set_trace tr1 m)"
    by (rule log_line_serial [OF log f messages_plain(10)])
  let ?m = "(set_trace tr1 m)\<lparr>m_paging := pg2\<rparr>"
  have "logs_to (serial_backend (be_dev env) 0x3f8) ?m" using log(3) by simp
  then obtain tr2 where l2: "log_line env (be_file env) LOGGING_LEVEL_INFO ''No erros. Seems to work i guess.'' ?m =
      Some (set_trace tr2 ?m)"
    by (rule log_line_serial [OF log(1,2) _ f messages_plain(13)])
  have "kmain_test env root m = Some (m\<lparr>m_paging := pg2, m_out := (m_out m)\<lparr>o_trace := tr2\<rparr>\<rparr>)"
    using l1 l2 pg1(1) pg2(1) by (simp add: kmain_test_def Let_def)
  then show thesis using that pg2(2,3) pg1(3) by (meson le_trans add_le_mono1)
qed

lemmas machine_simps = kmain_tables_def idt_install_def Let_def

lemma tables_fields [simp]:
  "m_paging (kmain_tables env m) = m_paging m" "m_ps2 (kmain_tables env m) = m_ps2 m"
  "m_cr3 (kmain_tables env m) = m_cr3 m" "m_out (kmain_tables env m) = m_out m"
  "m_backend (kmain_tables env m) = m_backend m" "m_idt (kmain_tables env m) = idt_init (be_isr env)"
  "m_idtr (kmain_tables env m) = \<lparr>idtr_size = of_nat (16 * IDT_ENTRIES - 1), idtr_offset = be_idt env\<rparr>"
  "m_gdt (kmain_tables env m) = gdt_init (m_gdt m)" "m_gdtr (kmain_tables env m) = gdt_install (be_gdt env)"
  by (simp_all add: machine_simps)

lemma memory_stage_fields [simp]:
  "loader_state offset (m\<lparr>m_out := out\<rparr>) = loader_state offset m"
  "loader_state offset (m\<lparr>m_backend := backend\<rparr>) = loader_state offset m"
  "loader_state offset (kmain_tables env m) = loader_state offset m"
  "loader_root offset (m\<lparr>m_out := out\<rparr>) = loader_root offset m"
  "loader_root offset (m\<lparr>m_backend := backend\<rparr>) = loader_root offset m"
  "loader_root offset (kmain_tables env m) = loader_root offset m"
  by (simp_all add: loader_state_def loader_root_def)

lemma memory_ok_fields [simp]:
  "memory_ok mm offset (m\<lparr>m_out := out\<rparr>) = memory_ok mm offset m"
  "memory_ok mm offset (m\<lparr>m_backend := backend\<rparr>) = memory_ok mm offset m"
  "memory_ok mm offset (kmain_tables env m) = memory_ok mm offset m"
  by (simp_all add: memory_ok_def)

text \<open>The part of the machine that the interrupt handler works on.\<close>

definition kernel_of :: "machine \<Rightarrow> kernel" where
  "kernel_of m = \<lparr>k_terminal = o_terminal (m_out m), k_kbd = ps2_kbd (m_ps2 m), k_trace = o_trace (m_out m)\<rparr>"

text \<open>What is needed of the machine the kernel is started on.\<close>

definition framebuffer_ok :: "limine_framebuffer \<Rightarrow> bool" where
  "framebuffer_ok fb \<longleftrightarrow> fb_ok fb \<and> 20 \<le> unat (fb_width fb) \<and> 22 \<le> unat (fb_height fb)"

definition devices_ok :: "device \<Rightarrow> bool" where
  "devices_ok dev \<longleftrightarrow> serial_takes dev \<and> loops_back dev \<and> cooperative dev"

text \<open>The state in which the kernel halts at its end, with its interrupts.\<close>

definition booted :: "boot_env \<Rightarrow> memmap \<Rightarrow> u64 \<Rightarrow> machine \<Rightarrow> machine \<Rightarrow> bool" where
  "booted env mm offset m0 m \<longleftrightarrow>
     cloned offset m0 (m_cr3 m + offset) (m_paging m) \<and>
     free_at_start mm \<le> card (free_pages (pg_pmm (m_paging m))) + clone_room offset m0 + 3 \<and> m_if m \<and>
     m_gdt m = gdt_init (m_gdt m0) \<and> m_gdtr m = gdt_install (be_gdt env) \<and>
     m_idt m = idt_init (be_isr env) \<and> idtr_offset (m_idtr m) = be_idt env \<and>
     (\<exists>tr c tr'. \<not> polled tr \<and> ps2_init_controller (be_dev env) ps2_boot tr = Some ((c, m_ps2 m), tr')) \<and>
     logs_to (serial_backend (be_dev env) 0x3f8) m \<and> handler_ok (kernel_of m)"

text \<open>The machine when its devices are set up: memory, tables and log are as they stay.\<close>

definition set_up :: "boot_env \<Rightarrow> memmap \<Rightarrow> u64 \<Rightarrow> machine \<Rightarrow> machine \<Rightarrow> bool" where
  "set_up env mm offset m0 m \<longleftrightarrow>
     cloned offset m0 (m_cr3 m + offset) (m_paging m) \<and>
     free_at_start mm \<le> card (free_pages (pg_pmm (m_paging m))) + clone_room offset m0 \<and>
     m_gdt m = gdt_init (m_gdt m0) \<and> m_gdtr m = gdt_install (be_gdt env) \<and>
     m_idt m = idt_init (be_isr env) \<and> idtr_offset (m_idtr m) = be_idt env \<and>
     logs_to (serial_backend (be_dev env) 0x3f8) m \<and> m_ps2 m = ps2_boot \<and> terminal_ok (o_terminal (m_out m))"

lemma kmain_sets_up:
  assumes env: "boot_env_ok env" "devices_ok (be_dev env)"
    and info: "base_revision_supported info" "framebuffer_response info = Some (fb # fbs)" "framebuffer_ok fb"
      "memmap_response info = Some mm" "hhdm_response info = Some offset"
    and m: "memory_ok mm offset m" "m_ps2 m = ps2_boot"
  obtains m' where "set_up env mm offset m m'"
    "kmain env info m = do { m \<leftarrow> kmain_devices env m'; m \<leftarrow> kmain_test env (m_cr3 m' + offset) m; Some (At_end, m) }"
proof -
  have dev: "serial_takes (be_dev env)" "loops_back (be_dev env)"
    using env(2) by (simp_all add: devices_ok_def)
  have fb: "fb_ok fb" "20 \<le> unat (fb_width fb)" "22 \<le> unat (fb_height fb)"
    using info(3) by (simp_all add: framebuffer_ok_def)
  obtain t where t: "kmain_output fb m = Some (m\<lparr>m_out := (m_out m)\<lparr>o_terminal := t\<rparr>,
      m_backend := logging_set_backend (Some terminal_backend) (m_backend m)\<rparr>)" "terminal_ok t"
    by (rule kmain_output_ok [OF fb])
  define m1 where "m1 = kmain_tables env (m\<lparr>m_out := (m_out m)\<lparr>o_terminal := t\<rparr>,
      m_backend := logging_set_backend (Some terminal_backend) (m_backend m)\<rparr>)"
  obtain tr1 where s: "kmain_serial env m1 = Some (Inr (m1\<lparr>m_out := (m_out m1)\<lparr>o_trace := tr1\<rparr>,
      m_backend := logging_set_backend (Some (serial_backend (be_dev env) 0x3f8)) (m_backend m1)\<rparr>))"
    by (rule kmain_serial_ok [OF dev(2)])
  define m2 where "m2 = m1\<lparr>m_out := (m_out m1)\<lparr>o_trace := tr1\<rparr>,
      m_backend := logging_set_backend (Some (serial_backend (be_dev env) 0x3f8)) (m_backend m1)\<rparr>"
  have m2: "memory_ok mm offset m2" "logs_to (serial_backend (be_dev env) 0x3f8) m2"
    "loader_state offset m2 = loader_state offset m" "loader_root offset m2 = loader_root offset m" "m_ps2 m2 = ps2_boot"
    "o_terminal (m_out m2) = t" "m_idt m2 = idt_init (be_isr env)" "idtr_offset (m_idtr m2) = be_idt env"
    "m_gdt m2 = gdt_init (m_gdt m)" "m_gdtr m2 = gdt_install (be_gdt env)"
    using m by (simp_all add: m2_def m1_def)
  obtain root pg tr3 where mem: "kmain_memory env info m2 =
      Some (Inr (root, m2\<lparr>m_paging := pg, m_cr3 := root - offset, m_out := (m_out m2)\<lparr>o_trace := tr3\<rparr>\<rparr>))"
      "cloned offset m2 root pg" "free_at_start mm \<le> card (free_pages (pg_pmm pg)) + clone_room offset m2"
    by (rule kmain_memory_ok [OF m2(1) info(4,5) env(1) dev(1) m2(2)])
  define m3 where "m3 = m2\<lparr>m_paging := pg, m_cr3 := root - offset, m_out := (m_out m2)\<lparr>o_trace := tr3\<rparr>\<rparr>"
  have "set_up env mm offset m m3"
    using t(2) mem(2,3) m2 by (simp add: set_up_def m3_def cloned_def loader_pages_def clone_room_def)
  moreover have "m_cr3 m3 + offset = root" by (simp add: m3_def)
  then have "kmain env info m = do { m \<leftarrow> kmain_devices env m3; m \<leftarrow> kmain_test env (m_cr3 m3 + offset) m; Some (At_end, m) }"
    using t(1) s mem(1) info(1,2)
    by (simp add: kmain_def m1_def [symmetric] m2_def [symmetric] m3_def [symmetric])
  ultimately show thesis by (rule that)
qed

lemma set_up_room:
  assumes "set_up env mm offset m0 m" "memory_ok mm offset m0"
  shows "3 \<le> card (free_pages (pg_pmm (m_paging m)))"
  using assms by (simp add: set_up_def memory_ok_def Let_def free_at_start_def clone_room_def)

lemma kmain_reaches_end:
  assumes env: "boot_env_ok env" "devices_ok (be_dev env)"
    and info: "base_revision_supported info" "framebuffer_response info = Some (fb # fbs)" "framebuffer_ok fb"
      "memmap_response info = Some mm" "hhdm_response info = Some offset"
    and m: "memory_ok mm offset m" "test_page_unused offset m" "m_ps2 m = ps2_boot"
  obtains m' where "kmain env info m = Some (At_end, m')" "booted env mm offset m m'"
proof -
  have dev: "serial_takes (be_dev env)" "cooperative (be_dev env)" using env(2) by (simp_all add: devices_ok_def)
  obtain m3 where m3: "set_up env mm offset m m3"
    "kmain env info m = do { m \<leftarrow> kmain_devices env m3; m \<leftarrow> kmain_test env (m_cr3 m3 + offset) m; Some (At_end, m) }"
    by (rule kmain_sets_up [OF env info m(1,3)])
  obtain tr4 ps2 c tr0 where d: "kmain_devices env m3 = Some (m3\<lparr>m_out := (m_out m3)\<lparr>o_trace := tr4\<rparr>, m_if := True, m_ps2 := ps2\<rparr>)"
      "ps2_init_controller (be_dev env) (m_ps2 m3) tr0 = Some ((c, ps2), tr4)" "\<not> polled tr0"
    by (rule kmain_devices_ok [OF dev(2)])
  define m4 where "m4 = m3\<lparr>m_out := (m_out m3)\<lparr>o_trace := tr4\<rparr>, m_if := True, m_ps2 := ps2\<rparr>"
  have c: "cloned offset m (m_cr3 m3 + offset) (m_paging m4)" "logs_to (serial_backend (be_dev env) 0x3f8) m4"
    "3 \<le> card (free_pages (pg_pmm (m_paging m4)))"
    using m3(1) set_up_room [OF m3(1) m(1)] by (simp_all add: m4_def set_up_def)
  obtain pg5 tr5 where test: "kmain_test env (m_cr3 m3 + offset) m4 = Some (m4\<lparr>m_paging := pg5, m_out := (m_out m4)\<lparr>o_trace := tr5\<rparr>\<rparr>)"
      "cloned offset m (m_cr3 m3 + offset) pg5" "card (free_pages (pg_pmm (m_paging m4))) \<le> card (free_pages (pg_pmm pg5)) + 3"
    by (rule kmain_test_ok [OF c(1,3) m(2) env(1) dev(1) c(2)])
  define m5 where "m5 = m4\<lparr>m_paging := pg5, m_out := (m_out m4)\<lparr>o_trace := tr5\<rparr>\<rparr>"
  have run: "kmain env info m = Some (At_end, m5)"
    using m3(2) d(1) test(1) by (simp add: m4_def [symmetric] m5_def [symmetric])
  have keys: "same_keys ps2_kbd_boot (ps2_kbd ps2)"
    using init_controller_keys [OF d(2)] m3(1) by (simp add: set_up_def ps2_boot_def)
  then have "ps2_kbd_buffer (ps2_kbd ps2) = kbd_boot_state" by (simp add: same_keys_def ps2_kbd_boot_def)
  then have "handler_ok (kernel_of m5)"
    using m3(1) by (simp add: set_up_def handler_ok_def kernel_of_def m5_def m4_def kbd_boot_inv)
  then have "booted env mm offset m m5"
    using test(2,3) c(2) m3(1) d(2,3) by (auto simp: booted_def set_up_def m5_def m4_def)
  with run that show thesis by blast
qed

section \<open>The running kernel\<close>

text \<open>
  After its last statement the kernel only handles interrupts. \<open>interrupted k k'\<close>: one of the external
  interrupts is handled in state \<open>k\<close> and returns with \<open>k'\<close>; the environment is the same in all of
  them, with a device that is a function of the whole history.
\<close>

inductive interrupted :: "handler_env \<Rightarrow> kernel \<Rightarrow> kernel \<Rightarrow> bool" for henv where
  external: "32 \<le> unat v \<Longrightarrow> unat v \<le> 47 \<Longrightarrow> interrupt_handler henv v err k = Some (Resumed k') \<Longrightarrow>
    interrupted henv k k'"

inductive runs :: "handler_env \<Rightarrow> kernel \<Rightarrow> kernel \<Rightarrow> bool" for henv k where
  idle: "runs henv k k"
| interrupt: "runs henv k k1 \<Longrightarrow> interrupted henv k1 k2 \<Longrightarrow> runs henv k k2"

declare interrupted.intros [intro] runs.idle [simp, intro]

inductive_cases interruptedE [elim!]: "interrupted henv k k'"

text \<open>Progress and preservation.\<close>

lemma interrupted_total:
  assumes "env_ok henv" "handler_ok k" "32 \<le> unat v" "unat v \<le> 47"
  obtains k' where "interrupt_handler henv v err k = Some (Resumed k')" "interrupted henv k k'"
    "acknowledged (unat v - 32) (k_trace k')"
  using external_interrupt [OF assms, of err] interrupted.external [OF assms(3,4)] by blast

lemma interrupted_handler_ok:
  assumes "interrupted henv k k'" "env_ok henv" "handler_ok k"
  shows "handler_ok k'"
  using assms(1)
proof
  fix v err
  assume v: "32 \<le> unat v" "unat v \<le> 47" and r: "interrupt_handler henv v err k = Some (Resumed k')"
  from external_interrupt [OF assms(2,3) v, of err] r show ?thesis by auto
qed

lemma runs_handler_ok:
  assumes "runs henv k k'" "env_ok henv" "handler_ok k"
  shows "handler_ok k'"
  using assms(1) by induction (use assms(2,3) interrupted_handler_ok in auto)

text \<open>The environment of the handler on a machine that logs to the serial port.\<close>

definition handles_on :: "boot_env \<Rightarrow> handler_env \<Rightarrow> bool" where
  "handles_on env henv \<longleftrightarrow> he_dev henv = be_dev env \<and>
     backend_write (he_backend henv) = Some (\<lambda>c tr. serial_log_write (be_dev env) c 0x3f8 tr) \<and>
     name_ok (he_file henv) \<and> name_ok (he_log_file henv) \<and> length (he_stack henv) = MAX_FORMAT_STRING_LENGTH"

lemma handles_on_env_ok:
  assumes "handles_on env henv" "serial_takes (be_dev env)"
  shows "env_ok henv"
proof -
  have "\<exists>tr'. serial_log_write (be_dev env) c 0x3f8 tr = Some tr'" for c tr
    using serial_sink.put_ok [OF assms(2), of c tr] by (auto simp: serial_log_write_def)
  then show ?thesis using assms(1) by (simp add: env_ok_def handles_on_def log_put_def)
qed

section \<open>Typing\<close>

lemma booted_keyboard:
  assumes "booted env mm offset m0 m" "keyboard_attached (be_dev env) ty"
  shows "driver_ok (ps2_kbd (m_ps2 m)) \<and> kbd_events (ps2_kbd_buffer (ps2_kbd (m_ps2 m))) = [] \<and>
    ps2_kbd_modifiers (ps2_kbd (m_ps2 m)) = ps2_kbd_modifiers ps2_kbd_boot \<and> terminal_ok (o_terminal (m_out m))"
proof -
  obtain tr c tr' where run: "\<not> polled tr" "ps2_init_controller (be_dev env) ps2_boot tr = Some ((c, m_ps2 m), tr')"
    using assms(1) by (auto simp: booted_def)
  obtain st tr1 where "ps2_init_controller (be_dev env) ps2_boot tr = Some ((PS2_OK, st), tr1)"
      "ps2_kbd st = ps2_kbd_boot\<lparr>ps2_kbd_port := PS2_PORT_1, ps2_kbd_state := PS2_KBD_STATE_NORMAL\<rparr>"
    by (rule keyboard_starts [OF assms(2) run(1)])
  then have "ps2_kbd (m_ps2 m) = ps2_kbd_boot\<lparr>ps2_kbd_port := PS2_PORT_1, ps2_kbd_state := PS2_KBD_STATE_NORMAL\<rparr>"
    using run(2) by simp
  moreover have "terminal_ok (o_terminal (m_out m))"
    using assms(1) by (simp add: booted_def handler_ok_def kernel_of_def)
  ultimately show ?thesis
    using kbd_boot_inv by (simp add: driver_ok_def ps2_kbd_boot_def)
qed

section \<open>Giving up\<close>

lemma log_line_out:
  assumes "log_line env file level msg m = Some m'"
  obtains out where "m' = m\<lparr>m_out := out\<rparr>"
proof (cases "compiled_out env level")
  case True
  then have "m' = m\<lparr>m_out := m_out m\<rparr>" using assms by (simp add: log_line_def)
  with that show thesis .
next
  case False
  then show thesis using assms that by (auto simp: log_line_def bind_eq_Some_conv)
qed

lemma kmain_output_fields:
  "kmain_output fb m = Some m' \<Longrightarrow> m_cr3 m' = m_cr3 m \<and> m_if m' = m_if m"
  by (auto simp: kmain_output_def Let_def bind_eq_Some_conv)

lemma kmain_tables_off [simp]: "\<not> m_if (kmain_tables env m)"
  by (simp add: machine_simps)

definition untouched_cpu :: "machine \<Rightarrow> machine \<Rightarrow> bool" where
  "untouched_cpu m m' \<longleftrightarrow> m_cr3 m' = m_cr3 m \<and> m_if m' = m_if m"

lemma untouched_cpu_simps [simp]:
  "untouched_cpu m m" "untouched_cpu (m\<lparr>m_out := out\<rparr>) m' = untouched_cpu m m'"
  "untouched_cpu (m\<lparr>m_paging := pg\<rparr>) m' = untouched_cpu m m'"
  "untouched_cpu m (m'\<lparr>m_out := out\<rparr>) = untouched_cpu m m'"
  "untouched_cpu m (m'\<lparr>m_paging := pg\<rparr>) = untouched_cpu m m'"
  "untouched_cpu m (m'\<lparr>m_backend := backend\<rparr>) = untouched_cpu m m'"
  by (simp_all add: untouched_cpu_def)

lemma log_and_give_up:
  assumes "Option.bind (log_line env file level msg m) (\<lambda>m. Some (Inl (h, m))) = Some (Inl (h', m'))"
  shows "h' = h \<and> untouched_cpu m m'"
proof -
  obtain m1 where "log_line env file level msg m = Some m1" "h' = h" "m' = m1"
    using assms by (auto simp: bind_eq_Some_conv)
  then show ?thesis using log_line_out by fastforce
qed

lemma kmain_serial_cpu:
  assumes "kmain_serial env m = Some r"
  shows "case r of Inl (h, m') \<Rightarrow> h = At_serial \<and> untouched_cpu m m' | Inr m' \<Rightarrow> untouched_cpu m m'"
proof -
  obtain c tr where i: "serial_init (be_dev env) COM1 38400 3 (o_trace (m_out m)) = Some (c, tr)"
    using assms by (auto simp: kmain_serial_def bind_eq_Some_conv)
  show ?thesis
  proof (cases "c = SERIAL_OK")
    case True
    then show ?thesis using assms i by (auto simp: kmain_serial_def)
  next
    case False
    then have "Option.bind (log_line env (be_file env) LOGGING_LEVEL_ERROR
        ''ERROR: Something went wrong setting up COM1 serial port!'' (set_trace tr m)) (\<lambda>m. Some (Inl (At_serial, m))) = Some r"
      using assms i by (simp add: kmain_serial_def)
    moreover from this obtain h m' where "r = Inl (h, m')" by (auto simp: bind_eq_Some_conv)
    ultimately show ?thesis using log_and_give_up by fastforce
  qed
qed

lemma kmain_memory_cpu:
  assumes "kmain_memory env info m = Some (Inl (h, m'))"
  shows "h \<in> {At_memmap, At_hhdm, At_pmm, At_clone} \<and> untouched_cpu m m'"
proof (cases "memmap_response info")
  case None
  then show ?thesis using log_and_give_up assms unfolding kmain_memory_def by fastforce
next
  case mm: (Some mm)
  show ?thesis
  proof (cases "hhdm_response info")
    case None
    then show ?thesis using mm log_and_give_up assms unfolding kmain_memory_def by fastforce
  next
    case hhdm: (Some offset)
    obtain c pm where i: "pmm_init (pg_pmm (m_paging m)) mm offset = Some (c, pm)"
      using assms mm hhdm by (auto simp: kmain_memory_def bind_eq_Some_conv)
    show ?thesis
    proof (cases "c = PMM_OK")
      case False
      then show ?thesis using assms mm hhdm i by (auto simp: kmain_memory_def)
    next
      case True
      obtain c2 root pg where cl: "paging_clone_page_table (loader_root offset m) 0 PML4
          (paging_init offset ((m_paging m)\<lparr>pg_pmm := pm\<rparr>)) = Some (c2, root, pg)"
        using assms mm hhdm i True
        by (cases "paging_clone_page_table (loader_root offset m) 0 PML4
            (paging_init offset ((m_paging m)\<lparr>pg_pmm := pm\<rparr>))") (auto simp: kmain_memory_def Let_def loader_root_def)
      show ?thesis
      proof (cases "c2 = PAGING_OK")
        case True
        then show ?thesis using assms mm hhdm i \<open>c = PMM_OK\<close> cl
          by (auto simp: kmain_memory_def Let_def loader_root_def bind_eq_Some_conv)
      next
        case False
        then have "Option.bind (log_line env (be_file env) LOGGING_LEVEL_ERROR ''Failed to clone page table.''
            (m\<lparr>m_paging := pg\<rparr>)) (\<lambda>m. Some (Inl (At_clone, m))) = Some (Inl (h, m') :: (halted \<times> machine) + (u64 \<times> machine))"
          using assms mm hhdm i \<open>c = PMM_OK\<close> cl by (simp add: kmain_memory_def Let_def loader_root_def)
        from log_and_give_up [OF this] show ?thesis by simp
      qed
    qed
  qed
qed

lemma kmain_memory_missing:
  assumes "boot_env_ok env" "serial_takes (be_dev env)" "logs_to (serial_backend (be_dev env) 0x3f8) m"
    and "h = At_memmap \<and> memmap_response info = None \<or>
      h = At_hhdm \<and> memmap_response info \<noteq> None \<and> hhdm_response info = None \<or>
      h = At_pmm \<and> (\<exists>mm. memmap_response info = Some mm \<and> metadata_base mm = 0) \<and> hhdm_response info \<noteq> None"
  shows "\<exists>m'. kmain_memory env info m = Some (Inl (h, m'))"
proof -
  have f: "name_ok (be_file env)" using assms(1) by (simp add: boot_env_ok_def)
  consider "h = At_memmap" "memmap_response info = None"
    | mm where "h = At_hhdm" "memmap_response info = Some mm" "hhdm_response info = None"
    | mm offset where "h = At_pmm" "memmap_response info = Some mm" "metadata_base mm = 0" "hhdm_response info = Some offset"
    using assms(4) by (auto simp: not_None_eq)
  then show ?thesis
  proof cases
    case 1
    obtain tr where "log_line env (be_file env) LOGGING_LEVEL_ERROR ''Could not get Memory Map :('' m = Some (set_trace tr m)"
      by (rule log_line_serial [OF assms(1-3) f messages_plain(4)])
    then show ?thesis using 1 by (simp add: kmain_memory_def)
  next
    case 2
    obtain tr where "log_line env (be_file env) LOGGING_LEVEL_ERROR ''Could not get HHDM :('' m = Some (set_trace tr m)"
      by (rule log_line_serial [OF assms(1-3) f messages_plain(5)])
    then show ?thesis using 2 by (simp add: kmain_memory_def)
  next
    case 3
    obtain n k where d: "pmm_detect_memory mm = (n, k)" by (cases "pmm_detect_memory mm")
    have "find_metadata_base mm (pmm_get_num_required_pages n k) = 0"
      using 3(3) by (simp add: metadata_base_def required_pages_of_def d)
    then have "\<exists>pm. pmm_init (pg_pmm (m_paging m)) mm offset = Some (PMM_ERROR_INIT_FAILED, pm)"
      by (simp add: pmm_init_def d Let_def)
    then show ?thesis using 3 by (auto simp: kmain_memory_def Let_def)
  qed
qed

text \<open>Where the kernel is expected to give up, by what it is missing.\<close>

definition halts_at :: "boot_env \<Rightarrow> boot_info \<Rightarrow> halted" where
  "halts_at env info =
     (if \<not> base_revision_supported info then At_base_revision
      else if framebuffer_response info = None \<or> framebuffer_response info = Some [] then At_framebuffer
      else if no_loopback (be_dev env) then At_serial
      else if memmap_response info = None then At_memmap
      else if hhdm_response info = None then At_hhdm
      else if metadata_base (the (memmap_response info)) = 0 then At_pmm
      else At_end)"

lemma missing_halts:
  assumes "boot_env_ok env" "serial_takes (be_dev env)" "loops_back (be_dev env) \<or> no_loopback (be_dev env)"
    and "\<forall>fb fbs. framebuffer_response info = Some (fb # fbs) \<longrightarrow> framebuffer_ok fb"
    and "halts_at env info \<noteq> At_end"
  shows "\<exists>m'. kmain env info m = Some (halts_at env info, m')"
proof (cases "base_revision_supported info \<and> (\<exists>fb fbs. framebuffer_response info = Some (fb # fbs))")
  case False
  then show ?thesis by (auto simp: kmain_def halts_at_def neq_Nil_conv split: option.split list.split)
next
  case True
  then obtain fb fbs where fb: "base_revision_supported info" "framebuffer_response info = Some (fb # fbs)" by blast
  then have ok: "fb_ok fb" "20 \<le> unat (fb_width fb)" "22 \<le> unat (fb_height fb)"
    using assms(4) by (simp_all add: framebuffer_ok_def)
  obtain t where t: "kmain_output fb m = Some (m\<lparr>m_out := (m_out m)\<lparr>o_terminal := t\<rparr>,
      m_backend := logging_set_backend (Some terminal_backend) (m_backend m)\<rparr>)" "terminal_ok t"
    by (rule kmain_output_ok [OF ok])
  define m1 where "m1 = kmain_tables env (m\<lparr>m_out := (m_out m)\<lparr>o_terminal := t\<rparr>,
      m_backend := logging_set_backend (Some terminal_backend) (m_backend m)\<rparr>)"
  have m1: "terminal_ok (o_terminal (m_out m1))" "logs_to terminal_backend m1"
    using t(2) by (simp_all add: m1_def logs_to_def logging_set_backend_def)
  show ?thesis
  proof (cases "no_loopback (be_dev env)")
    case True
    then obtain m' where "kmain_serial env m1 = Some (Inl (At_serial, m'))"
      by (rule kmain_serial_missing [OF _ assms(1) m1])
    then show ?thesis using fb t(1) True by (simp add: kmain_def halts_at_def m1_def [symmetric])
  next
    case False
    then have "loops_back (be_dev env)" using assms(3) by blast
    then obtain tr where s: "kmain_serial env m1 = Some (Inr (m1\<lparr>m_out := (m_out m1)\<lparr>o_trace := tr\<rparr>,
        m_backend := logging_set_backend (Some (serial_backend (be_dev env) 0x3f8)) (m_backend m1)\<rparr>))"
      by (rule kmain_serial_ok)
    define m2 where "m2 = m1\<lparr>m_out := (m_out m1)\<lparr>o_trace := tr\<rparr>,
        m_backend := logging_set_backend (Some (serial_backend (be_dev env) 0x3f8)) (m_backend m1)\<rparr>"
    have w: "logs_to (serial_backend (be_dev env) 0x3f8) m2" by (simp add: m2_def)
    have "\<exists>m'. kmain_memory env info m2 = Some (Inl (halts_at env info, m'))"
      by (rule kmain_memory_missing [OF assms(1,2) w]) (use assms(5) fb False in \<open>auto simp: halts_at_def split: if_splits\<close>)
    then show ?thesis using fb t(1) s by (auto simp: kmain_def m1_def [symmetric] m2_def [symmetric])
  qed
qed

section \<open>Properties\<close>


text \<open>
  Once booted the kernel keeps running. In every state that is reached from the end of
  \<open>kmain\<close> by handling external interrupts, in any number and order, what the handler relies on
  holds, and each of the 16 interrupts is handled, acknowledged and returned from.
\<close>

theorem booted_kernel_runs:
  assumes "boot_env_ok env" "devices_ok (be_dev env)"
    and "base_revision_supported info" "framebuffer_response info = Some (fb # fbs)" "framebuffer_ok fb"
    and "memmap_response info = Some mm" "hhdm_response info = Some offset"
    and "memory_ok mm offset m" "test_page_unused offset m" "m_ps2 m = ps2_boot"
    and "handles_on env henv"
  shows "\<exists>m'. kmain env info m = Some (At_end, m') \<and>
    (\<forall>k. runs henv (kernel_of m') k \<longrightarrow> handler_ok k \<and>
       (\<forall>v err. 32 \<le> unat v \<and> unat v \<le> 47 \<longrightarrow>
          (\<exists>k'. interrupt_handler henv v err k = Some (Resumed k') \<and> acknowledged (unat v - 32) (k_trace k'))))"
proof -
  obtain m' where m': "kmain env info m = Some (At_end, m')" "booted env mm offset m m'"
    by (rule kmain_reaches_end [OF assms(1-10)])
  have henv: "env_ok henv" using handles_on_env_ok [OF assms(11)] assms(2) by (simp add: devices_ok_def)
  have start: "handler_ok (kernel_of m')" using m'(2) by (simp add: booted_def)
  have step: "\<exists>k'. interrupt_handler henv v err k = Some (Resumed k') \<and> acknowledged (unat v - 32) (k_trace k')"
    if "handler_ok k" "32 \<le> unat v" "unat v \<le> 47" for k v err
    by (rule interrupted_total [OF henv that]) blast
  show ?thesis using m'(1) runs_handler_ok [OF _ henv start] step by blast
qed

text \<open>
  With a keyboard attached, what is typed after the boot appears on the screen. The bytes of any
  scancodes arrive with keyboard interrupts, in batches of at most 32 key events between two timer
  interrupts, for any number of batches: all interrupts are returned from, and the terminal gets exactly
  the characters of the keys, in order, the modifier keys counted from none held at the boot.
\<close>

theorem booted_kernel_types:
  assumes "boot_env_ok env" "devices_ok (be_dev env)"
    and "base_revision_supported info" "framebuffer_response info = Some (fb # fbs)" "framebuffer_ok fb"
    and "memmap_response info = Some mm" "hhdm_response info = Some offset"
    and "memory_ok mm offset m" "test_page_unused offset m" "m_ps2 m = ps2_boot"
    and "keyboard_attached (be_dev env) ty" "handles_on env henv" "list_all batch_ok batches"
    and "events_of (concat (map reported (concat batches))) (ps2_kbd_modifiers ps2_kbd_boot) = (es, ms)"
  shows "\<exists>m' k. kmain env info m = Some (At_end, m') \<and>
    interrupts (typing_session henv batches) (kernel_of m') = Some k \<and>
    puts terminal_put_char (concat (map event_text es)) (o_terminal (m_out m')) = Some (k_terminal k)"
proof -
  obtain m' where m': "kmain env info m = Some (At_end, m')" "booted env mm offset m m'"
    by (rule kmain_reaches_end [OF assms(1-10)])
  have kbd: "terminal_ok (k_terminal (kernel_of m'))" "driver_ok (k_kbd (kernel_of m'))"
    "kbd_events (ps2_kbd_buffer (k_kbd (kernel_of m'))) = []"
    "ps2_kbd_modifiers (k_kbd (kernel_of m')) = ps2_kbd_modifiers ps2_kbd_boot"
    using booted_keyboard [OF m'(2) assms(11)] by (simp_all add: kernel_of_def)
  have henv: "env_ok henv" using handles_on_env_ok [OF assms(12)] assms(2) by (simp add: devices_ok_def)
  obtain k where "interrupts (typing_session henv batches) (kernel_of m') = Some k"
    "puts terminal_put_char (concat (map event_text es)) (k_terminal (kernel_of m')) = Some (k_terminal k)"
    using session_printed [OF henv kbd(1-3) assms(13) assms(14) [folded kbd(4)]] by blast
  then show ?thesis using m'(1) by (auto simp: kernel_of_def)
qed



text \<open>
  C37: what is missing decides where the kernel gives up: the base revision, the framebuffer, the serial
  port, the memory map, the offset of the direct map, and the space for the data of the memory manager
  are checked in this order.
\<close>

theorem kmain_missing:
  assumes "boot_env_ok env" "serial_takes (be_dev env)" "loops_back (be_dev env) \<or> no_loopback (be_dev env)"
    and "\<forall>fb fbs. framebuffer_response info = Some (fb # fbs) \<longrightarrow> framebuffer_ok fb"
    and "halts_at env info \<noteq> At_end"
  shows "\<exists>m'. kmain env info m = Some (halts_at env info, m')"
  by (rule missing_halts [OF assms])

section \<open>Witnesses\<close>

text \<open>
  A machine with a serial port in loopback mode, no PS/2 devices, a screen of 40 by 44 pixels, the
  memory map and the page table of the witnesses of paging.
\<close>

definition demo_board :: device where
  "demo_board tr port = (if port = 0x3fd then 0x20 else if port = COM1 then SERIAL_TEST_BYTE else 0)"

definition demo_boot_env :: boot_env where
  "demo_boot_env = \<lparr>be_dev = demo_board, be_isr = (\<lambda>v. 0xffffffff80000000 + 16 * of_nat v), be_gdt = 0xffffffff80010000,
     be_idt = 0xffffffff80020000, be_min_level = 0, be_file = [109, 0], be_registers_file = [114, 0],
     be_log_file = [108, 0], be_stack = replicate 256 0\<rparr>"

definition demo_info :: boot_info where
  "demo_info = \<lparr>base_revision_supported = True,
     framebuffer_response = Some [framebuffer (demo_screen 40 44)],
     memmap_response = Some demo_memmap, hhdm_response = Some 0xffff800000000000\<rparr>"

definition demo_machine :: machine where
  "demo_machine = \<lparr>m_out = \<lparr>o_terminal = demo_screen 40 44, o_trace = []\<rparr>, m_backend = logging_boot,
     m_gdt = replicate 5 zero_segment, m_gdtr = \<lparr>gdtr_limit = 0, gdtr_base = 0\<rparr>, m_idt = [], m_idtr = \<lparr>idtr_size = 0, idtr_offset = 0\<rparr>,
     m_if = False, m_paging = demo_cloning\<lparr>pg_pmm := pmm_boot_state, g_hhdm_offset := 0\<rparr>, m_ps2 = ps2_boot,
     m_cr3 = 0x9000\<rparr>"

lemma demo_boot_env_ok: "boot_env_ok demo_boot_env"
  by (simp add: boot_env_ok_def demo_boot_env_def name_ok_def)

lemma demo_board_ok: "devices_ok (be_dev demo_boot_env)"
proof -
  have "serial_takes demo_board"
    by (auto simp: gets_ready_def ready_after_def demo_board_def intro!: exI [of _ 0])
  moreover have "loops_back demo_board" by (simp add: loops_back_def demo_board_def)
  moreover have "cooperative demo_board"
  proof -
    have "ready_after demo_board 0x64 (\<lambda>b. \<not> ps2_input_buffer_full b) 0 tr" "drained_after demo_board 0 tr" for tr
      by (simp_all add: ready_after_def demo_board_def ps2_input_buffer_full_def ps2_output_buffer_full_def)
    then show ?thesis unfolding cooperative_def gets_ready_def by blast
  qed
  ultimately show ?thesis by (simp add: devices_ok_def demo_boot_env_def)
qed

lemma demo_framebuffer_ok: "framebuffer_ok (framebuffer (demo_screen 40 44))"
  using demo_screen_ok(1) by (simp add: framebuffer_ok_def terminal_ok_def demo_screen_fields)

lemma demo_loader:
  "loader_state 0xffff800000000000 demo_machine = demo_cloning\<lparr>pg_pmm := pmm_boot_state\<rparr>"
  "loader_root 0xffff800000000000 demo_machine = demo_root"
  by (simp_all add: loader_state_def loader_root_def demo_machine_def paging_init_def demo_cloning_def demo_paging_def)

lemma demo_free_pages: "10 \<le> card (memmap_pages demo_memmap - metadata_pages demo_memmap)"
proof -
  let ?S = "{0x100000, 0x101000, 0x102000, 0x103000, 0x104000, 0x105000, 0x106000,
    0x107000, 0x108000, 0x109000} :: u64 set"
  have "?S = (\<lambda>p. 0x100000 + of_nat p * 4096) ` {0, 1, 2, 3, 4, 5, 6, 7, 8, 9}" by simp
  also have "\<dots> \<subseteq> (\<lambda>p. 0x100000 + of_nat p * 4096) ` {..<16}" by (rule image_mono) simp
  finally have "?S \<subseteq> memmap_pages demo_memmap" unfolding demo_memmap_pages by blast
  moreover have "metadata_pages demo_memmap = {0x1000}"
    unfolding metadata_pages_def demo_metadata by auto
  ultimately have "?S \<subseteq> memmap_pages demo_memmap - metadata_pages demo_memmap" by simp
  moreover have "finite (memmap_pages demo_memmap)" unfolding demo_memmap_pages by simp
  ultimately have "card ?S \<le> card (memmap_pages demo_memmap - metadata_pages demo_memmap)"
    by (intro card_mono) simp_all
  then show ?thesis by simp
qed

lemma demo_memory_ok: "memory_ok demo_memmap 0xffff800000000000 demo_machine"
proof -
  let ?st = "demo_cloning\<lparr>pg_pmm := pmm_boot_state\<rparr>"
  have read: "read_entry ?st = read_entry demo_cloning" by (simp add: read_entry_def fun_eq_iff)
  have small: "unat a < 2 ^ 40 \<and> a + 0xffff800000000000 \<noteq> 0" if "a \<in> memmap_pages demo_memmap" for a
  proof -
    have u: "a \<in> usable_pages (pg_pmm demo_paging)"
      using that by (simp add: demo_paging_def regions_state_pages [OF demo_memmap_ok])
    then show ?thesis
      using paging_inv_pmm_inv(2,3) [OF demo_paging_inv u] by (simp add: demo_paging_def)
  qed
  have tables: "4096 dvd unat (t - 0xffff800000000000) \<and> t - 0xffff800000000000 \<notin> memmap_pages demo_memmap"
    if "valid_path p" "table_at demo_cloning demo_root p = Some t" for p t
    using demo_cloning_tables [OF that] demo_page_bounds(2) [of "0x9000"] demo_page_outside [of "0xa000"] by auto
  have "card (dom (pages demo_cloning demo_root)) \<le> card {[5, 0 :: nat]}"
    by (rule card_mono [OF _ demo_cloning_pages]) simp
  then have room: "3 * card (dom (pages demo_cloning demo_root)) + 4 \<le>
      card (memmap_pages demo_memmap - metadata_pages demo_memmap)"
    using demo_free_pages by simp
  have zero: "\<not> bit (read_entry demo_cloning (a + 0xffff800000000000) (of_nat i)) 0"
    if "a \<in> memmap_pages demo_memmap" "i < 512" for a i
    by (rule demo_page_clear [OF that])
  show ?thesis
    unfolding memory_ok_def Let_def demo_loader read table_at_pmm pages_pmm
    by (intro conjI) (use demo_memmap_ok demo_metadata(2) small tables room zero in \<open>auto simp: demo_machine_def\<close>)
qed

lemma demo_test_page: "test_page_unused 0xffff800000000000 demo_machine"
proof -
  have "virt_path 0x7fb000 s \<noteq> [5, 0]" for s
    by (cases s) (simp_all add: virt_path_def Let_def pml4_index_def pdpr_index_def)
  then show ?thesis using demo_cloning_pages by (auto simp: test_page_unused_def demo_loader)
qed

lemmas demo_boot = demo_boot_env_ok demo_board_ok demo_framebuffer_ok demo_memory_ok demo_test_page


definition demo_handler_env :: handler_env where
  "demo_handler_env = \<lparr>he_dev = demo_board, he_backend = \<lparr>backend_write = Some (\<lambda>c tr. serial_log_write demo_board c 0x3f8 tr),
     backend_level = LOGGING_LEVEL_DEBUG\<rparr>, he_cr2 = 0, he_file = [104, 0], he_log_file = [108, 0], he_stack = replicate 256 0\<rparr>"

lemma booted_kernel_runs_witness:
  "\<exists>m' k. kmain demo_boot_env demo_info demo_machine = Some (At_end, m') \<and>
     interrupt_handler demo_handler_env 32 0 (kernel_of m') = Some (Resumed k) \<and> acknowledged 0 (k_trace k)"
proof -
  have h: "handles_on demo_boot_env demo_handler_env"
    by (simp add: handles_on_def demo_handler_env_def demo_boot_env_def name_ok_def)
  obtain m' where m': "kmain demo_boot_env demo_info demo_machine = Some (At_end, m')"
    and run: "\<forall>k. runs demo_handler_env (kernel_of m') k \<longrightarrow> handler_ok k \<and>
       (\<forall>v err. 32 \<le> unat v \<and> unat v \<le> 47 \<longrightarrow>
          (\<exists>k'. interrupt_handler demo_handler_env v err k = Some (Resumed k') \<and> acknowledged (unat v - 32) (k_trace k')))"
    using booted_kernel_runs [OF demo_boot(1,2) _ _ demo_boot(3) _ _ demo_boot(4,5) _ h, of demo_info "[]"]
    by (auto simp: demo_info_def demo_machine_def)
  have "32 \<le> unat (32 :: u64) \<and> unat (32 :: u64) \<le> 47" by simp
  then obtain k where "interrupt_handler demo_handler_env 32 0 (kernel_of m') = Some (Resumed k)"
    "acknowledged (unat (32 :: u64) - 32) (k_trace k)" using run runs.idle by blast
  with m' show ?thesis by auto
qed

lemma demo_loader_pages: "dom (loader_pages 0xffff800000000000 demo_machine) \<subseteq> {[5, 0]}"
  using demo_cloning_pages by (auto simp: loader_pages_def demo_loader)


text \<open>The board with a keyboard on which A is typed with Shift, and with readable interrupt masks.\<close>

definition demo_keyboard_board :: device where
  "demo_keyboard_board tr port = (if port = 0x3fd then 0x20 else if port = COM1 then SERIAL_TEST_BYTE
     else if port = PIC1_DATA \<or> port = PIC2_DATA then last_written port tr
     else scripted (answers 0x47 0x22 0xaa 0x47 0xab 0x83 0xfa) tr port)"

lemma demo_keyboard_plays: "plays demo_keyboard_board (answers 0x47 0x22 0xaa 0x47 0xab 0x83 0xfa)"
  using scripted_plays [of "answers 0x47 0x22 0xaa 0x47 0xab 0x83 0xfa"] by (simp add: plays_def demo_keyboard_board_def)

lemma demo_keyboard_board_ok: "devices_ok demo_keyboard_board"
proof -
  have "serial_takes demo_keyboard_board"
    by (auto simp: gets_ready_def ready_after_def demo_keyboard_board_def intro!: exI [of _ 0])
  moreover have "loops_back demo_keyboard_board" by (simp add: loops_back_def demo_keyboard_board_def)
  ultimately show ?thesis using plays_cooperative [OF demo_keyboard_plays] by (simp add: devices_ok_def)
qed

definition demo_keyboard_handler :: handler_env where
  "demo_keyboard_handler = demo_handler_env\<lparr>he_dev := demo_keyboard_board,
     he_backend := \<lparr>backend_write = Some (\<lambda>c tr. serial_log_write demo_keyboard_board c 0x3f8 tr),
       backend_level = LOGGING_LEVEL_DEBUG\<rparr>\<rparr>"

lemma demo_keyboard_env:
  "boot_env_ok (demo_boot_env\<lparr>be_dev := demo_keyboard_board\<rparr>)"
  "handles_on (demo_boot_env\<lparr>be_dev := demo_keyboard_board\<rparr>) demo_keyboard_handler"
  "reads_back demo_keyboard_board PIC1_DATA" "reads_back demo_keyboard_board PIC2_DATA"
  using demo_boot_env_ok
  by (simp_all add: boot_env_ok_def handles_on_def demo_keyboard_handler_def demo_handler_env_def name_ok_def
      reads_back_def demo_keyboard_board_def)

text \<open>Shift and A in one batch, their release in the next.\<close>

lemma booted_kernel_types_witness:
  "\<exists>m' k. kmain (demo_boot_env\<lparr>be_dev := demo_keyboard_board\<rparr>) demo_info demo_machine = Some (At_end, m') \<and>
     interrupts (key_interrupts demo_keyboard_handler [0x2a, 0x1e] @ (demo_keyboard_handler, 32) #
       key_interrupts demo_keyboard_handler [0x9e, 0xaa] @ [(demo_keyboard_handler, 32)]) (kernel_of m') = Some k \<and>
     terminal_put_char 65 (o_terminal (m_out m')) = Some (k_terminal k)"
proof -
  let ?env = "demo_boot_env\<lparr>be_dev := demo_keyboard_board\<rparr>" and ?ms = "ps2_kbd_modifiers ps2_kbd_boot"
  let ?batches = "[[Plain 0x2a, Plain 0x1e], [Plain 0x9e, Plain 0xaa]]"
  note env = demo_keyboard_env(1) and h = demo_keyboard_env(2)
  have es: "concat (map event_text (fst (events_of (concat (map reported (concat ?batches))) ?ms))) = [65]"
    "list_all batch_ok ?batches"
    by code_simp+
  obtain evs ms where e: "events_of (concat (map reported (concat ?batches))) ?ms = (evs, ms)" by fastforce
  have "\<exists>m' k. kmain ?env demo_info demo_machine = Some (At_end, m') \<and>
      interrupts (typing_session demo_keyboard_handler ?batches) (kernel_of m') = Some k \<and>
      puts terminal_put_char (concat (map event_text evs)) (o_terminal (m_out m')) = Some (k_terminal k)"
    by (rule booted_kernel_types [OF env _ _ _ demo_framebuffer_ok _ _ demo_memory_ok demo_test_page _ _ h es(2) e, where fbs = "[]"])
      (use demo_keyboard_board_ok mf2_keyboard_attached [OF demo_keyboard_plays] in
        \<open>simp_all add: demo_info_def demo_machine_def\<close>)
  moreover have "concat (map event_text evs) = [65]" using es(1) e by simp
  ultimately show ?thesis by (auto simp: typing_session_def)
qed

lemma kmain_missing_witness:
  "\<exists>m'. kmain demo_boot_env (demo_info\<lparr>hhdm_response := None\<rparr>) demo_machine = Some (At_hhdm, m')"
proof -
  have l: "serial_takes (be_dev demo_boot_env)" "loops_back (be_dev demo_boot_env)"
    using demo_board_ok by (simp_all add: devices_ok_def)
  have h: "halts_at demo_boot_env (demo_info\<lparr>hhdm_response := None\<rparr>) = At_hhdm"
    using l(2) by (auto simp: halts_at_def demo_info_def loops_back_def no_loopback_def)
  have fb: "\<forall>fb fbs. framebuffer_response (demo_info\<lparr>hhdm_response := None\<rparr>) = Some (fb # fbs) \<longrightarrow> framebuffer_ok fb"
    using demo_framebuffer_ok by (simp add: demo_info_def)
  from kmain_missing [OF demo_boot_env_ok l(1) disjI1 [OF l(2)], OF fb, where m = demo_machine] show ?thesis unfolding h by simp
qed


end
