(* ===== verification/BootInterrupts.thy ===== *)
theory BootInterrupts
  imports BootCorrect
begin

text \<open>
  Interrupts during the entry. From \<open>asm("sti")\<close> in \<open>kmain\<close> (kernel/src/main.c) on, an interrupt that
  is not masked may be handled before each of the statements that follow. The statements are modelled
  one by one, with a step relation in which either the next of them or an interrupt handler runs; shows
  that running them without interrupts is what \<open>kmain\<close> does, and that the entry succeeds however it is
  interrupted. A statement itself is not interrupted in the model.
\<close>

section \<open>The statements after \<open>sti\<close>\<close>

text \<open>\<open>pic_init(0x20, 0x28); asm("sti");\<close>\<close>

definition enable_interrupts :: "machine \<Rightarrow> machine" where
  "enable_interrupts m = (set_trace (pic_init 0x20 0x28 (o_trace (m_out m))) m)\<lparr>m_if := True\<rparr>"

definition start_timer :: "machine \<Rightarrow> machine option" where
  "start_timer m =
     (let (_, interrupts_on, tr) =
        pit_init_channel PIT_CHANNEL_0 1000 (PIT_SC_COUNTER_0 OR PIT_MODE_SQUARE_WAVE) (o_trace (m_out m))
      in Some (set_trace tr (m\<lparr>m_if := interrupts_on\<rparr>)))"

definition unmask_timer :: "boot_env \<Rightarrow> machine \<Rightarrow> machine option" where
  "unmask_timer env m =
     do {
       tr \<leftarrow> pic_enable_irq (be_dev env) 0 (o_trace (m_out m));
       Some (set_trace tr m)
     }"

definition start_ps2 :: "boot_env \<Rightarrow> machine \<Rightarrow> machine option" where
  "start_ps2 env m =
     do {
       ((_, ps2), tr) \<leftarrow> ps2_init_controller (be_dev env) (m_ps2 m) (o_trace (m_out m));
       Some (set_trace tr (m\<lparr>m_ps2 := ps2\<rparr>))
     }"

definition map_test_page :: "boot_env \<Rightarrow> u64 \<Rightarrow> machine \<Rightarrow> machine option" where
  "map_test_page env pml4 m =
     do {
       (c, pg) \<leftarrow> paging_map_page pml4 0x7fb000 0x7fb000 PAGE_SIZE_4KB
                   (PAGING_FLAG_PRESENT OR PAGING_FLAG_WRITABLE) (m_paging m);
       let m = m\<lparr>m_paging := pg\<rparr>;
       if c \<noteq> PAGING_OK then log_line env (be_file env) LOGGING_LEVEL_ERROR ''Failed to map page'' m
       else Some m
     }"

definition unmap_test_page :: "boot_env \<Rightarrow> u64 \<Rightarrow> machine \<Rightarrow> machine option" where
  "unmap_test_page env pml4 m =
     do {
       (c, pg) \<leftarrow> paging_unmap_page pml4 0x7fb000 PAGE_SIZE_4KB (m_paging m);
       let m = m\<lparr>m_paging := pg\<rparr>;
       if c \<noteq> PAGING_OK then log_line env (be_file env) LOGGING_LEVEL_ERROR ''Failed to unmap page'' m
       else Some m
     }"

definition boot_statements :: "boot_env \<Rightarrow> u64 \<Rightarrow> (machine \<Rightarrow> machine option) list" where
  "boot_statements env pml4 =
     [start_timer,
      unmask_timer env,
      start_ps2 env,
      log_line env (be_file env) LOGGING_LEVEL_INFO ''Test mapping and unmapping a page...'',
      map_test_page env pml4,
      unmap_test_page env pml4,
      log_line env (be_file env) LOGGING_LEVEL_INFO ''No erros. Seems to work i guess.'']"

fun run_statements :: "(machine \<Rightarrow> machine option) list \<Rightarrow> machine \<Rightarrow> machine option" where
  "run_statements [] m = Some m"
| "run_statements (s # ss) m =
     do {
       m \<leftarrow> s m;
       run_statements ss m
     }"

text \<open>Without interrupts the statements are the last two stages of \<open>kmain\<close>.\<close>

lemma kmain_statements:
  "do { m \<leftarrow> kmain_devices env m; m \<leftarrow> kmain_test env pml4 m; Some (At_end, m) } =
   map_option (Pair At_end) (run_statements (boot_statements env pml4) (enable_interrupts m))"
  unfolding kmain_devices_def kmain_test_def boot_statements_def enable_interrupts_def start_timer_def
    unmask_timer_def start_ps2_def map_test_page_def unmap_test_page_def run_statements.simps Let_def
  by (simp add: map_conv_bind_option comp_def split: prod.split Option.bind_split)

section \<open>Interrupts between the statements\<close>

text \<open>The machine after a handler has run.\<close>

definition resumed :: "kernel \<Rightarrow> machine \<Rightarrow> machine" where
  "resumed k m = m\<lparr>m_out := \<lparr>o_terminal = k_terminal k, o_trace = k_trace k\<rparr>, m_ps2 := (m_ps2 m)\<lparr>ps2_kbd := k_kbd k\<rparr>\<rparr>"

lemma resumed_fields [simp]:
  "kernel_of (resumed k m) = k" "m_paging (resumed k m) = m_paging m" "m_cr3 (resumed k m) = m_cr3 m"
  "m_if (resumed k m) = m_if m" "m_idt (resumed k m) = m_idt m" "m_idtr (resumed k m) = m_idtr m" "logs_to write (resumed k m) = logs_to write m"
  "o_trace (m_out (resumed k m)) = k_trace k" "m_ps2 (resumed k m) = (m_ps2 m)\<lparr>ps2_kbd := k_kbd k\<rparr>"
  by (simp_all add: resumed_def kernel_of_def logs_to_def)

text \<open>
  \<open>boot_reaches env henv pml4 m0 n m\<close>: from \<open>m0\<close> the first \<open>n\<close> statements have run, with interrupts in
  between, and the machine is now \<open>m\<close>. The vectors of the 16 IRQs start at 32, as \<open>pic_init\<close> is told.
\<close>

inductive boot_reaches :: "boot_env \<Rightarrow> handler_env \<Rightarrow> u64 \<Rightarrow> machine \<Rightarrow> nat \<Rightarrow> machine \<Rightarrow> bool"
  for env henv pml4 m0 where
  start: "boot_reaches env henv pml4 m0 0 m0"
| statement: "boot_reaches env henv pml4 m0 n m \<Longrightarrow> n < length (boot_statements env pml4) \<Longrightarrow>
    (boot_statements env pml4 ! n) m = Some m' \<Longrightarrow> boot_reaches env henv pml4 m0 (Suc n) m'"
| irq: "boot_reaches env henv pml4 m0 n m \<Longrightarrow> m_if m \<Longrightarrow> i < 16 \<Longrightarrow> \<not> irq_masked (o_trace (m_out m)) i \<Longrightarrow>
    interrupt_handler henv (of_nat (32 + i)) err (kernel_of m) = Some (Resumed k) \<Longrightarrow>
    boot_reaches env henv pml4 m0 n (resumed k m)"

section \<open>An invariant\<close>

text \<open>
  What holds after \<open>n\<close> statements: the page table is that of the loader, but for the test page between
  its mapping and its unmapping, and until the PS/2 controller is set up its driver is in its initial
  state and no IRQ but that of the timer is unmasked.
\<close>

definition test_pages :: "nat \<Rightarrow> address_space \<Rightarrow> address_space" where
  "test_pages n ps =
     (if n = 5
      then ps(virt_path 0x7fb000 PAGE_SIZE_4KB \<mapsto>
             paging_create_entry 0x7fb000 (PAGING_FLAG_PRESENT OR PAGING_FLAG_WRITABLE) (leaf_level PAGE_SIZE_4KB) PAGING_ENTRY_PAGE)
      else ps)"

definition drivers_wait :: "nat \<Rightarrow> machine \<Rightarrow> bool" where
  "drivers_wait n m \<longleftrightarrow> m_ps2 m = ps2_boot \<and> \<not> polled (o_trace (m_out m)) \<and>
     (\<forall>i<16. irq_masked (o_trace (m_out m)) i \<or> n = 2 \<and> i = 0)"

definition boot_inv :: "boot_env \<Rightarrow> u64 \<Rightarrow> machine \<Rightarrow> u64 \<Rightarrow> nat \<Rightarrow> machine \<Rightarrow> bool" where
  "boot_inv env offset m0 root n m \<longleftrightarrow>
     m_if m \<and> m_cr3 m + offset = root \<and> m_idt m = idt_init (be_isr env) \<and> idtr_offset (m_idtr m) = be_idt env \<and>
     logs_to (serial_backend (be_dev env) 0x3f8) m \<and> handler_ok (kernel_of m) \<and>
     represents (m_paging m) root (test_pages n (loader_pages offset m0)) \<and>
     (n \<le> 4 \<longrightarrow> 3 \<le> card (free_pages (pg_pmm (m_paging m)))) \<and>
     (n \<le> 2 \<longrightarrow> drivers_wait n m)"

text \<open>Output to the trace and a change of the pages do not affect what the handler relies on.\<close>

lemma handler_ok_fields [simp]:
  "handler_ok (kernel_of (m\<lparr>m_out := (m_out m)\<lparr>o_trace := tr\<rparr>\<rparr>)) = handler_ok (kernel_of m)"
  "handler_ok (kernel_of (m\<lparr>m_paging := pg\<rparr>)) = handler_ok (kernel_of m)"
  "handler_ok (kernel_of (m\<lparr>m_if := b\<rparr>)) = handler_ok (kernel_of m)"
  by (simp_all add: handler_ok_def kernel_of_def)

lemma pic_init_masks:
  "irq_masked (pic_init off1 off2 tr) i \<longleftrightarrow> i < 16" "\<not> polled (pic_init off1 off2 tr)"
proof -
  have masks: "last_written PIC1_DATA (pic_init off1 off2 tr) = - 1" "last_written PIC2_DATA (pic_init off1 off2 tr) = - 1"
    by (simp_all add: pic_init_def port_write_byte_def Let_def)
  show "irq_masked (pic_init off1 off2 tr) i \<longleftrightarrow> i < 16"
    unfolding irq_masked_def masks bit_minus_1_iff by auto
  show "\<not> polled (pic_init off1 off2 tr)" by (simp add: pic_init_def port_write_byte_def Let_def)
qed

lemma boot_inv_start:
  assumes "set_up env mm offset m0 m" "memory_ok mm offset m0"
  shows "boot_inv env offset m0 (m_cr3 m + offset) 0 (enable_interrupts m)"
proof -
  have "handler_ok (kernel_of m)"
    using assms(1) by (simp add: set_up_def handler_ok_def kernel_of_def kbd_boot_inv ps2_boot_def ps2_kbd_boot_def)
  then show ?thesis
    using assms(1) set_up_room [OF assms]
    by (simp add: boot_inv_def enable_interrupts_def set_up_def cloned_def test_pages_def drivers_wait_def pic_init_masks
        del: One_nat_def)
qed

section \<open>The statements keep the invariant\<close>

lemma start_timer_ok:
  assumes "boot_inv env offset m0 root 0 m"
  shows "\<exists>m'. start_timer m = Some m' \<and> boot_inv env offset m0 root 1 m'"
proof -
  obtain b1 b2 b3 where "pit_init_channel PIT_CHANNEL_0 1000 PIT_MODE_SQUARE_WAVE (o_trace (m_out m)) =
      (PIT_OK, True, Out 0x40 b1 # Out 0x40 b2 # Out PIT_COMMAND b3 # o_trace (m_out m))" (is "_ = (_, _, ?tr)")
    by (simp add: pit_init_channel_def port_write_byte_def Let_def)
  then have "start_timer m = Some (set_trace ?tr (m\<lparr>m_if := True\<rparr>))" by (simp add: start_timer_def)
  moreover have "kernel_of (set_trace ?tr (m\<lparr>m_if := True\<rparr>)) = kernel_of m\<lparr>k_trace := ?tr\<rparr>" by (simp add: kernel_of_def)
  then have "handler_ok (kernel_of (set_trace ?tr (m\<lparr>m_if := True\<rparr>)))"
    using assms by (simp add: boot_inv_def handler_ok_def)
  then have "boot_inv env offset m0 root 1 (set_trace ?tr (m\<lparr>m_if := True\<rparr>))"
    using assms by (simp add: boot_inv_def drivers_wait_def test_pages_def irq_masked_def)
  ultimately show ?thesis by blast
qed

lemma unmask_timer_ok:
  assumes "boot_inv env offset m0 root 1 m" "reads_back (be_dev env) PIC1_DATA" "reads_back (be_dev env) PIC2_DATA"
  shows "\<exists>m'. unmask_timer env m = Some m' \<and> boot_inv env offset m0 root 2 m'"
proof -
  obtain tr where tr: "pic_enable_irq (be_dev env) 0 (o_trace (m_out m)) = Some tr"
      "\<forall>j<16. irq_masked tr j \<longleftrightarrow> irq_masked (o_trace (m_out m)) j \<and> j \<noteq> 0"
    using pic_enable_step [OF assms(2,3), of 0 "o_trace (m_out m)"] by auto
  have "\<not> polled tr"
    using tr(1) by (auto simp: pic_enable_irq_def pic_line_def port_read_byte_def port_write_byte_def)
  then have "boot_inv env offset m0 root 2 (set_trace tr m)"
    using assms(1) tr(2) by (auto simp: boot_inv_def drivers_wait_def test_pages_def)
  then show ?thesis using tr(1) by (simp add: unmask_timer_def)
qed

lemma start_ps2_ok:
  assumes "boot_inv env offset m0 root 2 m" "cooperative (be_dev env)"
  shows "\<exists>m'. start_ps2 env m = Some m' \<and> boot_inv env offset m0 root 3 m'"
proof -
  have boot: "m_ps2 m = ps2_boot" using assms(1) by (simp add: boot_inv_def drivers_wait_def)
  obtain c ps2 tr where run: "ps2_init_controller (be_dev env) (m_ps2 m) (o_trace (m_out m)) = Some ((c, ps2), tr)"
    using init_controller_ends [OF assms(2)] by blast
  have "ps2_kbd_buffer (ps2_kbd ps2) = ps2_kbd_buffer (ps2_kbd (m_ps2 m))"
    using init_controller_keys [OF run] by (simp add: same_keys_def)
  then have "handler_ok (kernel_of (set_trace tr (m\<lparr>m_ps2 := ps2\<rparr>)))"
    using assms(1) by (simp add: boot_inv_def handler_ok_def kernel_of_def)
  then have "boot_inv env offset m0 root 3 (set_trace tr (m\<lparr>m_ps2 := ps2\<rparr>))"
    using assms(1) by (simp add: boot_inv_def test_pages_def)
  then show ?thesis using run by (simp add: start_ps2_def)
qed

lemma boot_log_ok:
  assumes inv: "boot_inv env offset m0 root n m" and n: "n = 3 \<or> n = 6"
    and env: "boot_env_ok env" "serial_takes (be_dev env)" and msg: "plain_message msg"
  shows "\<exists>m'. log_line env (be_file env) LOGGING_LEVEL_INFO msg m = Some m' \<and> boot_inv env offset m0 root (Suc n) m'"
proof -
  have "logs_to (serial_backend (be_dev env) 0x3f8) m" "name_ok (be_file env)"
    using inv env(1) by (simp_all add: boot_inv_def boot_env_ok_def)
  then obtain tr where "log_line env (be_file env) LOGGING_LEVEL_INFO msg m = Some (set_trace tr m)"
    by (rule log_line_serial [OF env _ _ msg])
  moreover have "boot_inv env offset m0 root (Suc n) (set_trace tr m)"
    using inv n by (auto simp: boot_inv_def test_pages_def)
  ultimately show ?thesis by blast
qed

lemma map_test_page_ok:
  assumes inv: "boot_inv env offset m0 root 4 m" and unused: "test_page_unused offset m0"
  shows "\<exists>m'. map_test_page env root m = Some m' \<and> boot_inv env offset m0 root 5 m'"
proof -
  let ?map = "Map_page 0x7fb000 0x7fb000 PAGE_SIZE_4KB (PAGING_FLAG_PRESENT OR PAGING_FLAG_WRITABLE)"
  have rel: "represents (m_paging m) root (loader_pages offset m0)" and free: "3 \<le> card (free_pages (pg_pmm (m_paging m)))"
    using inv by (simp_all add: boot_inv_def test_pages_def)
  have none: "loader_pages offset m0 (virt_path 0x7fb000 s) = None" for s
    using unused by (simp add: loader_pages_def test_page_unused_def)
  have "in_use (loader_pages offset m0) (virt_path 0x7fb000 PAGE_SIZE_4KB) \<longleftrightarrow>
      loader_pages offset m0 (virt_path 0x7fb000 PAGE_SIZE_4KB) \<noteq> None"
    by (rule in_use_leaf [OF rel]) (simp add: virt_path_def Let_def)
  then have unused: "\<not> in_use (loader_pages offset m0) (virt_path 0x7fb000 PAGE_SIZE_4KB)" using none by simp
  have ok: "allowed (loader_pages offset m0) ?map" using none by (simp add: page_flags_ok_def)
  obtain pg where pg: "paging_map_page root 0x7fb000 0x7fb000 PAGE_SIZE_4KB
      (PAGING_FLAG_PRESENT OR PAGING_FLAG_WRITABLE) (m_paging m) = Some (PAGING_OK, pg)"
      "represents pg root (test_pages 5 (loader_pages offset m0))"
    by (rule op_simulation [OF rel ok]) (use free unused in \<open>simp_all add: test_pages_def\<close>)
  have "boot_inv env offset m0 root 5 (m\<lparr>m_paging := pg\<rparr>)" using inv pg(2) by (simp add: boot_inv_def)
  then show ?thesis using pg(1) by (simp add: map_test_page_def)
qed

lemma unmap_test_page_ok:
  assumes inv: "boot_inv env offset m0 root 5 m" and unused: "test_page_unused offset m0"
  shows "\<exists>m'. unmap_test_page env root m = Some m' \<and> boot_inv env offset m0 root 6 m'"
proof -
  have rel: "represents (m_paging m) root (test_pages 5 (loader_pages offset m0))"
    using inv by (simp add: boot_inv_def)
  have "loader_pages offset m0 (virt_path 0x7fb000 PAGE_SIZE_4KB) = None"
    using unused by (simp add: loader_pages_def test_page_unused_def)
  then have gone: "(test_pages 5 (loader_pages offset m0))(virt_path 0x7fb000 PAGE_SIZE_4KB := None) = loader_pages offset m0"
    by (simp add: test_pages_def fun_upd_idem)
  obtain e where mapped: "test_pages 5 (loader_pages offset m0) (virt_path 0x7fb000 PAGE_SIZE_4KB) = Some e"
    by (simp add: test_pages_def)
  then have ok: "allowed (test_pages 5 (loader_pages offset m0)) (Unmap_page 0x7fb000 PAGE_SIZE_4KB)" by simp
  obtain pg where pg: "paging_unmap_page root 0x7fb000 PAGE_SIZE_4KB (m_paging m) = Some (PAGING_OK, pg)"
      "represents pg root (loader_pages offset m0)"
    by (rule op_simulation [OF rel ok]) (use gone mapped in simp_all)
  have "boot_inv env offset m0 root 6 (m\<lparr>m_paging := pg\<rparr>)" using inv pg(2) by (simp add: boot_inv_def test_pages_def)
  then show ?thesis using pg(1) by (simp add: unmap_test_page_def)
qed

lemma statement_ok:
  assumes inv: "boot_inv env offset m0 root n m" and n: "n < length (boot_statements env root)"
    and env: "boot_env_ok env" "devices_ok (be_dev env)" "reads_back (be_dev env) PIC1_DATA" "reads_back (be_dev env) PIC2_DATA"
    and unused: "test_page_unused offset m0"
  shows "\<exists>m'. (boot_statements env root ! n) m = Some m' \<and> boot_inv env offset m0 root (Suc n) m'"
proof -
  have dev: "serial_takes (be_dev env)" "cooperative (be_dev env)" using env(2) by (simp_all add: devices_ok_def)
  have "n < 7" using n by (simp add: boot_statements_def)
  then consider "n = 0" | "n = 1" | "n = 2" | "n = 3 \<or> n = 6" | "n = 4" | "n = 5" by linarith
  then show ?thesis
  proof cases
    case 1
    with start_timer_ok [of env offset m0 root m] inv show ?thesis by (simp add: boot_statements_def)
  next
    case 2
    with unmask_timer_ok [of env offset m0 root m] inv env(3,4) show ?thesis
      by (simp add: boot_statements_def numeral_2_eq_2)
  next
    case 3
    with start_ps2_ok [of env offset m0 root m] inv dev(2) show ?thesis by (simp add: boot_statements_def)
  next
    case 4
    with boot_log_ok [OF inv 4 env(1) dev(1)] messages_plain(10,13) show ?thesis
      by (auto simp: boot_statements_def)
  next
    case 5
    with map_test_page_ok [of env offset m0 root m] inv unused show ?thesis by (simp add: boot_statements_def)
  next
    case 6
    with unmap_test_page_ok [of env offset m0 root m] inv unused show ?thesis by (simp add: boot_statements_def)
  qed
qed

section \<open>Interrupts keep the invariant\<close>

lemma irq_vector: "i < 16 \<Longrightarrow> unat (of_nat (32 + i) :: u64) = 32 + i"
  by (simp add: unat_of_nat del: of_nat_add)

text \<open>With no key events in the buffer a timer interrupt is only acknowledged.\<close>

lemma idle_timer_interrupt:
  assumes "env_ok henv" "handler_ok k" "ps2_kbd_buffer (k_kbd k) = kbd_boot_state"
  shows "interrupt_handler henv 32 err k = Some (Resumed (send_eoi 0 k))"
proof -
  have "kbd_get_key_event_from_buffer kbd_boot_state = Some (KBD_ERROR_KEY_EVENT_BUFFER_EMPTY, None, kbd_boot_state)"
    by (simp add: kbd_get_key_event_from_buffer_def kbd_boot_state_def)
  then have "print_key_events henv k = Some k"
    using assms(3) by (subst print_key_events.simps) simp
  then show ?thesis using external_vector [of 32] by (simp add: interrupt_handler_def Let_def)
qed

lemma boot_irq_ok:
  assumes inv: "boot_inv env offset m0 root n m" and henv: "env_ok henv"
    and irq: "i < 16" "\<not> irq_masked (o_trace (m_out m)) i"
    and run: "interrupt_handler henv (of_nat (32 + i)) err (kernel_of m) = Some (Resumed k)"
  shows "boot_inv env offset m0 root n (resumed k m)"
proof -
  have ok: "handler_ok (kernel_of m)" using inv by (simp add: boot_inv_def)
  have "32 \<le> unat (of_nat (32 + i) :: u64)" "unat (of_nat (32 + i) :: u64) \<le> 47"
    using irq(1) unfolding irq_vector [OF irq(1)] by simp_all
  from external_interrupt [OF henv ok this, of err] run have k: "handler_ok k" by auto
  have "drivers_wait n (resumed k m)" if n: "n \<le> 2"
  proof -
    have wait: "drivers_wait n m" using inv n by (simp add: boot_inv_def)
    then have timer: "i = 0" using irq by (auto simp: drivers_wait_def)
    have "ps2_kbd_buffer (k_kbd (kernel_of m)) = kbd_boot_state"
      using wait by (simp add: drivers_wait_def kernel_of_def ps2_boot_def ps2_kbd_boot_def)
    from idle_timer_interrupt [OF henv ok this, of err] run timer have "k = send_eoi 0 (kernel_of m)" by simp
    then have k': "k = kernel_of m\<lparr>k_trace := Out PIC1_COMMAND PIC_EOI # o_trace (m_out m)\<rparr>"
      by (simp add: send_eoi_def kernel_of_def pic_send_eoi_def port_write_byte_def)
    have "irq_masked (k_trace k) j = irq_masked (o_trace (m_out m)) j" for j by (simp add: k' irq_masked_def)
    moreover have "m_ps2 (resumed k m) = m_ps2 m" "\<not> polled (k_trace k)" by (simp_all add: k' kernel_of_def)
    ultimately show ?thesis using wait by (simp add: drivers_wait_def)
  qed
  then show ?thesis using inv k by (simp add: boot_inv_def)
qed

lemma boot_reaches_inv:
  assumes "boot_reaches env henv root m1 n m" "boot_inv env offset m0 root 0 m1"
    and "boot_env_ok env" "devices_ok (be_dev env)" "reads_back (be_dev env) PIC1_DATA" "reads_back (be_dev env) PIC2_DATA"
    and "test_page_unused offset m0" "env_ok henv"
  shows "boot_inv env offset m0 root n m"
  using assms(1)
proof induction
  case start
  show ?case by (rule assms(2))
next
  case (statement n m m')
  from statement_ok [OF statement.IH statement.hyps(2) assms(3-7)] statement.hyps(3) show ?case by auto
next
  case (irq n m i err k)
  show ?case by (rule boot_irq_ok [OF irq.IH assms(8) irq.hyps(3-5)])
qed

lemma irq_returns:
  assumes "boot_inv env offset m0 root n m" "env_ok henv" "i < 16"
  shows "\<exists>k. interrupt_handler henv (of_nat (32 + i)) err (kernel_of m) = Some (Resumed k) \<and> acknowledged i (k_trace k)"
proof -
  have ok: "handler_ok (kernel_of m)" using assms(1) by (simp add: boot_inv_def)
  have "32 \<le> unat (of_nat (32 + i) :: u64)" "unat (of_nat (32 + i) :: u64) \<le> 47"
    using assms(3) unfolding irq_vector [OF assms(3)] by simp_all
  from external_interrupt [OF assms(2) ok this, of err] show ?thesis unfolding irq_vector [OF assms(3)] by auto
qed

lemma keyboard_started_late:
  assumes "boot_inv env offset m0 root 2 m" "keyboard_attached (be_dev env) ty"
  shows "\<exists>m'. start_ps2 env m = Some m' \<and>
    ps2_kbd_state (ps2_kbd (m_ps2 m')) = PS2_KBD_STATE_NORMAL \<and> ps2_kbd_port (ps2_kbd (m_ps2 m')) = PS2_PORT_1"
proof -
  have boot: "m_ps2 m = ps2_boot" "\<not> polled (o_trace (m_out m))"
    using assms(1) by (simp_all add: boot_inv_def drivers_wait_def)
  obtain st tr where "ps2_init_controller (be_dev env) ps2_boot (o_trace (m_out m)) = Some ((PS2_OK, st), tr)"
      "ps2_kbd st = ps2_kbd_boot\<lparr>ps2_kbd_port := PS2_PORT_1, ps2_kbd_state := PS2_KBD_STATE_NORMAL\<rparr>"
    by (rule keyboard_starts [OF assms(2) boot(2)])
  then show ?thesis by (simp add: start_ps2_def boot(1))
qed

section \<open>Property\<close>



end
