(* ===== verification/Processor.thy ===== *)
theory Processor
  imports Prelude
begin

text \<open>
  The part of the processor that the assembly files of the kernel use (kernel/src/cpu/isr.asm and
  gdt_load_segments.asm): general registers, instruction pointer, flags, segment registers, a stack in
  memory, and their instructions as the manuals of the architecture define them. Shows how pushing and
  popping change the top of the stack and nothing above its base.

  Memory is a function from the address of a quadword to its value. It is only accessed through the
  stack pointer, by multiples of 8, so that quadwords never overlap.
\<close>

section \<open>State\<close>

datatype register = RAX | RBX | RCX | RDX | RSI | RDI | RBP | R8 | R9 | R10 | R11 | R12 | R13 | R14 | R15

datatype segment = CS | DS | ES | FS | GS | SS

record cpu =
  c_regs :: "register \<Rightarrow> u64"
  c_rsp :: u64
  c_rip :: u64
  c_flags :: u64
  c_segs :: "segment \<Rightarrow> u16"
  c_mem :: "u64 \<Rightarrow> u64"

definition push :: "u64 \<Rightarrow> cpu \<Rightarrow> cpu" where
  "push w c = c\<lparr>c_rsp := c_rsp c - 8, c_mem := (c_mem c)(c_rsp c - 8 := w)\<rparr>"

definition stack_top :: "cpu \<Rightarrow> u64" where
  "stack_top c = c_mem c (c_rsp c)"

definition drop_top :: "cpu \<Rightarrow> cpu" where
  "drop_top c = c\<lparr>c_rsp := c_rsp c + 8\<rparr>"

lemma push_fields [simp]:
  "c_rsp (push w c) = c_rsp c - 8" "c_mem (push w c) = (c_mem c)(c_rsp c - 8 := w)" "c_regs (push w c) = c_regs c"
  "c_segs (push w c) = c_segs c" "c_flags (push w c) = c_flags c" "c_rip (push w c) = c_rip c"
  by (simp_all add: push_def)

lemma drop_top_fields [simp]:
  "c_rsp (drop_top c) = c_rsp c + 8" "c_mem (drop_top c) = c_mem c" "c_regs (drop_top c) = c_regs c"
  "c_segs (drop_top c) = c_segs c" "c_flags (drop_top c) = c_flags c" "c_rip (drop_top c) = c_rip c"
  by (simp_all add: drop_top_def)

section \<open>Instructions\<close>

datatype instruction =
    Push_imm u64
  | Push register
  | Pop register
  | Mov register u64
  | Mov_low register u16
  | Mov_rsp register
  | Mov_segment segment register
  | Add_rsp u64
  | Ret
  | Retfq
  | Iretq

text \<open>
  \<open>Mov r w\<close> loads the address of a label (\<open>lea\<close>), \<open>Mov_low r w\<close> a constant into the low 16 bits of
  the register (\<open>mov ax, w\<close>), which keeps the others, \<open>Mov_rsp r\<close> the stack pointer. \<open>mov ds, ax\<close>
  takes the low 16 bits. \<open>retfq\<close> pops the instruction pointer and CS, \<open>iretq\<close> in 64-bit
  mode also the flags, the stack pointer and SS.
\<close>

definition set_low :: "u64 \<Rightarrow> u16 \<Rightarrow> u64" where
  "set_low w v = (w AND NOT 0xffff) OR ucast v"

lemma ucast_set_low [simp]: "(ucast (set_low w v) :: u16) = v"
proof -
  have m: "(0xffff :: u64) = mask 16" by (simp add: mask_eq_exp_minus_1)
  show ?thesis unfolding set_low_def m by (rule bit_word_eqI) (auto simp: bit_simps)
qed

fun exec :: "instruction \<Rightarrow> cpu \<Rightarrow> cpu" where
  "exec (Push_imm w) c = push w c"
| "exec (Push r) c = push (c_regs c r) c"
| "exec (Pop r) c = (drop_top c)\<lparr>c_regs := (c_regs c)(r := stack_top c)\<rparr>"
| "exec (Mov r w) c = c\<lparr>c_regs := (c_regs c)(r := w)\<rparr>"
| "exec (Mov_low r w) c = c\<lparr>c_regs := (c_regs c)(r := set_low (c_regs c r) w)\<rparr>"
| "exec (Mov_rsp r) c = c\<lparr>c_regs := (c_regs c)(r := c_rsp c)\<rparr>"
| "exec (Mov_segment s r) c = c\<lparr>c_segs := (c_segs c)(s := ucast (c_regs c r))\<rparr>"
| "exec (Add_rsp w) c = c\<lparr>c_rsp := c_rsp c + w\<rparr>"
| "exec Ret c = (drop_top c)\<lparr>c_rip := stack_top c\<rparr>"
| "exec Retfq c =
     (let rip = stack_top c;
          c = drop_top c;
          cs = stack_top c;
          c = drop_top c
      in c\<lparr>c_rip := rip, c_segs := (c_segs c)(CS := ucast cs)\<rparr>)"
| "exec Iretq c =
     (let rip = stack_top c;
          c = drop_top c;
          cs = stack_top c;
          c = drop_top c;
          flags = stack_top c;
          c = drop_top c;
          rsp = stack_top c;
          c = drop_top c;
          ss = stack_top c
      in c\<lparr>c_rip := rip, c_segs := (c_segs c)(CS := ucast cs, SS := ucast ss), c_flags := flags, c_rsp := rsp\<rparr>)"

text \<open>Instructions in a row; the instruction pointer is set by the returns only.\<close>

fun exec_list :: "instruction list \<Rightarrow> cpu \<Rightarrow> cpu" where
  "exec_list [] c = c"
| "exec_list (i # is) c = exec_list is (exec i c)"

lemma exec_list_append: "exec_list (is @ js) c = exec_list js (exec_list is c)"
  by (induction "is" arbitrary: c) simp_all

section \<open>The stack\<close>

text \<open>
  \<open>stacked base mem ws c\<close>: the stack below \<open>base\<close> holds the quadwords \<open>ws\<close>, the top first, and the
  memory from \<open>base\<close> on is that of \<open>mem\<close>.
\<close>

definition stacked :: "u64 \<Rightarrow> (u64 \<Rightarrow> u64) \<Rightarrow> u64 list \<Rightarrow> cpu \<Rightarrow> bool" where
  "stacked base mem ws c \<longleftrightarrow>
     8 * length ws \<le> unat base \<and> c_rsp c = base - of_nat (8 * length ws) \<and>
     (\<forall>i<length ws. c_mem c (c_rsp c + of_nat (8 * i)) = ws ! i) \<and>
     (\<forall>a. unat base \<le> unat a \<longrightarrow> c_mem c a = mem a)"

lemma stacked_start: "stacked (c_rsp c) (c_mem c) [] c"
  by (simp add: stacked_def)

lemma stackedD:
  assumes "stacked base mem ws c"
  shows "8 * length ws \<le> unat base" "c_rsp c = base - of_nat (8 * length ws)"
    "i < length ws \<Longrightarrow> c_mem c (c_rsp c + of_nat (8 * i)) = ws ! i" "unat base \<le> unat a \<Longrightarrow> c_mem c a = mem a"
  using assms unfolding stacked_def by blast+

text \<open>The stack pointer as a number.\<close>

lemma unat_eight:
  assumes "8 * n \<le> unat (base :: u64)"
  shows "unat (of_nat (8 * n) :: u64) = 8 * n"
  using le_less_trans [OF assms unat_u64_lt] by (intro unat_of_nat_u64) simp

lemma stacked_rsp:
  assumes "stacked base mem ws c"
  shows "unat (c_rsp c) = unat base - 8 * length ws"
proof -
  have "unat (of_nat (8 * length ws) :: u64) = 8 * length ws" by (rule unat_eight [OF stackedD(1) [OF assms]])
  then show ?thesis
    unfolding stackedD(2) [OF assms] using stackedD(1) [OF assms] by (subst unat_sub) (simp_all add: word_le_nat_alt)
qed

lemma stacked_cell:
  assumes "stacked base mem ws c" "i \<le> length ws"
  shows "unat (c_rsp c + of_nat (8 * i)) = unat (c_rsp c) + 8 * i"
proof -
  have le: "unat (c_rsp c) + 8 * i \<le> unat base"
    using assms(2) stacked_rsp [OF assms(1)] stackedD(1) [OF assms(1)] by simp
  then have i: "unat (of_nat (8 * i) :: u64) = 8 * i" by (intro unat_eight [of _ base]) simp
  have "unat (c_rsp c) + 8 * i < 2 ^ 64" using le_less_trans [OF le unat_u64_lt] by simp
  then show ?thesis using i by (subst unat_add_u64) simp_all
qed

lemma stacked_push:
  assumes st: "stacked base mem ws c" and room: "8 * Suc (length ws) \<le> unat base"
  shows "stacked base mem (w # ws) (push w c)"
proof -
  have rsp: "unat (c_rsp c) = unat base - 8 * length ws" by (rule stacked_rsp [OF st])
  then have "8 \<le> unat (c_rsp c)" using room by simp
  then have new: "unat (c_rsp c - 8) = unat (c_rsp c) - 8" by (subst unat_sub) (simp_all add: word_le_nat_alt)
  have other: "c_rsp c + of_nat (8 * i) \<noteq> c_rsp c - 8" if "i < length ws" for i
  proof -
    have "unat (c_rsp c - 8) < unat (c_rsp c + of_nat (8 * i))"
      unfolding stacked_cell [OF st less_imp_le [OF that]] new using \<open>8 \<le> unat (c_rsp c)\<close> by linarith
    then show ?thesis by auto
  qed
  show ?thesis
    unfolding stacked_def
  proof (intro conjI allI impI)
    show "8 * length (w # ws) \<le> unat base" using room by simp
    show "c_rsp (push w c) = base - of_nat (8 * length (w # ws))"
      using st by (simp add: stacked_def push_def algebra_simps)
    show "c_mem (push w c) a = mem a" if "unat base \<le> unat a" for a
    proof -
      have "a \<noteq> c_rsp c - 8" using that rsp new \<open>8 \<le> unat (c_rsp c)\<close> by auto
      then show ?thesis using st that by (simp add: stacked_def push_def)
    qed
    show "c_mem (push w c) (c_rsp (push w c) + of_nat (8 * i)) = (w # ws) ! i" if "i < length (w # ws)" for i
    proof (cases i)
      case (Suc j)
      then have "c_rsp (push w c) + of_nat (8 * i) = c_rsp c + of_nat (8 * j)" by (simp add: push_def algebra_simps)
      moreover have "c_mem c (c_rsp c + of_nat (8 * j)) = ws ! j" using that Suc by (intro stackedD(3) [OF st]) simp
      moreover have "c_rsp c + of_nat (8 * j) \<noteq> c_rsp c - 8" using that Suc by (intro other) simp
      ultimately show ?thesis using Suc by (simp only: push_fields fun_upd_apply if_False nth_Cons_Suc)
    qed (simp add: push_def)
  qed
qed

lemma stacked_top: "stacked base mem (w # ws) c \<Longrightarrow> stack_top c = w"
  by (auto simp: stacked_def stack_top_def dest: spec [of _ "0 :: nat"])

lemma stacked_drop:
  assumes "stacked base mem (w # ws) c"
  shows "stacked base mem ws (drop_top c)"
  unfolding stacked_def
proof (intro conjI allI impI)
  show "8 * length ws \<le> unat base" using assms by (simp add: stacked_def)
  show rsp: "c_rsp (drop_top c) = base - of_nat (8 * length ws)"
    using assms by (simp add: stacked_def drop_top_def)
  show "c_mem (drop_top c) a = mem a" if "unat base \<le> unat a" for a
    using assms that by (simp add: stacked_def drop_top_def)
  show "c_mem (drop_top c) (c_rsp (drop_top c) + of_nat (8 * i)) = ws ! i" if "i < length ws" for i
  proof -
    have "c_mem c (c_rsp c + of_nat (8 * Suc i)) = (w # ws) ! Suc i" using assms that unfolding stacked_def by (metis Suc_less_eq length_Cons)
    then show ?thesis by (simp add: drop_top_def algebra_simps)
  qed
qed

text \<open>What does not move the stack pointer or write to the stack keeps it.\<close>

lemma stacked_kept:
  assumes "stacked base mem ws c" "c_rsp c' = c_rsp c" "\<And>a. unat (c_rsp c) \<le> unat a \<Longrightarrow> c_mem c' a = c_mem c a"
  shows "stacked base mem ws c'"
  unfolding stacked_def
proof (intro conjI allI impI)
  show "8 * length ws \<le> unat base" "c_rsp c' = base - of_nat (8 * length ws)"
    using stackedD(1,2) [OF assms(1)] assms(2) by simp_all
  show "c_mem c' a = mem a" if "unat base \<le> unat a" for a
    using stackedD(4) [OF assms(1) that] assms(3) [of a] that stacked_rsp [OF assms(1)] by simp
  show "c_mem c' (c_rsp c' + of_nat (8 * i)) = ws ! i" if i: "i < length ws" for i
  proof -
    have "unat (c_rsp c) \<le> unat (c_rsp c + of_nat (8 * i))"
      unfolding stacked_cell [OF assms(1) less_imp_le [OF i]] by simp
    then show ?thesis using stackedD(3) [OF assms(1) i] assms(3) unfolding assms(2) by simp
  qed
qed

section \<open>Saving and restoring registers\<close>

lemma exec_pushes:
  assumes "stacked base mem ws c" "8 * (length rs + length ws) \<le> unat base"
  shows "stacked base mem (rev (map (c_regs c) rs) @ ws) (exec_list (map Push rs) c) \<and>
    c_regs (exec_list (map Push rs) c) = c_regs c \<and> c_segs (exec_list (map Push rs) c) = c_segs c"
  using assms
proof (induction rs arbitrary: c ws)
  case (Cons r rs)
  have "stacked base mem (c_regs c r # ws) (push (c_regs c r) c)"
    by (rule stacked_push [OF Cons.prems(1)]) (use Cons.prems(2) in simp)
  from Cons.IH [OF this] Cons.prems(2) show ?case by simp
qed simp

lemma exec_pops:
  assumes "stacked base mem (map f rs @ ws) c"
  shows "stacked base mem ws (exec_list (map Pop rs) c) \<and>
    c_regs (exec_list (map Pop rs) c) = (\<lambda>r. if r \<in> set rs then f r else c_regs c r) \<and>
    c_segs (exec_list (map Pop rs) c) = c_segs c"
  using assms
proof (induction rs arbitrary: c)
  case (Cons r rs)
  let ?c = "(drop_top c)\<lparr>c_regs := (c_regs c)(r := stack_top c)\<rparr>"
  have st: "stacked base mem (f r # map f rs @ ws) c" using Cons.prems by simp
  have "stacked base mem (map f rs @ ws) ?c"
    by (rule stacked_kept [OF stacked_drop [OF st]]) simp_all
  from Cons.IH [OF this] stacked_top [OF st] show ?case by auto
qed auto

end
