(* ===== verification/SegmentReload.thy ===== *)
theory SegmentReload
  imports Processor DescriptorTables
begin

text \<open>
  The reload of the segment registers after a new descriptor table is loaded
  (kernel/src/cpu/gdt_load_segments.asm). Shows that it returns to its caller, uses RAX only, and leaves
  selectors that stand for the kernel's segments in the table of \<open>gdt_init\<close>.
\<close>

section \<open>The function\<close>

text \<open>Up to the far return, for the address of the label \<open>.reload_cs\<close>.\<close>

definition reload_data_segments :: "u64 \<Rightarrow> instruction list" where
  "reload_data_segments reload_cs =
     [Mov_low RAX 0x10, Mov_segment DS RAX, Mov_segment ES RAX, Mov_segment FS RAX, Mov_segment GS RAX, Mov_segment SS RAX,
      Push_imm 0x08, Mov RAX reload_cs, Push RAX, Retfq]"

text \<open>\<open>None\<close> if the far return does not go to the label.\<close>

definition gdt_load_segments :: "u64 \<Rightarrow> cpu \<Rightarrow> cpu option" where
  "gdt_load_segments reload_cs c =
     (let c = exec_list (reload_data_segments reload_cs) c
      in if c_rip c = reload_cs then Some (exec Ret c) else None)"

section \<open>Selectors\<close>

text \<open>The descriptor a selector stands for, if it is in the table and its low bits ask for level 0 of it.\<close>

definition selected :: "gdt_descriptor list \<Rightarrow> u16 \<Rightarrow> gdt_descriptor option" where
  "selected gdt s = (if s AND 7 = 0 \<and> unat s div 8 < length gdt then Some (gdt ! (unat s div 8)) else None)"

text \<open>
  What the processor asks of the descriptors: code segments are executable and long-mode (bit 1 of the
  flags) but not 32-bit (bit 2), data segments writable; both present, with privilege level 0.
\<close>

definition kernel_code :: "gdt_descriptor \<Rightarrow> bool" where
  "kernel_code d \<longleftrightarrow> bit (access d) 7 \<and> segment_dpl d = 0 \<and> bit (access d) 4 \<and> bit (access d) 3 \<and>
     bit (segment_flags d) 1 \<and> \<not> bit (segment_flags d) 2"

definition kernel_data :: "gdt_descriptor \<Rightarrow> bool" where
  "kernel_data d \<longleftrightarrow> bit (access d) 7 \<and> segment_dpl d = 0 \<and> bit (access d) 4 \<and> \<not> bit (access d) 3 \<and> bit (access d) 1"

definition code_selector :: "gdt_descriptor list \<Rightarrow> u16 \<Rightarrow> bool" where
  "code_selector gdt s = (case selected gdt s of None \<Rightarrow> False | Some d \<Rightarrow> kernel_code d)"

definition data_selector :: "gdt_descriptor list \<Rightarrow> u16 \<Rightarrow> bool" where
  "data_selector gdt s = (case selected gdt s of None \<Rightarrow> False | Some d \<Rightarrow> kernel_data d)"

lemma gdt_init_kernel:
  assumes "length gdt = GDT_NUM_ENTRIES"
  shows "code_selector (gdt_init gdt) 0x08" "data_selector (gdt_init gdt) 0x10"
proof -
  have d: "gdt_init gdt ! 1 = gdt_create_segment_descriptor (gdt ! 1) 0x0 0xfffff 0x9a 0xa"
    "gdt_init gdt ! 2 = gdt_create_segment_descriptor (gdt ! 2) 0x0 0xfffff 0x92 0xc" "length (gdt_init gdt) = 5"
    using assms by (simp_all add: gdt_init_def gdt_set_def Let_def)
  have m: "segment_flags (gdt_create_segment_descriptor t b l a f) = f AND 0xf" for t b l a f
    by (simp add: segment_flags_created mask_numerals)
  show "code_selector (gdt_init gdt) 0x08"
    using d(1,3) by (simp add: code_selector_def selected_def kernel_code_def m segment_dpl_def segment_descriptor_fields(6))
  show "data_selector (gdt_init gdt) 0x10"
    using d(2,3) by (simp add: data_selector_def selected_def kernel_data_def m segment_dpl_def segment_descriptor_fields(6))
qed

section \<open>Where it ends\<close>

lemma load_segments:
  assumes st: "stacked base mem [ret] c" and room: "24 \<le> unat base"
  shows "\<exists>mem'. gdt_load_segments reload_cs c =
      Some (c\<lparr>c_regs := (c_regs c)(RAX := reload_cs), c_rsp := base, c_rip := ret,
              c_segs := (\<lambda>s. if s = CS then 0x08 else 0x10), c_mem := mem'\<rparr>) \<and>
    (\<forall>a. unat base \<le> unat a \<longrightarrow> mem' a = mem a)"
proof -
  let ?c = "exec_list (take 6 (reload_data_segments reload_cs)) c"
  let ?r = "exec (Mov RAX reload_cs) (push 0x08 ?c)"
  let ?p = "push reload_cs ?r"
  note regs = reload_data_segments_def
  have c: "c_rsp ?c = c_rsp c" "c_mem ?c = c_mem c" "c_flags ?c = c_flags c"
    "c_regs ?c = (c_regs c)(RAX := set_low (c_regs c RAX) 0x10)" "c_segs ?c = (\<lambda>s. if s = CS then c_segs c CS else 0x10)"
    "cpu.more ?c = cpu.more c"
    by (simp_all add: regs) (auto simp: fun_eq_iff, (case_tac x; simp)+)
  have st0: "stacked base mem [ret] ?c" by (rule stacked_kept [OF st]) (simp_all only: c)
  have "stacked base mem [0x08, ret] (push 0x08 ?c)" using room by (intro stacked_push [OF st0]) simp
  then have "stacked base mem [0x08, ret] ?r" by (rule stacked_kept) simp_all
  then have p: "stacked base mem [reload_cs, 0x08, ret] ?p" using room by (intro stacked_push) simp_all
  note t = p stacked_drop [OF p] stacked_drop [OF stacked_drop [OF p]] stacked_drop [OF stacked_drop [OF stacked_drop [OF p]]]
  note tops = t(1-3) [THEN stacked_top]
  have run: "exec_list (reload_data_segments reload_cs) c = exec Retfq ?p" by (simp add: regs)
  let ?d = "exec Ret (exec Retfq ?p)"
  have out: "c_rip (exec Retfq ?p) = reload_cs" "c_rip ?d = ret" "c_segs ?d = (\<lambda>s. if s = CS then 0x08 else 0x10)"
    using tops c(5) by (auto simp: Let_def fun_eq_iff stack_top_def)
  have "c_rsp ?d = base" using stackedD(2) [OF t(4)] by (simp add: Let_def)
  moreover have "c_regs ?d = (c_regs c)(RAX := reload_cs)" "c_flags ?d = c_flags c" "cpu.more ?d = cpu.more c"
    using c by (simp_all add: Let_def push_def drop_top_def)
  ultimately have "?d = c\<lparr>c_regs := (c_regs c)(RAX := reload_cs), c_rsp := base, c_rip := ret,
      c_segs := (\<lambda>s. if s = CS then 0x08 else 0x10), c_mem := c_mem ?d\<rparr>"
    using out by (intro cpu.equality) simp_all
  moreover have "c_mem ?d a = mem a" if "unat base \<le> unat a" for a
    using stackedD(4) [OF p that] by (simp add: Let_def)
  moreover have "gdt_load_segments reload_cs c = Some ?d"
    unfolding gdt_load_segments_def run Let_def out(1) by (simp only: refl if_True)
  ultimately show ?thesis by metis
qed

section \<open>Property\<close>

text \<open>C33: \<open>gdt_load_segments\<close>, called with three quadwords of stack below its return address, returns to its
  caller with the stack as before the call. CS is then the kernel's code segment and the other five its
  data segment, both of privilege level 0 in the table that \<open>gdt_init\<close> fills. Of the other registers
  only RAX has changed, and memory only below the stack.\<close>

theorem segments_reloaded:
  assumes "length gdt = GDT_NUM_ENTRIES" "32 \<le> unat (c_rsp c)" "unat (c_rsp c) + 8 < 2 ^ 64"
  shows "\<exists>segs mem. gdt_load_segments reload_cs c =
      Some (c\<lparr>c_regs := (c_regs c)(RAX := reload_cs), c_rsp := c_rsp c + 8, c_rip := stack_top c, c_segs := segs, c_mem := mem\<rparr>) \<and>
    code_selector (gdt_init gdt) (segs CS) \<and>
    (\<forall>s. s \<noteq> CS \<longrightarrow> data_selector (gdt_init gdt) (segs s)) \<and>
    (\<forall>a. unat (c_rsp c) + 8 \<le> unat a \<longrightarrow> mem a = c_mem c a)"
proof -
  have n: "unat (c_rsp c + 8) = unat (c_rsp c) + 8" using assms(3) by (subst unat_add_u64) simp_all
  then have "stacked (c_rsp c + 8) (c_mem c) [stack_top c] c"
    by (auto simp: stacked_def stack_top_def)
  then obtain mem where mem: "gdt_load_segments reload_cs c =
      Some (c\<lparr>c_regs := (c_regs c)(RAX := reload_cs), c_rsp := c_rsp c + 8, c_rip := stack_top c,
              c_segs := (\<lambda>s. if s = CS then 0x08 else 0x10), c_mem := mem\<rparr>)"
    "\<forall>a. unat (c_rsp c + 8) \<le> unat a \<longrightarrow> mem a = c_mem c a"
    using load_segments [of "c_rsp c + 8" "c_mem c" "stack_top c" c reload_cs] assms(2) n by fastforce
  show ?thesis
    using mem n gdt_init_kernel [OF assms(1)] by (intro exI [of _ "\<lambda>s. if s = CS then 0x08 else 0x10"] exI [of _ mem]) simp
qed

definition demo_cpu :: cpu where
  "demo_cpu = \<lparr>c_regs = (\<lambda>_. 7), c_rsp = 0xffff800000001000, c_rip = 0xffffffff80001000, c_flags = 0x202,
     c_segs = (\<lambda>_. 0x28), c_mem = (\<lambda>a. a)\<rparr>"

lemma segments_reloaded_witness:
  "\<exists>segs mem. gdt_load_segments 0xffffffff80002000 demo_cpu =
      Some (demo_cpu\<lparr>c_regs := (c_regs demo_cpu)(RAX := 0xffffffff80002000), c_rsp := 0xffff800000001008,
        c_rip := 0xffff800000001000, c_segs := segs, c_mem := mem\<rparr>) \<and>
    code_selector (gdt_init (replicate 5 zero_segment)) (segs CS) \<and>
    data_selector (gdt_init (replicate 5 zero_segment)) (segs SS)"
  using segments_reloaded [where gdt = "replicate 5 zero_segment" and c = demo_cpu and reload_cs = "0xffffffff80002000"]
  by (simp add: demo_cpu_def stack_top_def) blast

end
