(* ===== verification/InterruptEntry.thy ===== *)
theory InterruptEntry
  imports SegmentReload InterruptHandler
begin

text \<open>
  The way from the processor to the interrupt handler and back: the delivery of an interrupt through the
  descriptor table, the stubs of kernel/src/cpu/isr.asm, and the stack frame that
  kernel/include/cpu/interrupt_handler.h declares. Shows that for each of the 256 vectors the handler is
  called, on an aligned stack, with the vector and the error code, and that when it returns the
  interrupted program goes on with all its registers.

  The compiled code of the handler is not part of the sources. It is a parameter \<open>body\<close>, what the code
  does to registers and stack, of which is asked what the calling convention promises; what the handler
  does to the kernel is \<open>interrupt_handler\<close>.
\<close>

section \<open>The stack frame\<close>

record interrupt_stack_frame =
  isf_r15 :: u64
  isf_r14 :: u64
  isf_r13 :: u64
  isf_r12 :: u64
  isf_r11 :: u64
  isf_r10 :: u64
  isf_r9 :: u64
  isf_r8 :: u64
  isf_rbp :: u64
  isf_rdi :: u64
  isf_rsi :: u64
  isf_rdx :: u64
  isf_rcx :: u64
  isf_rbx :: u64
  isf_rax :: u64
  isf_interrupt_vector :: u64
  isf_error_code :: u64
  isf_rip :: u64
  isf_cs :: u64
  isf_rflags :: u64
  isf_rsp_ :: u64
  isf_ss :: u64

text \<open>The packed struct at an address.\<close>

definition frame_at :: "(u64 \<Rightarrow> u64) \<Rightarrow> u64 \<Rightarrow> interrupt_stack_frame" where
  "frame_at mem p =
     \<lparr>isf_r15 = mem p, isf_r14 = mem (p + 8), isf_r13 = mem (p + 16), isf_r12 = mem (p + 24), isf_r11 = mem (p + 32),
      isf_r10 = mem (p + 40), isf_r9 = mem (p + 48), isf_r8 = mem (p + 56), isf_rbp = mem (p + 64), isf_rdi = mem (p + 72),
      isf_rsi = mem (p + 80), isf_rdx = mem (p + 88), isf_rcx = mem (p + 96), isf_rbx = mem (p + 104),
      isf_rax = mem (p + 112), isf_interrupt_vector = mem (p + 120), isf_error_code = mem (p + 128),
      isf_rip = mem (p + 136), isf_cs = mem (p + 144), isf_rflags = mem (p + 152), isf_rsp_ = mem (p + 160),
      isf_ss = mem (p + 168)\<rparr>"

section \<open>The stubs\<close>

text \<open>The vectors defined with \<open>isr_err\<close>; all others are defined with \<open>isr_no_err\<close>.\<close>

definition isr_err_vectors :: "nat list" where
  "isr_err_vectors = [0x08, 0x0a, 0x0b, 0x0c, 0x0d, 0x0e, 0x11, 0x15]"

definition isr_stub :: "nat \<Rightarrow> instruction list" where
  "isr_stub v =
     (if v \<in> set isr_err_vectors then [Push_imm (of_nat v)]
      else [Push_imm (of_nat v), Push_imm (of_nat v)])"

text \<open>\<open>isr_common\<close> before and after the call of the handler.\<close>

definition saved_registers :: "register list" where
  "saved_registers = [RAX, RBX, RCX, RDX, RSI, RDI, RBP, R8, R9, R10, R11, R12, R13, R14, R15]"

definition restored_registers :: "register list" where
  "restored_registers = [R15, R14, R13, R12, R11, R10, R9, R8, RBP, RDI, RSI, RDX, RCX, RBX, RAX]"

definition isr_common_save :: "instruction list" where
  "isr_common_save = map Push saved_registers @ [Mov_rsp RDI]"

definition isr_common_restore :: "instruction list" where
  "isr_common_restore = map Pop restored_registers @ [Add_rsp 16, Iretq]"

text \<open>
  \<open>call interrupt_handler\<close> with the address of the frame in RDI; \<open>ret\<close> is the address behind the
  call. The result is \<open>Inl\<close> where the handler does not return.
\<close>

definition call_handler ::
    "(kernel \<Rightarrow> cpu \<Rightarrow> cpu) \<Rightarrow> u64 \<Rightarrow> handler_env \<Rightarrow> cpu \<Rightarrow> kernel \<Rightarrow> (kernel + (cpu \<times> kernel)) option" where
  "call_handler body ret henv c k =
     (let stack = frame_at (c_mem c) (c_regs c RDI) in
      case interrupt_handler henv (isf_interrupt_vector stack) (isf_error_code stack) k of
        None \<Rightarrow> None
      | Some (Halted k') \<Rightarrow> Some (Inl k')
      | Some (Resumed k') \<Rightarrow> Some (Inr (body k (push ret c), k')))"

definition run_isr ::
    "(kernel \<Rightarrow> cpu \<Rightarrow> cpu) \<Rightarrow> u64 \<Rightarrow> handler_env \<Rightarrow> nat \<Rightarrow> cpu \<Rightarrow> kernel \<Rightarrow> (kernel + (cpu \<times> kernel)) option" where
  "run_isr body ret henv v c k =
     do {
       r \<leftarrow> call_handler body ret henv (exec_list (isr_stub v @ isr_common_save) c) k;
       case r of
         Inl k' \<Rightarrow> Some (Inl k')
       | Inr (c', k') \<Rightarrow> Some (Inr (exec_list isr_common_restore c', k'))
     }"

section \<open>Delivery\<close>

text \<open>
  What the processor does at an interrupt in 64-bit mode at privilege level 0 (without a stack switch):
  it aligns the stack to 16 bytes, pushes SS, the stack pointer, the flags, CS and the instruction
  pointer, then an error code if the vector has one, and goes to the handler of the gate with interrupts
  disabled. A gate that is not present or not an interrupt gate, one whose selector does not stand for
  a code segment of the kernel, or one with a stack of its own, for which the kernel has no task state
  segment, is \<open>None\<close>.
\<close>

definition error_code_vectors :: "nat set" where
  "error_code_vectors = {8, 10, 11, 12, 13, 14, 17, 21}"

definition interrupt_flag :: u64 where
  "interrupt_flag = push_bit 9 1"

definition aligned :: "u64 \<Rightarrow> u64" where
  "aligned w = w AND NOT 15"

definition deliver :: "gdt_descriptor list \<Rightarrow> idt_gate_descriptor list \<Rightarrow> nat \<Rightarrow> u64 option \<Rightarrow> cpu \<Rightarrow> cpu option" where
  "deliver gdt idt v err c =
     (let d = idt ! v in
      if \<not> gate_present d \<or> gate_type d \<noteq> IDT_GATE_TYPE_INT_GATE \<or> ist d \<noteq> 0 \<or> \<not> code_selector gdt (segment_selector d)
      then None
      else
        let c1 = c\<lparr>c_rsp := aligned (c_rsp c)\<rparr>;
            c1 = push (ucast (c_segs c SS)) c1;
            c1 = push (c_rsp c) c1;
            c1 = push (c_flags c) c1;
            c1 = push (ucast (c_segs c CS)) c1;
            c1 = push (c_rip c) c1;
            c1 = (case err of None \<Rightarrow> c1 | Some e \<Rightarrow> push e c1)
        in Some (c1\<lparr>c_rip := gate_handler d, c_segs := (c_segs c)(CS := segment_selector d),
                    c_flags := c_flags c AND NOT interrupt_flag\<rparr>))"

text \<open>\<open>stubs\<close> tells which stub the linker has put at an address.\<close>

definition take_interrupt ::
    "(u64 \<Rightarrow> nat option) \<Rightarrow> (kernel \<Rightarrow> cpu \<Rightarrow> cpu) \<Rightarrow> u64 \<Rightarrow> handler_env \<Rightarrow> gdt_descriptor list \<Rightarrow>
     idt_gate_descriptor list \<Rightarrow> nat \<Rightarrow> u64 option \<Rightarrow> cpu \<Rightarrow> kernel \<Rightarrow> (kernel + (cpu \<times> kernel)) option" where
  "take_interrupt stubs body ret henv gdt idt v err c k =
     do {
       c \<leftarrow> deliver gdt idt v err c;
       w \<leftarrow> stubs (c_rip c);
       run_isr body ret henv w c k
     }"

text \<open>
  What the calling convention (System V, x86-64) promises of a function that is entered on an aligned
  stack with \<open>depth\<close> bytes of room: it returns, pops the return address, keeps RBX, RBP, R12 to R15 and
  the memory of its caller. The frame counts as that of the caller; the handler only reads it. Segment
  registers are not touched by compiled code.
\<close>

definition preserved_registers :: "register set" where
  "preserved_registers = {RBX, RBP, R12, R13, R14, R15}"

definition follows_abi :: "nat \<Rightarrow> (kernel \<Rightarrow> cpu \<Rightarrow> cpu) \<Rightarrow> bool" where
  "follows_abi depth body \<longleftrightarrow>
     (\<forall>k c. (unat (c_rsp c) + 8) mod 16 = 0 \<and> depth \<le> unat (c_rsp c) \<longrightarrow>
        c_rip (body k c) = stack_top c \<and> c_rsp (body k c) = c_rsp c + 8 \<and> c_segs (body k c) = c_segs c \<and>
        (\<forall>r\<in>preserved_registers. c_regs (body k c) r = c_regs c r) \<and>
        (\<forall>a. unat (c_rsp c) + 8 \<le> unat a \<longrightarrow> c_mem (body k c) a = c_mem c a))"

lemma follows_abiD:
  assumes "follows_abi depth body" "(unat (c_rsp c) + 8) mod 16 = 0" "depth \<le> unat (c_rsp c)"
  shows "c_rip (body k c) = stack_top c" "c_rsp (body k c) = c_rsp c + 8" "c_segs (body k c) = c_segs c"
    "unat (c_rsp c) + 8 \<le> unat a \<Longrightarrow> c_mem (body k c) a = c_mem c a"
  using assms by (simp_all add: follows_abi_def)

section \<open>The stack at the call\<close>

text \<open>The frame as quadwords, the one at the lowest address first.\<close>

definition frame_words :: "nat \<Rightarrow> u64 \<Rightarrow> cpu \<Rightarrow> u64 list" where
  "frame_words v e c =
     map (c_regs c) restored_registers @
     [of_nat v, e, c_rip c, ucast (c_segs c CS), c_flags c, c_rsp c, ucast (c_segs c SS)]"

text \<open>The error code that the handler sees: a stub without one pushes the vector in its place.\<close>

definition seen_error :: "nat \<Rightarrow> u64 option \<Rightarrow> u64" where
  "seen_error v err = (case err of None \<Rightarrow> of_nat v | Some e \<Rightarrow> e)"

lemma error_vectors_agree: "v \<in> set isr_err_vectors \<longleftrightarrow> v \<in> error_code_vectors"
  by (auto simp: isr_err_vectors_def error_code_vectors_def)

lemma unat_aligned: "unat (aligned w) = unat w - unat w mod 16"
proof -
  have m: "(15 :: u64) = mask 4" by (simp add: mask_eq_exp_minus_1)
  have t: "unat (take_bit 4 w) = unat w mod 16" by (simp add: unat_mod_word take_bit_eq_mod)
  have "w - take_bit 4 w = w AND NOT (take_bit 4 w)"
    by (rule disjunctive_diff) (simp add: bit_take_bit_iff)
  also have "\<dots> = w AND NOT 15"
    unfolding m by (rule bit_word_eqI) (auto simp: bit_simps)
  finally have "w AND NOT 15 = w - take_bit 4 w" by simp
  moreover have "take_bit 4 w \<le> w" by (simp add: word_le_nat_alt t)
  ultimately show ?thesis by (simp add: aligned_def unat_sub t)
qed

lemma rev_saved: "rev saved_registers = restored_registers"
  by (simp add: saved_registers_def restored_registers_def)

lemma all_registers: "r \<in> set restored_registers"
  by (cases r) (simp_all add: restored_registers_def)

text \<open>Up to the call.\<close>

lemma delivered_frame:
  assumes gate: "gate_present (idt ! v)" "gate_type (idt ! v) = IDT_GATE_TYPE_INT_GATE" "ist (idt ! v) = 0"
    and code: "code_selector gdt (segment_selector (idt ! v))"
    and err: "err \<noteq> None \<longleftrightarrow> v \<in> error_code_vectors" and room: "192 \<le> unat (c_rsp c)"
  obtains c1 where "deliver gdt idt v err c = Some c1" "c_rip c1 = gate_handler (idt ! v)"
    "stacked (aligned (c_rsp c)) (c_mem c) (frame_words v (seen_error v err) c)
       (exec_list (isr_stub v @ isr_common_save) c1)"
    "c_regs (exec_list (isr_stub v @ isr_common_save) c1) RDI = c_rsp (exec_list (isr_stub v @ isr_common_save) c1)"
    "\<And>r. r \<noteq> RDI \<Longrightarrow> c_regs (exec_list (isr_stub v @ isr_common_save) c1) r = c_regs c r"
    "c_segs (exec_list (isr_stub v @ isr_common_save) c1) = (c_segs c)(CS := segment_selector (idt ! v))"
proof -
  let ?base = "aligned (c_rsp c)" and ?mem = "c_mem c"
  have base: "176 \<le> unat ?base" unfolding unat_aligned using room by (simp add: le_diff_conv2 order_trans [OF mod_less_eq_dividend])
  let ?c0 = "c\<lparr>c_rsp := ?base\<rparr>"
  let ?c5 = "push (c_rip c) (push (ucast (c_segs c CS)) (push (c_flags c) (push (c_rsp c) (push (ucast (c_segs c SS)) ?c0))))"
  let ?ws = "[c_rip c, ucast (c_segs c CS), c_flags c, c_rsp c, ucast (c_segs c SS)]"
  have "stacked ?base ?mem [] ?c0" using stacked_start [of ?c0] by simp
  then have c5: "stacked ?base ?mem ?ws ?c5" using base by (intro stacked_push) simp_all
  define c1 where "c1 = (case err of None \<Rightarrow> ?c5 | Some e \<Rightarrow> push e ?c5)
    \<lparr>c_rip := gate_handler (idt ! v), c_segs := (c_segs c)(CS := segment_selector (idt ! v)), c_flags := c_flags c AND NOT interrupt_flag\<rparr>"
  have d: "deliver gdt idt v err c = Some c1" using gate code by (simp add: deliver_def c1_def Let_def)
  have same: "c_regs c1 = c_regs c" "c_segs c1 = (c_segs c)(CS := segment_selector (idt ! v))" "c_rip c1 = gate_handler (idt ! v)"
    by (simp_all add: c1_def split: option.split)
  have c1: "stacked ?base ?mem ((case err of None \<Rightarrow> [] | Some e \<Rightarrow> [e]) @ ?ws) c1"
  proof (cases err)
    case None
    show ?thesis unfolding c1_def None option.case append_Nil by (rule stacked_kept [OF c5]) simp_all
  next
    case (Some e)
    have "stacked ?base ?mem (e # ?ws) (push e ?c5)" by (rule stacked_push [OF c5]) (use base in simp)
    then show ?thesis unfolding c1_def Some option.case append.simps by (rule stacked_kept) simp_all
  qed
  let ?c2 = "exec_list (isr_stub v) c1"
  have c2: "stacked ?base ?mem (of_nat v # seen_error v err # ?ws) ?c2" "c_regs ?c2 = c_regs c" "c_segs ?c2 = c_segs c1"
  proof -
    show "c_regs ?c2 = c_regs c" "c_segs ?c2 = c_segs c1" using same by (simp_all add: isr_stub_def)
    show "stacked ?base ?mem (of_nat v # seen_error v err # ?ws) ?c2"
    proof (cases err)
      case None
      then have stub: "isr_stub v = [Push_imm (of_nat v), Push_imm (of_nat v)]"
        using err by (simp add: isr_stub_def error_vectors_agree)
      have "stacked ?base ?mem ?ws c1" using c1 None by simp
      then have "stacked ?base ?mem (of_nat v # of_nat v # ?ws) (push (of_nat v) (push (of_nat v) c1))"
        using base by (intro stacked_push) simp_all
      then show ?thesis unfolding stub by (simp add: seen_error_def None)
    next
      case (Some e)
      then have stub: "isr_stub v = [Push_imm (of_nat v)]" using err by (simp add: isr_stub_def error_vectors_agree)
      have "stacked ?base ?mem (of_nat v # e # ?ws) (push (of_nat v) c1)"
        using c1 Some base by (intro stacked_push) simp_all
      then show ?thesis unfolding stub by (simp add: seen_error_def Some)
    qed
  qed
  let ?c3 = "exec_list (map Push saved_registers) ?c2"
  have len: "length saved_registers = 15" by (simp add: saved_registers_def)
  have "8 * (length saved_registers + length (of_nat v # seen_error v err # ?ws)) \<le> unat ?base" using base len by simp
  from exec_pushes [OF c2(1) this] c2(2,3)
  have c3: "stacked ?base ?mem (frame_words v (seen_error v err) c) ?c3" "c_regs ?c3 = c_regs c" "c_segs ?c3 = c_segs c1"
    by (simp_all add: frame_words_def rev_map rev_saved)
  have run: "exec_list (isr_stub v @ isr_common_save) c1 = ?c3\<lparr>c_regs := (c_regs ?c3)(RDI := c_rsp ?c3)\<rparr>"
    by (simp add: isr_common_save_def exec_list_append)
  show thesis
  proof (rule that [OF d same(3)], unfold run)
    show "stacked ?base ?mem (frame_words v (seen_error v err) c) (?c3\<lparr>c_regs := (c_regs ?c3)(RDI := c_rsp ?c3)\<rparr>)"
      by (rule stacked_kept [OF c3(1)]) simp_all
  qed (use c3(2,3) same in simp_all)
qed

text \<open>The call: the frame is intact when it returns, and the registers it may use are clobbered.\<close>

lemma handler_called:
  assumes st: "stacked (aligned base) mem (frame_words v e c) c1" and rdi: "c_regs c1 RDI = c_rsp c1"
    and abi: "follows_abi depth body" and room: "200 + depth \<le> unat base" and v: "v < 256"
  shows "case interrupt_handler henv (of_nat v) e k of
      None \<Rightarrow> call_handler body ret henv c1 k = None
    | Some (Halted k') \<Rightarrow> call_handler body ret henv c1 k = Some (Inl k')
    | Some (Resumed k') \<Rightarrow> (\<exists>c2. call_handler body ret henv c1 k = Some (Inr (c2, k')) \<and> c_rip c2 = ret \<and>
        stacked (aligned base) mem (frame_words v e c) c2 \<and> c_segs c2 = c_segs c1)"
proof -
  have len: "length (frame_words v e c) = 22" by (simp add: frame_words_def restored_registers_def)
  have "frame_words v e c ! 15 = of_nat v" "frame_words v e c ! 16 = e"
    by (simp_all add: frame_words_def restored_registers_def)
  then have frame: "isf_interrupt_vector (frame_at (c_mem c1) (c_regs c1 RDI)) = of_nat v"
    "isf_error_code (frame_at (c_mem c1) (c_regs c1 RDI)) = e"
    using stackedD(3) [OF st, of 15] stackedD(3) [OF st, of 16] by (simp_all add: len rdi frame_at_def)
  have b: "unat (aligned base) mod 16 = 0" "unat base - 15 \<le> unat (aligned base)"
    unfolding unat_aligned by (simp_all add: minus_mod_eq_mult_div diff_le_mono2 [OF order.trans [OF less_Suc_eq_le [THEN iffD1, OF mod_less_divisor]]])
  have rsp: "unat (c_rsp c1) = unat (aligned base) - 176" using stacked_rsp [OF st] len by simp
  let ?c = "push ret c1"
  have eight: "8 \<le> unat (c_rsp c1)" "depth + 8 \<le> unat (c_rsp c1)" using rsp b(2) room by linarith+
  then have call: "unat (c_rsp ?c) = unat (c_rsp c1) - 8" by (simp add: unat_sub word_le_nat_alt)
  have entry: "(unat (c_rsp ?c) + 8) mod 16 = 0" "depth \<le> unat (c_rsp ?c)"
  proof -
    have "unat (c_rsp ?c) + 8 = unat (aligned base) - 16 * 11" using call eight(1) rsp by simp
    also have "(unat (aligned base) - 16 * 11) mod 16 = 0"
      using b(1) by (metis dvd_diff_nat dvd_eq_mod_eq_0 dvd_triv_left)
    finally show "(unat (c_rsp ?c) + 8) mod 16 = 0" .
    show "depth \<le> unat (c_rsp ?c)" using call eight(2) by simp
  qed
  note body = follows_abiD [OF abi entry, where k = k]
  have intact: "stacked (aligned base) mem (frame_words v e c) (body k ?c)"
  proof (rule stacked_kept [OF st])
    show "c_rsp (body k ?c) = c_rsp c1" using body(2) by simp
    show "c_mem (body k ?c) a = c_mem c1 a" if "unat (c_rsp c1) \<le> unat a" for a
    proof -
      have "a \<noteq> c_rsp c1 - 8" using that call eight(1) by auto
      then show ?thesis using body(4) [of a] call eight(1) that by simp
    qed
  qed
  have "c_rip (body k ?c) = ret" "c_segs (body k ?c) = c_segs c1" using body(1,3) by (simp_all add: stack_top_def)
  with intact frame show ?thesis
    by (auto simp: call_handler_def Let_def split: option.split after_interrupt.split)
qed

lemma selector_restored [simp]: "(ucast (ucast (s :: u16) :: u64) :: u16) = s"
  by (rule bit_word_eqI) (simp add: bit_simps)

text \<open>After the call.\<close>

lemma frame_restored:
  assumes st: "stacked base mem (frame_words v e c) c2"
  defines "c3 \<equiv> exec_list isr_common_restore c2"
  shows "c_regs c3 = c_regs c" "c_rip c3 = c_rip c" "c_flags c3 = c_flags c" "c_rsp c3 = c_rsp c"
    "c_segs c3 = (c_segs c2)(CS := c_segs c CS, SS := c_segs c SS)" "unat base \<le> unat a \<Longrightarrow> c_mem c3 a = mem a"
proof -
  let ?ws = "[c_rip c, ucast (c_segs c CS), c_flags c, c_rsp c, ucast (c_segs c SS)]"
  let ?p = "exec_list (map Pop restored_registers) c2"
  have "stacked base mem (map (c_regs c) restored_registers @ of_nat v # e # ?ws) c2"
    using st by (simp add: frame_words_def)
  from exec_pops [OF this] have p: "stacked base mem (of_nat v # e # ?ws) ?p" "c_regs ?p = c_regs c" "c_segs ?p = c_segs c2"
    by (simp_all add: all_registers)
  define q where "q = exec (Add_rsp 16) ?p"
  have q: "stacked base mem ?ws q" unfolding q_def
    by (rule stacked_kept [OF stacked_drop [OF stacked_drop [OF p(1)]]]) simp_all
  have same: "c_regs q = c_regs c" "c_segs q = c_segs c2" using p(2,3) by (simp_all add: q_def)
  have c3: "c3 = exec Iretq q" by (simp add: c3_def q_def isr_common_restore_def exec_list_append)
  note t = q stacked_drop [OF q] stacked_drop [OF stacked_drop [OF q]] stacked_drop [OF stacked_drop [OF stacked_drop [OF q]]]
    stacked_drop [OF stacked_drop [OF stacked_drop [OF stacked_drop [OF q]]]]
  note tops = t [THEN stacked_top]
  show "c_regs c3 = c_regs c" "c_rip c3 = c_rip c" "c_flags c3 = c_flags c" "c_rsp c3 = c_rsp c"
    "c_segs c3 = (c_segs c2)(CS := c_segs c CS, SS := c_segs c SS)"
    using tops same by (simp_all add: c3 Let_def)
  show "c_mem c3 a = mem a" if "unat base \<le> unat a"
    using stackedD(4) [OF q that] by (simp add: c3 Let_def)
qed

lemma idt_init_gate:
  assumes "v < 256"
  shows "gate_present (idt_init isr ! v)" "gate_type (idt_init isr ! v) = IDT_GATE_TYPE_INT_GATE"
    "gate_handler (idt_init isr ! v) = isr v" "ist (idt_init isr ! v) = 0"
    "segment_selector (idt_init isr ! v) = 0x8"
proof -
  have d: "idt_init isr ! v = idt_create_entry zero_gate (isr v) 0x8 0 (IDT_ATTRIBUTES 0 IDT_GATE_TYPE_INT_GATE)"
    using assms by (simp add: idt_init_entries del: upt_rec_numeral)
  show "gate_handler (idt_init isr ! v) = isr v" "ist (idt_init isr ! v) = 0" "segment_selector (idt_init isr ! v) = 0x8"
    by (simp_all add: d gate_handler_created gate_fields)
  show "gate_present (idt_init isr ! v)" "gate_type (idt_init isr ! v) = IDT_GATE_TYPE_INT_GATE"
    by (simp_all add: d gate_present_def gate_type_def gate_fields IDT_ATTRIBUTES_def)
qed

text \<open>The linker puts the stub of each vector at the address that \<open>idt_init\<close> enters.\<close>

definition stubs_linked :: "(u64 \<Rightarrow> nat option) \<Rightarrow> (nat \<Rightarrow> u64) \<Rightarrow> bool" where
  "stubs_linked stubs isr \<longleftrightarrow> (\<forall>v<256. stubs (isr v) = Some v)"

lemma interrupt_taken:
  assumes gdt: "length gdt = GDT_NUM_ENTRIES" and v: "v < 256" and err: "err \<noteq> None \<longleftrightarrow> v \<in> error_code_vectors" and linked: "stubs_linked stubs isr"
    and abi: "follows_abi depth body" and room: "200 + depth \<le> unat (c_rsp c)"
  shows "case interrupt_handler henv (of_nat v) (seen_error v err) k of
      None \<Rightarrow> take_interrupt stubs body ret henv (gdt_init gdt) (idt_init isr) v err c k = None
    | Some (Halted k') \<Rightarrow> take_interrupt stubs body ret henv (gdt_init gdt) (idt_init isr) v err c k = Some (Inl k')
    | Some (Resumed k') \<Rightarrow>
        (\<exists>mem. take_interrupt stubs body ret henv (gdt_init gdt) (idt_init isr) v err c k = Some (Inr (c\<lparr>c_mem := mem\<rparr>, k')) \<and>
           (\<forall>a. unat (c_rsp c) \<le> unat a \<longrightarrow> mem a = c_mem c a))"
proof -
  let ?gdt = "gdt_init gdt" and ?idt = "idt_init isr" and ?run = "exec_list (isr_stub v @ isr_common_save)"
  have "192 \<le> unat (c_rsp c)" using room by simp
  moreover have "code_selector ?gdt (segment_selector (?idt ! v))"
    unfolding idt_init_gate(5) [OF v] by (rule gdt_init_kernel(1) [OF gdt])
  ultimately
  obtain c1 where d: "deliver ?gdt ?idt v err c = Some c1" "c_rip c1 = isr v"
    "stacked (aligned (c_rsp c)) (c_mem c) (frame_words v (seen_error v err) c) (?run c1)"
    "c_regs (?run c1) RDI = c_rsp (?run c1)" "c_segs (?run c1) = (c_segs c)(CS := segment_selector (?idt ! v))"
    using delivered_frame [OF idt_init_gate(1,2,4) [OF v] _ err, of ?gdt isr c] unfolding idt_init_gate(3) [OF v] by metis
  have take: "take_interrupt stubs body ret henv ?gdt ?idt v err c k = run_isr body ret henv v c1 k"
    using d(1,2) linked v by (simp add: take_interrupt_def stubs_linked_def)
  note called = handler_called [OF d(3,4) abi room v, where henv = henv and ret = ret and k = k]
  show ?thesis
  proof (cases "interrupt_handler henv (of_nat v) (seen_error v err) k")
    case None
    then show ?thesis using called by (simp add: take run_isr_def)
  next
    case (Some r)
    show ?thesis
    proof (cases r)
      case (Halted k')
      then show ?thesis using called Some by (simp add: take run_isr_def)
    next
      case (Resumed k')
      then obtain c2 where c2: "call_handler body ret henv (?run c1) k = Some (Inr (c2, k'))"
        "stacked (aligned (c_rsp c)) (c_mem c) (frame_words v (seen_error v err) c) c2" "c_segs c2 = c_segs (?run c1)"
        using called Some by auto
      let ?c3 = "exec_list isr_common_restore c2"
      note r = frame_restored [OF c2(2)]
      have "?c3 = c\<lparr>c_mem := c_mem ?c3\<rparr>"
        using r(1-5) c2(3) d(5) by (intro cpu.equality) (auto simp: fun_eq_iff)
      moreover have "unat (aligned (c_rsp c)) \<le> unat (c_rsp c)" unfolding unat_aligned by simp
      then have "c_mem ?c3 a = c_mem c a" if "unat (c_rsp c) \<le> unat a" for a using that by (intro r(6)) simp
      moreover have "take_interrupt stubs body ret henv ?gdt ?idt v err c k = Some (Inr (?c3, k'))"
        using c2(1) by (simp add: take run_isr_def)
      ultimately show ?thesis unfolding Some Resumed option.case after_interrupt.case by metis
    qed
  qed
qed

section \<open>Property\<close>

text \<open>
  C11: an interrupt is transparent to the program it interrupts. Let any of the 256 vectors occur, with an
  error code for those vectors that have one, and room on the stack for the frame and for the handler.
  Then the gate of \<open>idt_init\<close>, in the code segment of \<open>gdt_init\<close>, leads to a stub that calls \<open>interrupt_handler\<close> with the vector and
  the error code; if it halts or is undefined, so is the interrupt; and if it returns, the program goes on with
  all registers, flags, segments and its stack as they were, memory having changed below the stack only.
\<close>

theorem interrupts_are_transparent:
  assumes "length gdt = GDT_NUM_ENTRIES" "v < 256" "err \<noteq> None \<longleftrightarrow> v \<in> error_code_vectors" "stubs_linked stubs isr" "follows_abi depth body"
    and "200 + depth \<le> unat (c_rsp c)"
  shows "case interrupt_handler henv (of_nat v) (seen_error v err) k of
      None \<Rightarrow> take_interrupt stubs body ret henv (gdt_init gdt) (idt_init isr) v err c k = None
    | Some (Halted k') \<Rightarrow> take_interrupt stubs body ret henv (gdt_init gdt) (idt_init isr) v err c k = Some (Inl k')
    | Some (Resumed k') \<Rightarrow>
        (\<exists>mem. take_interrupt stubs body ret henv (gdt_init gdt) (idt_init isr) v err c k = Some (Inr (c\<lparr>c_mem := mem\<rparr>, k')) \<and>
           (\<forall>a. unat (c_rsp c) \<le> unat a \<longrightarrow> mem a = c_mem c a))"
  by (rule interrupt_taken [OF assms])

section \<open>A sample program\<close>

text \<open>Stubs at multiples of 16, and a handler that clobbers the registers it may use and returns.\<close>

definition demo_isr :: "nat \<Rightarrow> u64" where
  "demo_isr v = 0xffffffff80000000 + 16 * of_nat v"

definition demo_gdt :: "gdt_descriptor list" where
  "demo_gdt = gdt_init (replicate 5 zero_segment)"

definition demo_stubs :: "u64 \<Rightarrow> nat option" where
  "demo_stubs a = (let n = unat (a - 0xffffffff80000000) in if n mod 16 = 0 then Some (n div 16) else None)"

definition demo_body :: "kernel \<Rightarrow> cpu \<Rightarrow> cpu" where
  "demo_body k c = c\<lparr>c_rip := stack_top c, c_rsp := c_rsp c + 8,
     c_regs := (\<lambda>r. if r \<in> preserved_registers then c_regs c r else 0)\<rparr>"

definition demo_program :: cpu where
  "demo_program = \<lparr>c_regs = (\<lambda>_. 7), c_rsp = 0xffff800000001003, c_rip = 0xffffffff80001000, c_flags = 0x202,
     c_segs = (\<lambda>s. if s = CS then 8 else 16), c_mem = (\<lambda>a. a)\<rparr>"

lemma demo_linked: "stubs_linked demo_stubs demo_isr"
proof -
  have "demo_isr v - 0xffffffff80000000 = of_nat (16 * v)" for v by (simp add: demo_isr_def)
  moreover have "unat (of_nat (16 * v) :: u64) = 16 * v" if "v < 256" for v using that by (intro unat_of_nat_u64) simp
  ultimately show ?thesis unfolding stubs_linked_def demo_stubs_def Let_def by simp
qed

lemma demo_follows_abi: "follows_abi 8 demo_body"
  by (simp add: follows_abi_def demo_body_def)

lemma interrupts_are_transparent_witness:
  "(\<exists>mem k'. take_interrupt demo_stubs demo_body 1 demo_env demo_gdt (idt_init demo_isr) 40 None demo_program demo_kernel =
     Some (Inr (demo_program\<lparr>c_mem := mem\<rparr>, k')) \<and> mem 0xffff800000001003 = 0xffff800000001003) \<and>
   (\<exists>k'. take_interrupt demo_stubs demo_body 1 demo_env demo_gdt (idt_init demo_isr) 14 (Some 2) demo_program demo_kernel = Some (Inl k'))"
proof
  have room: "200 + 8 \<le> unat (c_rsp demo_program)" by (simp add: demo_program_def)
  note here = interrupts_are_transparent [OF _ _ _ demo_linked demo_follows_abi room, where gdt = "replicate 5 zero_segment" and henv = demo_env and
      k = demo_kernel and ret = 1, folded demo_gdt_def]
  obtain k' where k': "interrupt_handler demo_env 40 40 demo_kernel = Some (Resumed k')"
    using external_interrupt [OF demo_env_ok demo_kernel_ok(4), of 40 40] by auto
  have "seen_error 40 None = 40" by (simp add: seen_error_def)
  with here [of 40 None] k' obtain mem where
      "take_interrupt demo_stubs demo_body 1 demo_env demo_gdt (idt_init demo_isr) 40 None demo_program demo_kernel =
         Some (Inr (demo_program\<lparr>c_mem := mem\<rparr>, k'))"
      "\<forall>a. unat (c_rsp demo_program) \<le> unat a \<longrightarrow> mem a = c_mem demo_program a"
    by (auto simp: error_code_vectors_def)
  moreover have "c_rsp demo_program = 0xffff800000001003" "c_mem demo_program 0xffff800000001003 = 0xffff800000001003"
    by (simp_all add: demo_program_def)
  ultimately show "\<exists>mem k'. take_interrupt demo_stubs demo_body 1 demo_env demo_gdt (idt_init demo_isr) 40 None demo_program demo_kernel =
     Some (Inr (demo_program\<lparr>c_mem := mem\<rparr>, k')) \<and> mem 0xffff800000001003 = 0xffff800000001003" by (metis order_refl)
  obtain tr where "interrupt_handler demo_env 14 2 demo_kernel = Some (Halted (demo_kernel\<lparr>k_trace := tr\<rparr>))"
    using page_fault_is_logged [OF demo_env_ok, of "[104]" "[108]" 2 demo_kernel] by (auto simp: demo_env_def)
  then show "\<exists>k'. take_interrupt demo_stubs demo_body 1 demo_env demo_gdt (idt_init demo_isr) 14 (Some 2) demo_program demo_kernel = Some (Inl k')"
    using here [of 14 "Some 2"] by (simp add: error_code_vectors_def seen_error_def)
qed

end
