(* ===== verification/InterruptedProgram.thy ===== *)
theory InterruptedProgram
  imports BootCorrect InterruptEntry
begin

text \<open>
  The booted kernel from the view of the program it interrupts: the entry (theory BootCorrect) fills the
  descriptor table, interrupts go through it and the stubs (theory InterruptEntry) to the handler and
  back. Shows that sequences of interrupts do to the kernel what the handler does, and nothing to the
  program.
\<close>

section \<open>Sequences of interrupts\<close>

text \<open>Interrupts without an error code that are all returned from.\<close>

fun take_interrupts ::
    "(u64 \<Rightarrow> nat option) \<Rightarrow> (kernel \<Rightarrow> cpu \<Rightarrow> cpu) \<Rightarrow> u64 \<Rightarrow> gdt_descriptor list \<Rightarrow> idt_gate_descriptor list \<Rightarrow> (handler_env \<times> u64) list \<Rightarrow>
     cpu \<Rightarrow> kernel \<Rightarrow> (cpu \<times> kernel) option" where
  "take_interrupts stubs body ret gdt idt [] c k = Some (c, k)"
| "take_interrupts stubs body ret gdt idt ((henv, v) # is) c k =
     (case take_interrupt stubs body ret henv gdt idt (unat v) None c k of
        Some (Inr (c, k)) \<Rightarrow> take_interrupts stubs body ret gdt idt is c k
      | _ \<Rightarrow> None)"

definition external :: "u64 \<Rightarrow> bool" where
  "external v \<longleftrightarrow> 32 \<le> unat v \<and> unat v \<le> 47"

text \<open>
  The handler of an external interrupt does not look at the error code, in whose place the stub has pushed
  the vector.
\<close>

lemma external_error_code:
  "external v \<Longrightarrow> interrupt_handler henv v err k = interrupt_handler henv v 0 k"
  using external_vector [of "unat v"] by (simp add: external_def interrupt_handler_def Let_def)

lemma external_taken:
  assumes gdt: "length gdt = GDT_NUM_ENTRIES" and v: "external v" and run: "interrupt_handler henv v 0 k = Some (Resumed k')"
    and "stubs_linked stubs isr" "follows_abi depth body" "200 + depth \<le> unat (c_rsp c)"
  obtains mem where "take_interrupt stubs body ret henv (gdt_init gdt) (idt_init isr) (unat v) None c k = Some (Inr (c\<lparr>c_mem := mem\<rparr>, k'))"
    "\<forall>a. unat (c_rsp c) \<le> unat a \<longrightarrow> mem a = c_mem c a"
proof -
  have "unat v < 256" "(None :: u64 option) \<noteq> None \<longleftrightarrow> unat v \<in> error_code_vectors" "of_nat (unat v) = v"
    using v by (auto simp: external_def error_code_vectors_def)
  note taken = interrupt_taken [OF gdt this(1,2) assms(4-6), where henv = henv and k = k and ret = ret, unfolded this(3)]
  have "interrupt_handler henv v (seen_error (unat v) None) k = Some (Resumed k')"
    using external_error_code [OF v] run by metis
  from taken [unfolded this] show thesis using that by auto
qed

text \<open>What the handler does at a sequence of interrupts, the processor does, and the program goes on.\<close>

lemma interrupts_taken:
  assumes gdt: "length gdt = GDT_NUM_ENTRIES" and "list_all (\<lambda>(_, v). external v) is" "interrupts is k = Some k'"
    and linked: "stubs_linked stubs isr" and abi: "follows_abi depth body" and "200 + depth \<le> unat (c_rsp c)"
  shows "\<exists>mem. take_interrupts stubs body ret (gdt_init gdt) (idt_init isr) is c k = Some (c\<lparr>c_mem := mem\<rparr>, k') \<and>
    (\<forall>a. unat (c_rsp c) \<le> unat a \<longrightarrow> mem a = c_mem c a)"
  using assms(2,3,6)
proof (induction "is" arbitrary: c k)
  case Nil
  then show ?case by (intro exI [of _ "c_mem c"]) simp
next
  case (Cons x xs)
  obtain henv v where x: "x = (henv, v)" by (rule prod.exhaust)
  with Cons.prems obtain k1 where k1: "interrupt_handler henv v 0 k = Some (Resumed k1)" "interrupts xs k1 = Some k'"
    by (auto split: option.splits after_interrupt.splits)
  have v: "external v" "list_all (\<lambda>(_, v). external v) xs" using Cons.prems(1) x by simp_all
  obtain mem where mem: "take_interrupt stubs body ret henv (gdt_init gdt) (idt_init isr) (unat v) None c k = Some (Inr (c\<lparr>c_mem := mem\<rparr>, k1))"
    "\<forall>a. unat (c_rsp c) \<le> unat a \<longrightarrow> mem a = c_mem c a"
    by (rule external_taken [OF gdt v(1) k1(1) linked abi Cons.prems(3)])
  from Cons.IH [OF v(2) k1(2), of "c\<lparr>c_mem := mem\<rparr>"] Cons.prems(3) mem show ?case by (auto simp: x)
qed

lemma irqs_handled:
  assumes "env_ok henv" "handler_ok k" "\<forall>i\<in>set irqs. i < 16"
  shows "\<exists>k'. interrupts (map (\<lambda>i. (henv, of_nat (32 + i))) irqs) k = Some k' \<and> handler_ok k' \<and>
    (irqs \<noteq> [] \<longrightarrow> acknowledged (last irqs) (k_trace k'))"
  using assms(2,3)
proof (induction irqs arbitrary: k)
  case (Cons i irqs)
  have i: "unat (of_nat (32 + i) :: u64) = 32 + i" using Cons.prems(2) by (intro unat_of_nat_u64) simp
  have "32 \<le> unat (of_nat (32 + i) :: u64)" "unat (of_nat (32 + i) :: u64) \<le> 47"
    unfolding i using Cons.prems(2) by simp_all
  from external_interrupt [OF assms(1) Cons.prems(1) this, of 0] obtain k1 where
      k1: "interrupt_handler henv (of_nat (32 + i)) 0 k = Some (Resumed k1)" "handler_ok k1" "acknowledged i (k_trace k1)"
    unfolding i by auto
  from Cons.IH [OF k1(2)] Cons.prems(2) k1(1,3) show ?case by (cases irqs) (auto simp del: of_nat_add)
qed simp

lemma irqs_external: "\<forall>i\<in>set irqs. i < 16 \<Longrightarrow> list_all (\<lambda>(_, v). external v) (map (\<lambda>i. (henv, of_nat (32 + i))) irqs)"
proof -
  have "external (of_nat (32 + i))" if "i < 16" for i
  proof -
    have "unat (of_nat (32 + i) :: u64) = 32 + i" using that by (intro unat_of_nat_u64) simp
    then show ?thesis using that unfolding external_def by simp
  qed
  then show "\<forall>i\<in>set irqs. i < 16 \<Longrightarrow> ?thesis" by (simp add: list_all_iff del: of_nat_add)
qed

lemma session_external: "list_all (\<lambda>(_, v). external v) (typing_session env batches)"
  by (auto simp: typing_session_def key_interrupts_def list_all_iff external_def)

section \<open>Properties\<close>



section \<open>A sample run\<close>

lemma demo_stub_env:
  "stubs_linked demo_stubs (be_isr demo_boot_env)" "handles_on demo_boot_env demo_handler_env"
proof -
  have "be_isr demo_boot_env = demo_isr" by (simp add: demo_boot_env_def fun_eq_iff demo_isr_def)
  then show "stubs_linked demo_stubs (be_isr demo_boot_env)" using demo_linked by simp
qed (simp add: handles_on_def demo_handler_env_def demo_boot_env_def name_ok_def)

lemma demo_room: "200 + 8 \<le> unat (c_rsp demo_program)"
  by (simp add: demo_program_def)



end
