(* ===== verification/PagingDump.thy ===== *)
theory PagingDump
  imports PagingClone Logging
begin

text \<open>
  What the dump of a page table in kernel/src/memory/paging.c prints (the model is in theory Paging): one
  line for each present entry of each table that is reached from the root, provided that all tables are
  below 2 GB, where the address the dump computes for the next table is the right one.
\<close>

section \<open>The log of a dump\<close>

text \<open>
  The calls of \<open>LOG_INFO\<close> for a line of the dump: the indices are of type \<open>int16_t\<close> and are passed as
  \<open>int\<close>. The dump only reads memory, so that its lines can be logged one after the other.
\<close>

fun dump_message :: "dump_line \<Rightarrow> string" where
  "dump_message (Dump_line level is e large) =
     (case level of
        PML4 \<Rightarrow> ''PML4@%d: %x''
      | PDPR \<Rightarrow> if large then ''PDPR-%d@%d: %x (1GB-PAGE)'' else ''PDPR-%d@%d: %x''
      | PD \<Rightarrow> if large then ''PD-%d-%d@%d: %x (2MB-PAGE)'' else ''PD-%d-%d@%d: %x''
      | PT \<Rightarrow> ''PT-%d-%d-%d@%d: %x'')"

fun dump_arguments :: "dump_line \<Rightarrow> format_arg list" where
  "dump_arguments (Dump_line level is e large) = map (\<lambda>i. Word (of_int i)) is @ [Word e]"

fun log_dump_lines ::
    "u8 list \<Rightarrow> u8 list \<Rightarrow> u8 list \<Rightarrow> 'w logging_backend \<Rightarrow> dump_line list \<Rightarrow> 'w \<Rightarrow> 'w option" where
  "log_dump_lines this_file file buf backend [] w = Some w"
| "log_dump_lines this_file file buf backend (l # ls) w =
     do {
       w \<leftarrow> logging_log_msg this_file buf backend LOGGING_LEVEL_INFO file (literal (dump_message l)) (dump_arguments l) w;
       log_dump_lines this_file file buf backend ls w
     }"

definition paging_dump_logged ::
    "u8 list \<Rightarrow> u8 list \<Rightarrow> u8 list \<Rightarrow> 'w logging_backend \<Rightarrow> paging_state \<Rightarrow> u64 \<Rightarrow> page_table_level_t \<Rightarrow>
     dump_statics \<Rightarrow> 'w \<Rightarrow> (dump_statics \<times> 'w) option" where
  "paging_dump_logged this_file file buf backend st table level s w =
     (let (ls, s) = paging_dump_page_table st table level s
      in map_option (Pair s) (log_dump_lines this_file file buf backend ls w))"

text \<open>
  The text of a line: the level, the indices of the tables above, the index of the entry, and the low 32
  bits of the entry in hexadecimal, as \<open>%x\<close> reads no more of it.
\<close>

fun dump_text :: "dump_line \<Rightarrow> u8 list" where
  "dump_text (Dump_line level is e large) =
     bytes (case level of PML4 \<Rightarrow> ''PML4'' | PDPR \<Rightarrow> ''PDPR'' | PD \<Rightarrow> ''PD'' | PT \<Rightarrow> ''PT'') @
     concat (map (\<lambda>i. bytes ''-'' @ signed_chars 10 i) (butlast is)) @ bytes ''@'' @ signed_chars 10 (last is) @
     bytes '': '' @ numeral_chars 16 (unat (ucast e :: u32)) @
     (if large then bytes (case level of PDPR \<Rightarrow> '' (1GB-PAGE)'' | _ \<Rightarrow> '' (2MB-PAGE)'') else [])"

fun line_ok :: "dump_line \<Rightarrow> bool" where
  "line_ok (Dump_line level is e large) \<longleftrightarrow> length is = 4 - level_depth level \<and> (\<forall>i\<in>set is. 0 \<le> i \<and> i < 512) \<and>
     (large \<longrightarrow> level = PDPR \<or> level = PD)"

lemma index_argument:
  assumes "0 \<le> i" "i < 512"
  shows "sint (ucast (of_int i :: u64) :: u32) = i"
proof -
  have "(ucast (of_int i :: u64) :: u32) = of_int i"
    using assms by (simp add: unsigned_of_int take_bit_int_eq_self)
  then show ?thesis using assms by (simp add: signed_of_int signed_take_bit_int_eq_self)
qed

lemma dump_logged:
  assumes "line_ok l"
  shows "logged (parse (bytes (dump_message l))) (dump_arguments l) = Some (dump_text l, None)"
proof (cases l)
  case (Dump_line level js e large)
  note ok = assms [unfolded Dump_line line_ok.simps]
  show ?thesis
  proof (cases level)
    case PML4
    then obtain a where "js = [a]" using ok by (auto simp: length_Suc_conv)
    then show ?thesis using ok PML4 by (simp add: Dump_line bytes_def Let_def index_argument takes_argument_def)
  next
    case PDPR
    then obtain a b where "js = [a, b]" using ok by (auto simp: length_Suc_conv numeral_2_eq_2)
    then show ?thesis using ok PDPR by (simp add: Dump_line bytes_def Let_def index_argument takes_argument_def)
  next
    case PD
    then obtain a b c where "js = [a, b, c]" using ok by (auto simp: length_Suc_conv numeral_3_eq_3)
    then show ?thesis using ok PD by (simp add: Dump_line bytes_def Let_def index_argument takes_argument_def)
  next
    case PT
    then obtain a b c d where "js = [a, b, c, d]" using ok by (auto simp: length_Suc_conv eval_nat_numeral)
    then show ?thesis using ok PT by (simp add: Dump_line bytes_def Let_def index_argument takes_argument_def)
  qed
qed

lemma log_dump_lines_text:
  assumes "list_all line_ok ls" "length buf = MAX_FORMAT_STRING_LENGTH" "name_ok file" "name_ok this_file"
    "level_number (backend_level backend) \<le> level_number LOGGING_LEVEL_INFO"
  shows "log_dump_lines this_file file buf backend ls w =
    puts (log_put backend) (concat (map (\<lambda>l. line_text LOGGING_LEVEL_INFO [] (dump_text l)) ls)) w"
  using assms(1)
proof (induction ls arbitrary: w)
  case (Cons l ls)
  have msg: "0 \<notin> set (bytes (dump_message l))" "length (bytes (dump_message l)) < 2 ^ 32"
    by (cases l, simp add: bytes_def split: page_table_level_t.split)+
  have "logging_log_msg this_file buf backend LOGGING_LEVEL_INFO file (literal (dump_message l)) (dump_arguments l) w =
      puts (log_put backend) (line_text LOGGING_LEVEL_INFO [] (dump_text l)) w" for w
    using log_msg_named [OF dump_logged msg assms(2-4), of backend LOGGING_LEVEL_INFO w] Cons.prems assms(5)
    by (simp add: literal_def line_text_def reported_text_def)
  moreover have "log_dump_lines this_file file buf backend ls =
      puts (log_put backend) (concat (map (\<lambda>l. line_text LOGGING_LEVEL_INFO [] (dump_text l)) ls))"
    using Cons by (simp add: fun_eq_iff)
  ultimately show ?case by (simp add: puts_append)
qed simp

section \<open>The lines of the entries of a table\<close>

text \<open>The line of the present entry at a path, and the lines of all entries at or below some of a table.\<close>

fun entry_line :: "paging_state \<Rightarrow> u64 \<Rightarrow> nat list \<Rightarrow> dump_line option" where
  "entry_line st root [] = None"
| "entry_line st root (i # p) =
     (case table_at st root p of
        None \<Rightarrow> None
      | Some t \<Rightarrow>
          let e = read_entry st t (of_nat i)
          in if bit e 0
             then Some (Dump_line (level_of (length p)) (map int (rev (i # p))) e (is_page (length p) e \<and> length p < 3))
             else None)"

definition lines_below :: "paging_state \<Rightarrow> u64 \<Rightarrow> nat list \<Rightarrow> nat set \<Rightarrow> dump_line set" where
  "lines_below st root p I =
     {l. \<exists>path. valid_page_path path \<and> (\<exists>i\<in>I. suffix (i # p) path) \<and> entry_line st root path = Some l}"

lemma lines_below_Un: "lines_below st root p (I \<union> J) = lines_below st root p I \<union> lines_below st root p J"
  by (auto simp: lines_below_def)

lemma lines_below_empty [simp]: "lines_below st root p {} = {}"
  by (simp add: lines_below_def)

lemma table_at_suffix: "suffix x q \<Longrightarrow> table_at st root q = Some t \<Longrightarrow> \<exists>u. table_at st root x = Some u"
  by (induction q arbitrary: t) (auto simp: suffix_Cons Let_def split: option.splits if_splits)

lemma lines_below_entry:
  assumes "table_at st root p = Some t" "valid_path p" "i < 512"
  defines "e \<equiv> read_entry st t (of_nat i)"
  shows "lines_below st root p {i} =
    (if \<not> bit e 0 then {}
     else insert (Dump_line (level_of (length p)) (map int (rev (i # p))) e (is_page (length p) e \<and> length p < 3))
       (if is_pointer (length p) e then lines_below st root (i # p) {..<512} else {}))"
proof -
  have here: "entry_line st root (i # p) = (if bit e 0 then
      Some (Dump_line (level_of (length p)) (map int (rev (i # p))) e (is_page (length p) e \<and> length p < 3)) else None)"
    using assms(1) by (simp add: e_def Let_def)
  have deeper: "is_pointer (length p) e \<and> (\<exists>j<512. suffix (j # i # p) path)"
    if a: "valid_page_path path" "suffix (i # p) path" "path \<noteq> i # p" "entry_line st root path = Some l" for path l
  proof -
    obtain k q where path: "path = k # q" "suffix (i # p) q" "k < 512" "\<forall>j\<in>set q. j < 512"
      using a(1-3) by (cases path) (auto simp: suffix_Cons valid_path_def)
    then obtain u where "table_at st root q = Some u" using a(4) path(1) by (auto split: option.splits)
    from table_at_suffix [OF path(2) this] assms(1) have "is_pointer (length p) e"
      by (auto simp: e_def Let_def split: if_splits)
    moreover obtain ys where q: "q = ys @ i # p" using path(2) by (auto simp: suffix_def)
    have "\<exists>j<512. suffix (j # i # p) (k # q)"
    proof (cases ys rule: rev_cases)
      case Nil
      then show ?thesis using path(3) q by (auto intro!: exI [of _ k])
    next
      case (snoc zs j)
      then have "suffix (j # i # p) (k # q)" using q by (auto simp: suffix_def intro!: exI [of _ "k # zs"])
      then show ?thesis using path(4) snoc q by auto
    qed
    ultimately show ?thesis using path(1) by blast
  qed
  have up: "suffix (i # p) path" if "suffix (j # i # p) path" for j path
    using that by (auto simp: suffix_def)
  have none: "\<not> bit e 0 \<Longrightarrow> \<not> is_pointer (length p) e" by (simp add: is_pointer_def)
  have valid: "valid_page_path (i # p)" using assms(2,3) by simp
  show ?thesis
  proof (rule set_eqI)
    fix l
    have "l \<in> lines_below st root p {i} \<longleftrightarrow>
        (\<exists>path. valid_page_path path \<and> suffix (i # p) path \<and> entry_line st root path = Some l)"
      unfolding lines_below_def by blast
    also have "\<dots> \<longleftrightarrow> entry_line st root (i # p) = Some l \<or>
        is_pointer (length p) e \<and> l \<in> lines_below st root (i # p) {..<512}"
      unfolding lines_below_def mem_Collect_eq using deeper up valid
      by (metis lessThan_iff suffix_order.refl)
    finally have "l \<in> lines_below st root p {i} \<longleftrightarrow> entry_line st root (i # p) = Some l \<or>
        is_pointer (length p) e \<and> l \<in> lines_below st root (i # p) {..<512}" .
    then show "l \<in> lines_below st root p {i} \<longleftrightarrow> l \<in>
      (if \<not> bit e 0 then {}
       else insert (Dump_line (level_of (length p)) (map int (rev (i # p))) e (is_page (length p) e \<and> length p < 3))
         (if is_pointer (length p) e then lines_below st root (i # p) {..<512} else {}))"
      using here none by auto
  qed
qed


section \<open>The lines the dump prints\<close>

lemma dump_child_low:
  assumes "unat (entry_base 12 28 e) < 2 ^ 31"
  shows "dump_child pml4_pointer_fields e (g_hhdm_offset st) = child_table st e"
    "dump_child pdpr_pointer_fields e (g_hhdm_offset st) = child_table st e"
    "dump_child pd_pointer_fields e (g_hhdm_offset st) = child_table st e"
proof -
  have high: "\<not> bit e n" if "31 \<le> n" "n < 40" for n
  proof
    assume "bit e n"
    then have "bit (unat (entry_base 12 28 e)) n" using that by (simp add: bit_unsigned_iff bit_entry_base)
    then have "bit (take_bit 31 (unat (entry_base 12 28 e))) n"
      using assms by (simp only: take_bit_nat_eq_self)
    then show False using that(1) by (simp add: bit_take_bit_iff)
  qed
  have "scast (push_bit 12 (ucast (push_bit 0 (drop_bit 12 e AND mask 28)) :: 32 word)) = entry_base 12 28 e"
  proof (rule bit_word_eqI)
    fix n assume "n < LENGTH(64)"
    consider "n < 31" | "31 \<le> n" "n < 40" | "40 \<le> n" by arith
    then show "bit (scast (push_bit 12 (ucast (push_bit 0 (drop_bit 12 e AND mask 28)) :: 32 word)) :: u64) n =
        bit (entry_base 12 28 e) n"
      by cases (use \<open>n < LENGTH(64)\<close> high in \<open>auto simp: bit_simps bit_entry_base min_def\<close>)
  qed
  then show "dump_child pml4_pointer_fields e (g_hhdm_offset st) = child_table st e"
    "dump_child pdpr_pointer_fields e (g_hhdm_offset st) = child_table st e"
    "dump_child pd_pointer_fields e (g_hhdm_offset st) = child_table st e"
    by (simp_all add: dump_child_def child_table_def get_field_def field_positions)
qed

text \<open>The static index variables above a level hold the path.\<close>

fun dump_indices :: "dump_statics \<Rightarrow> int list" where
  "dump_indices (i4, i3, i2, i1) = [i4, i3, i2, i1]"

definition indices_at :: "dump_statics \<Rightarrow> nat list \<Rightarrow> bool" where
  "indices_at s p \<longleftrightarrow> take (length p) (dump_indices s) = map int (rev p)"

lemma dump_entries_append:
  "dump_entries st table level (is @ js) s =
     (let (ls, s1) = dump_entries st table level is s; (ls', s2) = dump_entries st table level js s1 in (ls @ ls', s2))"
  by (induction "is" arbitrary: s) (simp_all add: Let_def split: prod.splits)

lemma dump_absent: "\<not> bit (read_entry st t (of_nat i)) 0 \<Longrightarrow> dump_entries st t level [i] s = ([], s)"
  by (cases s) (simp add: present_iff Let_def)

lemma dump_present:
  assumes "bit (read_entry st t (of_nat i)) 0" "length p \<le> 3" "indices_at s p"
  defines "e \<equiv> read_entry st t (of_nat i)"
  obtains s1 where "indices_at s1 (i # p)"
    "is_pointer (length p) e \<and> unat (entry_base 12 28 e) < 2 ^ 31 \<longrightarrow>
       dump_entries st t (level_of (length p)) [i] s =
         (let (ls, s2) = dump_entries st (child_table st e) (level_of (Suc (length p))) [0..<512] s1
          in (Dump_line (level_of (length p)) (map int (rev (i # p))) e False # ls, s2))"
    "\<not> is_pointer (length p) e \<longrightarrow> dump_entries st t (level_of (length p)) [i] s =
       ([Dump_line (level_of (length p)) (map int (rev (i # p))) e (length p < 3)], s1)"
proof -
  obtain i4 i3 i2 i1 where s: "s = (i4, i3, i2, i1)" by (cases s)
  note defs = level_of_def is_pointer_def present_iff dump_child_low Let_def indices_at_def
  consider "p = []" | a where "p = [a]" | b a where "p = [b, a]" | c b a where "p = [c, b, a]"
    using assms(2) by (cases p; cases "tl p"; cases "tl (tl p)") (auto simp: neq_Nil_conv)
  then show thesis
  proof cases
    case 1
    show thesis by (rule that [of "(int i, i3, i2, i1)"]) (use assms(1) in \<open>simp_all add: 1 s e_def defs del: upt_rec_numeral\<close>)
  next
    case (2 a)
    show thesis by (rule that [of "(i4, int i, i2, i1)"])
      (use assms(1,3) in \<open>simp_all add: 2 s e_def defs del: upt_rec_numeral\<close>)
  next
    case (3 b a)
    show thesis by (rule that [of "(i4, i3, int i, i1)"])
      (use assms(1,3) in \<open>simp_all add: 3 s e_def defs del: upt_rec_numeral\<close>)
  next
    case (4 c b a)
    show thesis by (rule that [of "(i4, i3, i2, int i)"])
      (use assms(1,3) in \<open>simp_all add: 4 s e_def defs del: upt_rec_numeral\<close>)
  qed
qed


lemma entry_line_path: "entry_line st root path = Some (Dump_line level is e b) \<Longrightarrow> path = rev (map nat is)"
  by (cases path) (auto simp: Let_def rev_map comp_def split: option.splits if_splits)

lemma lines_below_disjoint:
  assumes "I \<inter> J = {}"
  shows "lines_below st root p I \<inter> lines_below st root p J = {}"
proof -
  have "i = j" if "suffix (i # p) path" "suffix (j # p) path" for i j path
    using that by (auto simp: suffix_def)
  moreover have "path = path'" if "entry_line st root path = Some l" "entry_line st root path' = Some l" for path path' l
    using that entry_line_path by (cases l) blast
  ultimately show ?thesis using assms unfolding lines_below_def by blast
qed

text \<open>The tables are below 2 GB.\<close>

definition low_tables :: "paging_state \<Rightarrow> u64 \<Rightarrow> bool" where
  "low_tables st root \<longleftrightarrow> (\<forall>p i t. valid_path p \<and> i < 512 \<and> table_at st root p = Some t \<and>
     is_pointer (length p) (read_entry st t (of_nat i)) \<longrightarrow> unat (entry_base 12 28 (read_entry st t (of_nat i))) < 2 ^ 31)"

definition dumps :: "dump_line list \<times> dump_statics \<Rightarrow> dump_line set \<Rightarrow> nat list \<Rightarrow> bool" where
  "dumps r L p \<longleftrightarrow> set (fst r) = L \<and> distinct (fst r) \<and> indices_at (snd r) p"

lemma dumps_all:
  assumes "\<And>i s. i < 512 \<Longrightarrow> indices_at s p \<Longrightarrow> dumps (dump_entries st t level [i] s) (lines_below st root p {i}) p"
    and "indices_at s p" "\<forall>i\<in>set is. i < 512" "distinct is"
  shows "dumps (dump_entries st t level is s) (lines_below st root p (set is)) p"
  using assms(2-)
proof (induction "is" arbitrary: s)
  case Nil
  then show ?case by (simp add: dumps_def)
next
  case (Cons i "is")
  obtain ls s1 where one: "dump_entries st t level [i] s = (ls, s1)" by (rule prod.exhaust)
  obtain ls' s2 where more: "dump_entries st t level is s1 = (ls', s2)" by (rule prod.exhaust)
  have i: "dumps (ls, s1) (lines_below st root p {i}) p"
    using assms(1) [of i s] Cons.prems one by simp
  then have "dumps (ls', s2) (lines_below st root p (set is)) p"
    using Cons.IH [of s1] Cons.prems more by (simp add: dumps_def)
  moreover have "dump_entries st t level (i # is) s = (ls @ ls', s2)"
    using dump_entries_append [of st t level "[i]" "is" s] one more by (simp add: Let_def)
  moreover have "lines_below st root p (set (i # is)) = lines_below st root p {i} \<union> lines_below st root p (set is)"
    using lines_below_Un [of st root p "{i}" "set is"] by simp
  moreover have "lines_below st root p {i} \<inter> lines_below st root p (set is) = {}"
    by (rule lines_below_disjoint) (use Cons.prems in simp)
  ultimately show ?case using i by (simp add: dumps_def)
qed

lemma indices_at_up: "indices_at s (i # p) \<Longrightarrow> indices_at s p"
  unfolding indices_at_def by (drule arg_cong [where f = "take (length p)"]) simp

lemma dump_entry:
  assumes low: "low_tables st root"
  shows "table_at st root p = Some t \<Longrightarrow> valid_path p \<Longrightarrow> i < 512 \<Longrightarrow> indices_at s p \<Longrightarrow>
    dumps (dump_entries st t (level_of (length p)) [i] s) (lines_below st root p {i}) p"
proof (induction "3 - length p" arbitrary: p t i s rule: less_induct)
  case (less p t i s)
  let ?e = "read_entry st t (of_nat i)"
  let ?line = "Dump_line (level_of (length p)) (map int (rev (i # p))) ?e"
  have len: "length p \<le> 3" using less.prems(2) by (simp add: valid_path_def)
  note lines = lines_below_entry [OF less.prems(1-3)]
  show ?case
  proof (cases "bit ?e 0")
    case False
    then show ?thesis unfolding dump_absent [OF False] lines using less.prems(4) by (simp add: dumps_def)
  next
    case present: True
    obtain s1 where s1: "indices_at s1 (i # p)"
      "is_pointer (length p) ?e \<and> unat (entry_base 12 28 ?e) < 2 ^ 31 \<longrightarrow>
         dump_entries st t (level_of (length p)) [i] s =
           (let (ls, s2) = dump_entries st (child_table st ?e) (level_of (Suc (length p))) [0..<512] s1
            in (?line False # ls, s2))"
      "\<not> is_pointer (length p) ?e \<longrightarrow> dump_entries st t (level_of (length p)) [i] s = ([?line (length p < 3)], s1)"
      by (rule dump_present [OF present len less.prems(4)])
    show ?thesis
    proof (cases "is_pointer (length p) ?e")
      case False
      moreover have "length p = 0 \<or> length p = 1 \<or> length p = 2 \<or> length p = 3" using len by arith
      ultimately have "is_page (length p) ?e" using present by (auto simp: is_pointer_def is_page_def)
      then show ?thesis unfolding mp [OF s1(3) False] lines using indices_at_up [OF s1(1)] False present
        by (simp add: dumps_def)
    next
      case True
      then have page: "(is_page (length p) ?e \<and> length p < 3) = False" by (auto simp: is_pointer_def is_page_def)
      have child: "table_at st root (i # p) = Some (child_table st ?e)" "valid_path (i # p)"
        using less.prems(1-3) True by (auto simp: Let_def is_pointer_def valid_path_def)
      have deeper: "3 - length (i # p) < 3 - length p" using True unfolding is_pointer_def by simp arith
      obtain ls s2 where ls: "dump_entries st (child_table st ?e) (level_of (Suc (length p))) [0..<512] s1 = (ls, s2)"
        by (rule prod.exhaust)
      have "dumps (ls, s2) (lines_below st root (i # p) {..<512}) (i # p)"
        using dumps_all [OF less.hyps [OF deeper child] s1(1), of "[0..<512]"] ls
        by (simp del: upt_rec_numeral add: atLeast0LessThan)
      moreover have "?line False \<notin> lines_below st root (i # p) {..<512}"
      proof
        assume "?line False \<in> lines_below st root (i # p) {..<512}"
        then obtain path j where "suffix (j # i # p) path" "entry_line st root path = Some (?line False)"
          by (auto simp: lines_below_def)
        moreover from entry_line_path [OF this(2)] have "length path = Suc (length p)" by simp
        ultimately show False by (auto dest: suffix_length_le)
      qed
      moreover have "unat (entry_base 12 28 ?e) < 2 ^ 31"
        using low less.prems(1-3) True unfolding low_tables_def by blast
      ultimately have run: "dump_entries st t (level_of (length p)) [i] s = (?line False # ls, s2)"
        and "dumps (?line False # ls, s2) (insert (?line False) (lines_below st root (i # p) {..<512})) p"
        using s1(2) True ls indices_at_up [of s2 i p] by (simp_all add: dumps_def del: dump_entries.simps)
      then show ?thesis unfolding run lines page using True present by simp
    qed
  qed
qed

lemma dump_lines:
  assumes "low_tables st root"
  shows "set (fst (paging_dump_page_table st root PML4 s)) = lines_below st root [] {..<512} \<and>
    distinct (fst (paging_dump_page_table st root PML4 s))"
proof -
  have "indices_at s []" by (simp add: indices_at_def)
  with dumps_all [OF dump_entry [OF assms, of "[]" root], of s "[0..<512]"] show ?thesis
    by (simp del: upt_rec_numeral
      add: paging_dump_page_table_def dumps_def valid_path_def atLeast0LessThan level_of_def)
qed

lemma root_line:
  "Dump_line l is e b \<in> lines_below st root [] {..<512} \<longleftrightarrow>
     (\<exists>p i t. valid_path p \<and> i < 512 \<and> table_at st root p = Some t \<and> e = read_entry st t (of_nat i) \<and> bit e 0 \<and>
        l = level_of (length p) \<and> is = map int (rev (i # p)) \<and> b = (is_page (length p) e \<and> length p < 3))"
proof -
  have "\<exists>j<512. suffix [j] path" if "valid_page_path path" "path \<noteq> []" for path
    using that by (cases path rule: rev_cases) (auto simp: valid_page_path_def suffix_def)
  then have "Dump_line l is e b \<in> lines_below st root [] {..<512} \<longleftrightarrow>
      (\<exists>path. valid_page_path path \<and> entry_line st root path = Some (Dump_line l is e b))"
    unfolding lines_below_def mem_Collect_eq by (metis lessThan_iff entry_line.simps(1) option.distinct(1))
  also have "\<dots> \<longleftrightarrow> (\<exists>i p. valid_page_path (i # p) \<and> entry_line st root (i # p) = Some (Dump_line l is e b))"
    by (metis entry_line.simps(1) neq_Nil_conv option.distinct(1))
  also have "\<dots> \<longleftrightarrow> (\<exists>i p t. valid_path p \<and> i < 512 \<and> table_at st root p = Some t \<and> bit (read_entry st t (of_nat i)) 0 \<and>
      Dump_line l is e b = Dump_line (level_of (length p)) (map int (rev (i # p))) (read_entry st t (of_nat i))
        (is_page (length p) (read_entry st t (of_nat i)) \<and> length p < 3))"
    by (force simp: Let_def split: option.splits if_splits)
  finally show ?thesis unfolding dump_line.inject by blast
qed

lemma page_line:
  "pages st root (i # p) = Some e \<longleftrightarrow> valid_path p \<and> i < 512 \<and>
     Dump_line (level_of (length p)) (map int (rev (i # p))) e (length p < 3) \<in> lines_below st root [] {..<512}"
proof -
  have inj: "map int (rev (i # p)) = map int (rev (i' # p')) \<longleftrightarrow> i = i' \<and> p = p'" for i' p'
    by (auto simp: inj_map_eq_map [OF inj_of_nat])
  have page: "is_page (length p) e \<longleftrightarrow> bit e 0 \<and> (length p < 3) = (is_page (length p) e \<and> length p < 3)"
    if "length p \<le> 3"
    using that by (auto simp: is_page_def)
  have "pages st root (i # p) = Some e \<longleftrightarrow> valid_path p \<and> i < 512 \<and>
      (\<exists>t. table_at st root p = Some t \<and> e = read_entry st t (of_nat i) \<and> is_page (length p) e)"
    by (auto simp: pages_Cons Let_def split: option.splits)
  also have "\<dots> \<longleftrightarrow> valid_path p \<and> i < 512 \<and>
      Dump_line (level_of (length p)) (map int (rev (i # p))) e (length p < 3) \<in> lines_below st root [] {..<512}"
    unfolding root_line inj using page by (auto simp: valid_path_def)
  finally show ?thesis .
qed

lemma root_line_ok: "l \<in> lines_below st root [] {..<512} \<Longrightarrow> line_ok l"
proof (cases l)
  case (Dump_line level js e large)
  assume "l \<in> lines_below st root [] {..<512}"
  then obtain p i where p: "length p \<le> 3" "\<forall>j\<in>set p. j < 512" "i < 512" "level = level_of (length p)"
      "js = map int (rev (i # p))" "large \<longrightarrow> length p = 1 \<or> length p = 2"
    unfolding Dump_line root_line by (auto simp: valid_path_def is_page_def)
  then consider "length p = 0" | "length p = 1" | "length p = 2" | "length p = 3" by arith
  then show ?thesis by cases (use p in \<open>auto simp: Dump_line level_of_def\<close>)
qed

section \<open>Properties\<close>


lemma demo_low_tables: "low_tables demo_cloning demo_root"
  unfolding low_tables_def
proof (intro allI impI, elim conjE)
  fix p i t
  assume a: "valid_path p" "i < 512" "table_at demo_cloning demo_root p = Some t"
    "is_pointer (length p) (read_entry demo_cloning t (of_nat i))"
  then have "valid_path (i # p)" "table_at demo_cloning demo_root (i # p) = Some (child_table demo_cloning (read_entry demo_cloning t (of_nat i)))"
    by (auto simp: Let_def is_pointer_def valid_path_def)
  from demo_cloning_tables [OF this] have "entry_base 12 28 (read_entry demo_cloning t (of_nat i)) = 0xa000"
    by (auto simp: child_table_def demo_cloning_fields)
  then show "unat (entry_base 12 28 (read_entry demo_cloning t (of_nat i))) < 2 ^ 31" by (simp only:) simp
qed


end
