(* ===== verification/PmmPrint.thy ===== *)
theory PmmPrint
  imports Pmm Printf Logging
begin

text \<open>
  The listing of the memory map (\<open>pmm_print_memmap\<close> in kernel/src/memory/pmm.c, for debugging; no code
  calls it), with the interpreter of formats of Printf. Shows what it prints.
\<close>

section \<open>Operations\<close>

definition print_memmap_entry :: "u8 list \<Rightarrow> limine_memmap_entry \<Rightarrow> terminal \<Rightarrow> terminal option" where
  "print_memmap_entry buf e t =
     do {
       (_, _, t) \<leftarrow> printf (literal (''%p'' @ [CHR 9] @ ''%p'' @ [CHR 9] @ ''%d''))
                     [Word (me_base e), Word (me_length e), Word (me_type e)] buf t;
       t \<leftarrow> (if me_type e = ucast MEMMAP_TYPE_USABLE
             then do {
               (_, _, t) \<leftarrow> printf (literal '' [usable]'') [] buf t;
               Some t
             }
             else Some t);
       (_, _, t) \<leftarrow> printf (literal [CHR 10]) [] buf t;
       Some t
     }"

fun print_memmap_entries :: "u8 list \<Rightarrow> memmap \<Rightarrow> terminal \<Rightarrow> terminal option" where
  "print_memmap_entries buf [] t = Some t"
| "print_memmap_entries buf (e # es) t =
     do {
       t \<leftarrow> print_memmap_entry buf e t;
       print_memmap_entries buf es t
     }"

definition pmm_print_memmap :: "u8 list \<Rightarrow> memmap \<Rightarrow> terminal \<Rightarrow> terminal option" where
  "pmm_print_memmap buf memmap t =
     do {
       (_, _, t) \<leftarrow> printf (literal (''Memory Map:'' @ [CHR 10] @ ''Base'' @ [CHR 9] @ ''Length'' @ [CHR 9] @ ''Type'' @ [CHR 10]))
                     [] buf t;
       print_memmap_entries buf memmap t
     }"

section \<open>What is printed\<close>

text \<open>Base and length in hexadecimal, the type as a signed number of 32 bits.\<close>

definition entry_text :: "limine_memmap_entry \<Rightarrow> u8 list" where
  "entry_text e =
     [48, 120] @ numeral_chars 16 (unat (me_base e)) @ [9] @ [48, 120] @ numeral_chars 16 (unat (me_length e)) @ [9] @
     signed_chars 10 (sint (ucast (me_type e) :: u32)) @ (if me_type e = 0 then bytes '' [usable]'' else []) @ [10]"

definition memmap_text :: "memmap \<Rightarrow> u8 list" where
  "memmap_text memmap =
     bytes (''Memory Map:'' @ [CHR 10] @ ''Base'' @ [CHR 9] @ ''Length'' @ [CHR 9] @ ''Type'' @ [CHR 10]) @
     concat (map entry_text memmap)"

text \<open>A call of \<open>printf\<close> whose result is ignored.\<close>

lemma printf_literal:
  assumes "printed (parse (bytes fmt)) list 0 = Some (xs, r, outs)" "0 \<notin> set (bytes fmt)" "length fmt < 2 ^ 32"
    and "length buf = MAX_FORMAT_STRING_LENGTH" "terminal_ok t"
  obtains t' where "printf (literal fmt) list buf t = Some (r, outs, t')" "terminal_ok t'"
    "puts terminal_put_char xs t = Some t'"
  using printf_printed [OF assms(1,5,2) _ assms(4), of "[]"] assms(3) by (auto simp: literal_def)

lemma entry_printed:
  assumes "length buf = MAX_FORMAT_STRING_LENGTH" "terminal_ok t"
  obtains t' where "print_memmap_entry buf e t = Some t'" "puts terminal_put_char (entry_text e) t = Some t'" "terminal_ok t'"
proof -
  let ?fmt = "''%p'' @ [CHR 9] @ ''%p'' @ [CHR 9] @ ''%d''" and ?args = "[Word (me_base e), Word (me_length e), Word (me_type e)]"
  let ?xs = "[48, 120] @ numeral_chars 16 (unat (me_base e)) @ [9] @ [48, 120] @ numeral_chars 16 (unat (me_length e)) @ [9] @
     signed_chars 10 (sint (ucast (me_type e) :: u32))"
  obtain r outs where "printed (parse (bytes ?fmt)) ?args 0 = Some (?xs, r, outs)"
    by (simp add: bytes_def takes_argument_def Let_def)
  then obtain t1 where t1: "printf (literal ?fmt) ?args buf t = Some (r, outs, t1)" "terminal_ok t1"
      "puts terminal_put_char ?xs t = Some t1"
    by (rule printf_literal [OF _ _ _ assms]) (simp_all add: bytes_def)
  obtain r2 where "printed (parse (bytes '' [usable]'')) [] 0 = Some (bytes '' [usable]'', r2, [])"
    by (simp add: bytes_def)
  then obtain t2 where t2: "printf (literal '' [usable]'') [] buf t1 = Some (r2, [], t2)" "terminal_ok t2"
      "puts terminal_put_char (bytes '' [usable]'') t1 = Some t2"
    by (rule printf_literal [OF _ _ _ assms(1) t1(2)]) (simp_all add: bytes_def)
  define t3 where "t3 = (if me_type e = 0 then t2 else t1)"
  have "terminal_ok t3" using t1(2) t2(2) by (simp add: t3_def)
  have "printed (parse (bytes [CHR 10])) [] 0 = Some ([10], 1, [])" by (simp add: bytes_def)
  then obtain t4 where t4: "printf (literal [CHR 10]) [] buf t3 = Some (1, [], t4)" "terminal_ok t4"
      "puts terminal_put_char [10] t3 = Some t4"
    by (rule printf_literal [OF _ _ _ assms(1) \<open>terminal_ok t3\<close>]) (simp_all add: bytes_def)
  have "print_memmap_entry buf e t = Some t4"
    using t1(1) t2(1) t4(1) by (simp add: print_memmap_entry_def t3_def split: if_splits)
  moreover have "puts terminal_put_char (entry_text e) t = Some t4"
  proof -
    have "entry_text e = ?xs @ (if me_type e = 0 then bytes '' [usable]'' else []) @ [10]" by (simp add: entry_text_def)
    moreover have "puts terminal_put_char (xs @ (if me_type e = 0 then ys else []) @ [10]) t = Some t4"
      if "puts terminal_put_char xs t = Some t1" "puts terminal_put_char ys t1 = Some t2" for xs ys
      using that t4(3) by (auto simp: puts_append t3_def simp del: puts.simps(2) split: if_splits)
    ultimately show ?thesis using t1(3) t2(3) by (simp only:)
  qed
  ultimately show thesis using t4(2) by (rule that)
qed

lemma entries_printed:
  assumes "length buf = MAX_FORMAT_STRING_LENGTH"
  shows "terminal_ok t \<Longrightarrow> \<exists>t'. print_memmap_entries buf es t = Some t' \<and>
    puts terminal_put_char (concat (map entry_text es)) t = Some t' \<and> terminal_ok t'"
proof (induction es arbitrary: t)
  case (Cons e es)
  obtain t1 where t1: "print_memmap_entry buf e t = Some t1" "puts terminal_put_char (entry_text e) t = Some t1" "terminal_ok t1"
    by (rule entry_printed [OF assms Cons.prems])
  with Cons.IH [OF t1(3)] show ?case by (simp add: puts_append)
qed simp

lemma memmap_printed:
  assumes "length buf = MAX_FORMAT_STRING_LENGTH" "terminal_ok t"
  shows "\<exists>t'. pmm_print_memmap buf memmap t = Some t' \<and>
    puts terminal_put_char (memmap_text memmap) t = Some t' \<and> terminal_ok t'"
proof -
  let ?fmt = "''Memory Map:'' @ [CHR 10] @ ''Base'' @ [CHR 9] @ ''Length'' @ [CHR 9] @ ''Type'' @ [CHR 10]"
  obtain r where "printed (parse (bytes ?fmt)) [] 0 = Some (bytes ?fmt, r, [])" by (simp add: bytes_def)
  then obtain t1 where t1: "printf (literal ?fmt) [] buf t = Some (r, [], t1)" "terminal_ok t1"
      "puts terminal_put_char (bytes ?fmt) t = Some t1"
    by (rule printf_literal [OF _ _ _ assms]) (simp_all add: bytes_def)
  from entries_printed [OF assms(1) t1(2), of memmap] t1(1,3) show ?thesis
    unfolding pmm_print_memmap_def memmap_text_def puts_append by auto
qed

end
