(* ===== verification/LibcMemory.thy ===== *)
theory LibcMemory
  imports Prelude
begin

text \<open>
  The memory functions of the C library (libc/string/memcpy.c, memmove.c, memset.c, memcmp.c). They
  may be given overlapping blocks, so memory is a function from addresses to bytes; each loop is a
  recursion over the index, whose accesses are written as the code writes them.
\<close>

type_synonym memory = "u64 \<Rightarrow> u8"

section \<open>Operations\<close>

text \<open>The upward loop shared by \<open>memcpy\<close> and \<open>memmove\<close>: \<open>n\<close> bytes are left from index \<open>i\<close> on.\<close>

fun copy_up :: "u64 \<Rightarrow> u64 \<Rightarrow> nat \<Rightarrow> u64 \<Rightarrow> memory \<Rightarrow> memory" where
  "copy_up dest src 0 i m = m"
| "copy_up dest src (Suc n) i m = copy_up dest src n (i + 1) (m(dest + i := m (src + i)))"

definition memcpy :: "u64 \<Rightarrow> u64 \<Rightarrow> u64 \<Rightarrow> memory \<Rightarrow> memory" where
  "memcpy dest src n m = copy_up dest src (unat n) 0 m"

text \<open>The downward loop of \<open>memmove\<close>, from index \<open>n\<close> down to 1.\<close>

fun copy_down :: "u64 \<Rightarrow> u64 \<Rightarrow> nat \<Rightarrow> memory \<Rightarrow> memory" where
  "copy_down dest src 0 m = m"
| "copy_down dest src (Suc n) m = copy_down dest src n (m(dest + of_nat n := m (src + of_nat n)))"

definition memmove :: "u64 \<Rightarrow> u64 \<Rightarrow> u64 \<Rightarrow> memory \<Rightarrow> memory" where
  "memmove dest src n m =
     (if src > dest then copy_up dest src (unat n) 0 m
      else if src < dest then copy_down dest src (unat n) m
      else m)"

fun set_up :: "u64 \<Rightarrow> u8 \<Rightarrow> nat \<Rightarrow> u64 \<Rightarrow> memory \<Rightarrow> memory" where
  "set_up p c 0 i m = m"
| "set_up p c (Suc n) i m = set_up p c n (i + 1) (m(p + i := c))"

definition memset :: "u64 \<Rightarrow> u32 \<Rightarrow> u64 \<Rightarrow> memory \<Rightarrow> memory" where
  "memset s c n m = set_up s (ucast c) (unat n) 0 m"

fun cmp_up :: "u64 \<Rightarrow> u64 \<Rightarrow> nat \<Rightarrow> u64 \<Rightarrow> memory \<Rightarrow> int" where
  "cmp_up p1 p2 0 i m = 0"
| "cmp_up p1 p2 (Suc n) i m =
     (if m (p1 + i) \<noteq> m (p2 + i) then (if m (p1 + i) < m (p2 + i) then - 1 else 1)
      else cmp_up p1 p2 n (i + 1) m)"

definition memcmp :: "u64 \<Rightarrow> u64 \<Rightarrow> u64 \<Rightarrow> memory \<Rightarrow> int" where
  "memcmp s1 s2 n m = cmp_up s1 s2 (unat n) 0 m"

section \<open>Blocks of memory\<close>

definition block :: "memory \<Rightarrow> u64 \<Rightarrow> nat \<Rightarrow> u8 list" where
  "block m a n = map (\<lambda>i. m (a + of_nat i)) [0..<n]"

definition inside :: "u64 \<Rightarrow> nat \<Rightarrow> u64 \<Rightarrow> bool" where
  "inside a n x \<longleftrightarrow> (\<exists>i<n. x = a + of_nat i)"

definition no_wrap :: "u64 \<Rightarrow> nat \<Rightarrow> bool" where
  "no_wrap a n \<longleftrightarrow> unat a + n \<le> 2 ^ 64"

lemma no_wrap_index:
  assumes "no_wrap a n" "i < n"
  shows "unat (a + of_nat i) = unat a + i"
proof -
  have "unat a + i < 2 ^ 64" using assms by (simp add: no_wrap_def)
  moreover from this have "unat (of_nat i :: u64) = i" by (intro unat_of_nat_u64) simp
  ultimately show ?thesis by (simp add: unat_add_u64)
qed

lemma index_inj:
  assumes "no_wrap a n" "i < n" "j < n" "a + of_nat i = a + of_nat j"
  shows "i = j"
  using no_wrap_index [OF assms(1)] assms(2-4) by (metis add_left_cancel)

text \<open>
  A copy upwards is right where the source does not start below the destination's written part:
  the byte read at each index has not been overwritten before.
\<close>

lemma copy_up_correct:
  assumes "no_wrap dest (k + n)" "no_wrap src (k + n)" "unat dest \<le> unat src"
  shows "copy_up dest src n (of_nat k) m x =
    (if \<exists>i. k \<le> i \<and> i < k + n \<and> x = dest + of_nat i
     then m (src + (x - dest)) else m x)"
  using assms
proof (induction n arbitrary: k m)
  case (Suc n)
  let ?m = "m(dest + of_nat k := m (src + of_nat k))"
  have ih: "copy_up dest src n (of_nat (Suc k)) ?m x =
      (if \<exists>i. Suc k \<le> i \<and> i < Suc k + n \<and> x = dest + of_nat i then ?m (src + (x - dest)) else ?m x)"
    by (rule Suc.IH) (use Suc.prems in \<open>simp_all add: add.commute\<close>)
  have step: "copy_up dest src (Suc n) (of_nat k) m x = copy_up dest src n (of_nat (Suc k)) ?m x"
    by (simp add: add.commute)
  show ?case
  proof (cases "\<exists>i. Suc k \<le> i \<and> i < Suc k + n \<and> x = dest + of_nat i")
    case True
    then obtain i where i: "Suc k \<le> i" "i < k + Suc n" "x = dest + of_nat i" by auto
    have "src + of_nat i \<noteq> dest + of_nat k"
    proof
      assume "src + of_nat i = dest + of_nat k"
      then have "unat src + i = unat dest + k"
        using no_wrap_index [OF Suc.prems(2) i(2)] no_wrap_index [OF Suc.prems(1), of k] by simp
      with Suc.prems(3) i(1) show False by simp
    qed
    with True i show ?thesis unfolding step ih by (auto intro: Suc_leD)
  next
    case False
    have only: "(\<exists>i. k \<le> i \<and> i < k + Suc n \<and> x = dest + of_nat i) \<longleftrightarrow> x = dest + of_nat k"
      using False by (metis Suc_leI add_Suc add_Suc_right le_add1 le_eq_less_or_eq less_add_Suc1)
    show ?thesis unfolding step ih only if_not_P [OF False] by simp
  qed
qed auto

text \<open>A copy downwards is right where the source does not start above the destination.\<close>

lemma copy_down_correct:
  assumes "no_wrap dest n" "no_wrap src n" "unat src \<le> unat dest"
  shows "copy_down dest src n m x =
    (if \<exists>i<n. x = dest + of_nat i then m (src + (x - dest)) else m x)"
  using assms
proof (induction n arbitrary: m)
  case (Suc n)
  let ?m = "m(dest + of_nat n := m (src + of_nat n))"
  have ih: "copy_down dest src n ?m x =
      (if \<exists>i<n. x = dest + of_nat i then ?m (src + (x - dest)) else ?m x)"
    by (rule Suc.IH) (use Suc.prems in \<open>simp_all add: no_wrap_def\<close>)
  show ?case
  proof (cases "\<exists>i<n. x = dest + of_nat i")
    case True
    then obtain i where i: "i < n" "x = dest + of_nat i" by auto
    have "src + of_nat i \<noteq> dest + of_nat n"
    proof
      assume "src + of_nat i = dest + of_nat n"
      then have "unat src + i = unat dest + n"
        using no_wrap_index [OF Suc.prems(2), of i] no_wrap_index [OF Suc.prems(1), of n] i(1) by simp
      with Suc.prems(3) i(1) show False by simp
    qed
    with True i show ?thesis using ih by (auto intro: less_SucI)
  next
    case False
    then have "(\<exists>i<Suc n. x = dest + of_nat i) \<longleftrightarrow> x = dest + of_nat n"
      by (metis less_Suc_eq)
    then show ?thesis using ih False by simp
  qed
qed simp

lemma moved_block:
  assumes "\<And>x. m' x = (if \<exists>i<n. x = dest + of_nat i then m (src + (x - dest)) else m x)"
  shows "block m' dest n = block m src n \<and> (\<forall>x. \<not> inside dest n x \<longrightarrow> m' x = m x)"
  using assms by (auto simp: block_def inside_def)

lemma memmove_moves:
  assumes "no_wrap dest (unat n)" "no_wrap src (unat n)"
  shows "block (memmove dest src n m) dest (unat n) = block m src (unat n) \<and>
    (\<forall>x. \<not> inside dest (unat n) x \<longrightarrow> memmove dest src n m x = m x)"
proof -
  consider "dest < src" | "src < dest" | "src = dest" by (rule linorder_cases)
  then show ?thesis
  proof cases
    case 1
    then have "unat dest \<le> unat src" by (simp add: word_less_nat_alt)
    with 1 show ?thesis
      using copy_up_correct [of dest 0 "unat n" src m] assms
      by (intro moved_block) (simp_all add: memmove_def)
  next
    case 2
    then have "unat src \<le> unat dest" "\<not> dest < src" by (simp_all add: word_less_nat_alt)
    with 2 show ?thesis
      using copy_down_correct [OF assms] assms by (intro moved_block) (simp_all add: memmove_def)
  qed (simp add: memmove_def)
qed

lemma set_up_correct:
  "set_up p c n (of_nat k) m x = (if \<exists>i. k \<le> i \<and> i < k + n \<and> x = p + of_nat i then c else m x)"
proof (induction n arbitrary: k m)
  case (Suc n)
  have "set_up p c (Suc n) (of_nat k) m x = set_up p c n (of_nat (Suc k)) (m(p + of_nat k := c)) x"
    by (simp add: add.commute)
  also have "\<dots> = (if \<exists>i. k \<le> i \<and> i < k + Suc n \<and> x = p + of_nat i then c else m x)"
    unfolding Suc.IH
  proof (cases "x = p + of_nat k")
    case True
    then have "\<exists>i. k \<le> i \<and> i < k + Suc n \<and> x = p + of_nat i" by (intro exI [of _ k]) simp
    then show "(if \<exists>i. Suc k \<le> i \<and> i < Suc k + n \<and> x = p + of_nat i then c else (m(p + of_nat k := c)) x) =
        (if \<exists>i. k \<le> i \<and> i < k + Suc n \<and> x = p + of_nat i then c else m x)"
      using True by simp
  next
    case False
    then have upd: "(m(p + of_nat k := c)) x = m x" by simp
    have "(\<exists>i. k \<le> i \<and> i < k + Suc n \<and> x = p + of_nat i) \<longleftrightarrow>
        (\<exists>i. Suc k \<le> i \<and> i < Suc k + n \<and> x = p + of_nat i)"
      using False by (metis Suc_leD Suc_leI add_Suc add_Suc_right le_eq_less_or_eq)
    then show "(if \<exists>i. Suc k \<le> i \<and> i < Suc k + n \<and> x = p + of_nat i then c else (m(p + of_nat k := c)) x) =
        (if \<exists>i. k \<le> i \<and> i < k + Suc n \<and> x = p + of_nat i then c else m x)"
      by (simp only: upd)
  qed
  finally show ?case .
qed auto

lemma memset_fills:
  "memset p c n m x = (if inside p (unat n) x then ucast c else m x)"
  using set_up_correct [of p "ucast c" "unat n" 0 m x] by (simp add: memset_def inside_def)

text \<open>\<open>memcmp\<close> compares the blocks as words over bytes.\<close>

fun compare_bytes :: "u8 list \<Rightarrow> u8 list \<Rightarrow> int" where
  "compare_bytes (x # xs) (y # ys) = (if x < y then - 1 else if y < x then 1 else compare_bytes xs ys)"
| "compare_bytes _ _ = 0"

lemma cmp_up_bytes:
  "cmp_up p q n (of_nat k) m =
     compare_bytes (map (\<lambda>i. m (p + of_nat i)) [k..<k + n]) (map (\<lambda>i. m (q + of_nat i)) [k..<k + n])"
proof (induction n arbitrary: k)
  case (Suc n)
  have "[k..<k + Suc n] = k # [Suc k..<Suc k + n]" by (simp add: upt_conv_Cons)
  moreover have "cmp_up p q n (of_nat k + 1) m = cmp_up p q n (of_nat (Suc k)) m"
    by (simp add: add.commute)
  ultimately show ?case using Suc.IH [of "Suc k"] by (auto simp: not_less_iff_gr_or_eq)
qed simp

lemma memcmp_bytes: "memcmp p q n m = compare_bytes (block m p (unat n)) (block m q (unat n))"
  using cmp_up_bytes [of p q "unat n" 0 m] by (simp add: memcmp_def block_def)

lemma compare_bytes_eq_0: "length xs = length ys \<Longrightarrow> compare_bytes xs ys = 0 \<longleftrightarrow> xs = ys"
  by (induction xs ys rule: list_induct2) auto

lemma memcmp_eq_0: "memcmp p q n m = 0 \<longleftrightarrow> block m p (unat n) = block m q (unat n)"
  unfolding memcmp_bytes by (rule compare_bytes_eq_0) (simp add: block_def)

section \<open>Properties\<close>

text \<open>
  C31: \<open>memmove\<close> moves a block as if through a copy, however source and destination overlap: the
  destination holds what the source held before, and nothing else changes.
\<close>

theorem memmove_correct:
  assumes "no_wrap dest (unat n)" "no_wrap src (unat n)"
  shows "block (memmove dest src n m) dest (unat n) = block m src (unat n) \<and>
    (\<forall>x. \<not> inside dest (unat n) x \<longrightarrow> memmove dest src n m x = m x)"
  by (rule memmove_moves [OF assms])

lemma memmove_correct_witness:
  "block (memmove 0x1001 0x1000 3 (\<lambda>a. ucast a)) 0x1001 3 = [0, 1, 2]"
proof -
  have "block (memmove 0x1001 0x1000 3 (\<lambda>a. ucast a)) 0x1001 3 = block (\<lambda>a. ucast a) 0x1000 3"
    using memmove_correct [of "0x1001" 3 "0x1000" "\<lambda>a. ucast a"] by (simp add: no_wrap_def)
  then show ?thesis by (simp add: block_def numeral_3_eq_3)
qed

text \<open>
  \<open>memcpy\<close> agrees with \<open>memmove\<close> whenever the destination does not lie above the source, also
  when the blocks overlap.
\<close>

theorem memcpy_correct:
  assumes "no_wrap dest (unat n)" "no_wrap src (unat n)" "unat dest \<le> unat src"
  shows "memcpy dest src n m = memmove dest src n m"
proof (cases "dest = src")
  case True
  have "copy_up dest dest k (of_nat i) m = m" for k i
    by (induction k arbitrary: i) (simp_all add: add.commute flip: of_nat_Suc)
  from this [of "unat n" 0] True show ?thesis by (simp add: memcpy_def memmove_def)
next
  case False
  then have "dest < src" using assms(3) by (metis word_le_nat_alt order_le_imp_less_or_eq)
  then show ?thesis by (simp add: memcpy_def memmove_def)
qed

lemma memcpy_correct_witness:
  "memcpy 0x1000 0x1001 3 (\<lambda>a. ucast a) = memmove 0x1000 0x1001 3 (\<lambda>a. ucast a)"
  using memcpy_correct [of "0x1000" 3 "0x1001" "\<lambda>a. ucast a"] by (simp add: no_wrap_def)

end
